(* ===== verification/Rt_Prelude.thy ===== *)
theory Rt_Prelude
  imports Main "HOL-Library.Word"
begin

text \<open>
  Shared vocabulary of the development: the machine types of the C runtime, the result type in
  which every definition reports a run-time fault, the little-endian view of machine words, and
  the generic lemmas that the component theories use.

  \<^item> \<open>u64\<close> is the C type \<open>uint64_t\<close>; the type \<open>TaggedPtr\<close> of \<open>balrt.h\<close> is also represented by it.
  \<^item> \<open>int64_t\<close> and \<open>int\<close> values are elements of \<^typ>\<open>int\<close>; a cast to an unsigned type is written out
    with \<open>mod\<close>, and the predicate \<open>i64\<close> states the range.
  \<^item> A definition that can fail returns \<open>fault + 'a\<close>; \<open>bindR\<close> sequences such computations.
\<close>

unbundle bit_operations_syntax

type_synonym u64 = "64 word"
type_synonym u32 = "32 word"
type_synonym byte = "8 word"
type_synonym tagged = "64 word"

named_theorems tagged_simps \<open>how tags, flags and pointers combine\<close>

section \<open>Faults and results\<close>

text \<open>
  How a call into the runtime can end other than by returning: the process aborts because
  \<open>malloc\<close> failed, a panic is raised inside the runtime (\<open>_bal_panic\<close>), the process calls
  \<open>abort\<close>, the C code has undefined behaviour (an access outside an allocated block, through a
  pointer that designates no object of the expected kind, or an overflowing \<open>int\<close> computation),
  recursion is deeper than the bound given to the model, or a loop does not end.
\<close>

datatype fault =
    OutOfMemory
  | Panicked nat
  | Aborted
  | OutOfBounds
  | BadPointer
  | IntOverflow
  | TooDeep
  | Diverges

definition bindR :: "'e + 'a \<Rightarrow> ('a \<Rightarrow> 'e + 'b) \<Rightarrow> 'e + 'b" where
  "bindR m f = (case m of Inl e \<Rightarrow> Inl e | Inr x \<Rightarrow> f x)"

lemma bindR_simps [simp]: "bindR (Inl e) f = Inl e" "bindR (Inr x) f = f x"
  by (simp_all add: bindR_def)

lemma bindR_eq_Inr [simp]: "bindR m f = Inr y \<longleftrightarrow> (\<exists>x. m = Inr x \<and> f x = Inr y)"
  by (cases m) simp_all

lemma bindR_eq_Inl: "bindR m f = Inl e \<longleftrightarrow> m = Inl e \<or> (\<exists>x. m = Inr x \<and> f x = Inl e)"
  by (cases m) simp_all

lemma bindR_cong [fundef_cong]:
  "m = m' \<Longrightarrow> (\<And>x. m' = Inr x \<Longrightarrow> f x = f' x) \<Longrightarrow> bindR m f = bindR m' f'"
  by (cases m') simp_all

lemma bindR_assoc: "bindR (bindR m f) g = bindR m (\<lambda>x. bindR (f x) g)"
  by (cases m) simp_all

text \<open>\<open>guardR\<close> fails with the given fault unless the condition holds.\<close>

definition guardR :: "'e \<Rightarrow> bool \<Rightarrow> 'e + unit" where
  "guardR e b = (if b then Inr () else Inl e)"

lemma guardR_simps [simp]: "guardR e True = Inr ()" "guardR e False = Inl e"
  by (simp_all add: guardR_def)

lemma guardR_eq_Inr [simp]: "guardR e b = Inr u \<longleftrightarrow> b"
  by (simp add: guardR_def)

lemma guardR_eq_Inl [simp]: "guardR e b = Inl e' \<longleftrightarrow> \<not> b \<and> e = e'"
  by (simp add: guardR_def)

definition of_option :: "'e \<Rightarrow> 'a option \<Rightarrow> 'e + 'a" where
  "of_option e x = (case x of None \<Rightarrow> Inl e | Some y \<Rightarrow> Inr y)"

lemma of_option_simps [simp]:
  "of_option e (Some y) = Inr y" "of_option e None = Inl e"
  "of_option e x = Inr y \<longleftrightarrow> x = Some y"
  "of_option e x = Inl e' \<longleftrightarrow> x = None \<and> e = e'"
  by (auto simp: of_option_def split: option.splits)

section \<open>Machine integers\<close>

definition INT64_MAX :: int where [simp]: "INT64_MAX = 2 ^ 63 - 1"
definition INT64_MIN :: int where [simp]: "INT64_MIN = - (2 ^ 63)"

definition i64 :: "int \<Rightarrow> bool" where
  "i64 n \<longleftrightarrow> INT64_MIN \<le> n \<and> n \<le> INT64_MAX"

text \<open>The cast \<open>(uint64_t)n\<close>, as a number.\<close>

definition cast_u64 :: "int \<Rightarrow> int" where
  "cast_u64 n = n mod 2 ^ 64"

lemma cast_u64_nonneg: "i64 n \<Longrightarrow> 0 \<le> n \<Longrightarrow> cast_u64 n = n"
  by (simp add: cast_u64_def i64_def)

lemma cast_u64_neg: "i64 n \<Longrightarrow> n < 0 \<Longrightarrow> cast_u64 n = n + 2 ^ 64"
proof -
  assume n: "i64 n" "n < 0"
  have "n mod 2 ^ 64 = (n + 2 ^ 64) mod 2 ^ 64" by simp
  also have "\<dots> = n + 2 ^ 64" using n by (intro mod_pos_pos_trivial) (simp_all add: i64_def)
  finally show ?thesis by (simp add: cast_u64_def)
qed

text \<open>
  The idiom \<open>(uint64_t)index < (uint64_t)length\<close>: one unsigned comparison does both range checks,
  provided the length is not negative.
\<close>

lemma cast_u64_less:
  assumes "i64 i" "i64 n" "0 \<le> n"
  shows "cast_u64 i < cast_u64 n \<longleftrightarrow> 0 \<le> i \<and> i < n"
proof (cases "0 \<le> i")
  case True
  with assms show ?thesis by (simp add: cast_u64_nonneg)
next
  case False
  have "n < 2 ^ 63" "- (2 ^ 63) \<le> i" using assms by (simp_all add: i64_def)
  with False assms show ?thesis by (simp add: cast_u64_nonneg cast_u64_neg)
qed

section \<open>Lists used as blocks of memory\<close>

text \<open>
  A block of memory is a list of cells; \<open>None\<close> is a cell that was allocated and never written.
  Reading and writing a cell outside the block is the fault \<open>OutOfBounds\<close>.
\<close>

definition block_new :: "nat \<Rightarrow> 'a option list" where
  "block_new n = replicate n None"

definition block_get :: "'a option list \<Rightarrow> int \<Rightarrow> fault + 'a" where
  "block_get b i = (if 0 \<le> i \<and> i < int (length b) then of_option BadPointer (b ! nat i) else Inl OutOfBounds)"

definition block_set :: "'a option list \<Rightarrow> int \<Rightarrow> 'a \<Rightarrow> fault + 'a option list" where
  "block_set b i v = (if 0 \<le> i \<and> i < int (length b) then Inr (b[nat i := Some v]) else Inl OutOfBounds)"

lemma length_block_new [simp]: "length (block_new n) = n"
  by (simp add: block_new_def)

lemma block_set_ok: "0 \<le> i \<Longrightarrow> i < int (length b) \<Longrightarrow> block_set b i v = Inr (b[nat i := Some v])"
  by (simp add: block_set_def)

lemma block_set_eq_Inr:
  "block_set b i v = Inr b' \<longleftrightarrow> 0 \<le> i \<and> i < int (length b) \<and> b' = b[nat i := Some v]"
  by (auto simp: block_set_def)

lemma block_get_eq_Inr:
  "block_get b i = Inr v \<longleftrightarrow> 0 \<le> i \<and> i < int (length b) \<and> b ! nat i = Some v"
  by (auto simp: block_get_def)

end
