(* ===== verification/Rt_Tagged.thy ===== *)
theory Rt_Tagged
  imports Rt_Prelude
begin

text \<open>
  The tagged-pointer layout of \<open>balrt.h\<close> and \<open>tag.h\<close>: a 64-bit word with an 8-bit tag on top, a
  56-bit payload, and three low bits that alignment leaves free (\<open>EXACT_FLAG\<close> is bit 2,
  \<open>STRING_LARGE_FLAG\<close> and \<open>FUNCTION_CLOSURE_FLAG\<close> are bit 0). Also the operations of
  \<open>tagged.c\<close> and \<open>tagged_inline.c\<close>, which need no heap.
\<close>

section \<open>Tags (tag.h)\<close>

definition TAG_NIL :: nat where [simp]: "TAG_NIL = 0x00"
definition TAG_BOOLEAN :: nat where [simp]: "TAG_BOOLEAN = 0x01"
definition TAG_INT :: nat where [simp]: "TAG_INT = 0x02"
definition TAG_FLOAT :: nat where [simp]: "TAG_FLOAT = 0x03"
definition TAG_DECIMAL :: nat where [simp]: "TAG_DECIMAL = 0x04"
definition TAG_STRING :: nat where [simp]: "TAG_STRING = 0x05"
definition TAG_ERROR :: nat where [simp]: "TAG_ERROR = 0x06"
definition TAG_FUNCTION :: nat where [simp]: "TAG_FUNCTION = 0x09"
definition TAG_LIST :: nat where [simp]: "TAG_LIST = 0xC"
definition TAG_MAPPING :: nat where [simp]: "TAG_MAPPING = 0xD"

section \<open>Masks and flags (balrt.h)\<close>

definition TAG_MASK :: u64 where "TAG_MASK = 0xFF"
definition UT_MASK :: nat where "UT_MASK = 0x1F"
definition TAG_SHIFT :: nat where [simp]: "TAG_SHIFT = 56"
definition HEAP_ALIGNMENT :: u64 where "HEAP_ALIGNMENT = 8"
definition POINTER_MASK :: u64 where "POINTER_MASK = push_bit TAG_SHIFT 1 - 1"
definition ALIGN_MASK :: u64 where "ALIGN_MASK = NOT (HEAP_ALIGNMENT - 1)"
definition IMMEDIATE_FLAG :: u64 where "IMMEDIATE_FLAG = push_bit TAG_SHIFT 0x20"
definition EXACT_FLAG :: u64 where "EXACT_FLAG = 0x4"
definition STRING_LARGE_FLAG :: u64 where "STRING_LARGE_FLAG = 1"
definition FUNCTION_CLOSURE_FLAG :: u64 where "FUNCTION_CLOSURE_FLAG = 1"

definition IMMEDIATE_INT_MIN :: int where "IMMEDIATE_INT_MIN = - (2 ^ (TAG_SHIFT - 1))"
definition IMMEDIATE_INT_MAX :: int where "IMMEDIATE_INT_MAX = 2 ^ (TAG_SHIFT - 1) - 1"
definition IMMEDIATE_INT_TRUNCATE :: "int \<Rightarrow> u64" where
  "IMMEDIATE_INT_TRUNCATE n = word_of_int n AND (push_bit TAG_SHIFT 1 - 1)"

definition shifted_tag :: "nat \<Rightarrow> u64" where
  "shifted_tag t = push_bit TAG_SHIFT (of_nat t)"

definition NIL :: tagged where "NIL = 0"
definition TAGGED_FALSE :: tagged where "TAGGED_FALSE = shifted_tag TAG_BOOLEAN"
definition TAGGED_TRUE :: tagged where "TAGGED_TRUE = shifted_tag TAG_BOOLEAN OR 1"
definition TAGGED_INT_ZERO :: tagged where
  "TAGGED_INT_ZERO = IMMEDIATE_FLAG OR shifted_tag TAG_INT"
definition TAGGED_STRING_EMPTY :: tagged where
  "TAGGED_STRING_EMPTY = IMMEDIATE_FLAG OR shifted_tag TAG_STRING OR (push_bit (7 * 8) 1 - 1)"

section \<open>Reading a tagged pointer\<close>

definition ptr_mask :: "tagged \<Rightarrow> u64 \<Rightarrow> u64" where
  "ptr_mask p m = p AND m"

definition getTag :: "tagged \<Rightarrow> nat" where
  "getTag p = unat (drop_bit TAG_SHIFT p AND TAG_MASK)"

definition utTag :: "tagged \<Rightarrow> nat" where
  "utTag p = getTag p AND UT_MASK"

definition taggedToBoolean :: "tagged \<Rightarrow> nat" where
  "taggedToBoolean p = unat (p AND 1)"

definition taggedToPtr :: "tagged \<Rightarrow> u64" where
  "taggedToPtr p = ptr_mask p (POINTER_MASK AND ALIGN_MASK)"

definition taggedToPtrExact :: "tagged \<Rightarrow> u64" where
  "taggedToPtrExact p = ptr_mask p ((POINTER_MASK AND ALIGN_MASK) OR EXACT_FLAG)"

section \<open>Building a tagged pointer\<close>

definition ptrAddFlags :: "u64 \<Rightarrow> u64 \<Rightarrow> tagged" where
  "ptrAddFlags p flags = p OR flags"

definition ptrAddShiftedTag :: "u64 \<Rightarrow> u64 \<Rightarrow> tagged" where
  "ptrAddShiftedTag p shiftedTag = p OR shiftedTag"

definition bal_ptr_add_shifted_tag :: "u64 \<Rightarrow> u64 \<Rightarrow> tagged" where
  "bal_ptr_add_shifted_tag p shiftedTag = p + shiftedTag"

definition bal_int_add_shifted_tag :: "u64 \<Rightarrow> u64 \<Rightarrow> tagged" where
  "bal_int_add_shifted_tag n shiftedTag = 0 + (shiftedTag OR n)"

definition is_immediate :: "tagged \<Rightarrow> bool" where
  "is_immediate p \<longleftrightarrow> p AND IMMEDIATE_FLAG \<noteq> 0"

section \<open>Exactness (tagged_inline.c)\<close>

definition bal_tagged_clear_exact_any :: "tagged \<Rightarrow> tagged" where
  "bal_tagged_clear_exact_any p =
     (let cleared = ptr_mask p (NOT EXACT_FLAG)
      in if ptr_mask p IMMEDIATE_FLAG = 0 then cleared else p)"

definition bal_tagged_clear_exact_ptr :: "tagged \<Rightarrow> tagged" where
  "bal_tagged_clear_exact_ptr p = ptr_mask p (NOT EXACT_FLAG)"

definition bal_tagged_member_clear_exact_any :: "tagged \<Rightarrow> tagged \<Rightarrow> tagged" where
  "bal_tagged_member_clear_exact_any structure member =
     (let m = structure OR NOT EXACT_FLAG;
          cleared = ptr_mask member m
      in if ptr_mask member IMMEDIATE_FLAG = 0 then cleared else member)"

definition bal_tagged_member_clear_exact_ptr :: "tagged \<Rightarrow> tagged \<Rightarrow> tagged" where
  "bal_tagged_member_clear_exact_ptr structure member =
     (let m = structure OR NOT EXACT_FLAG in ptr_mask member m)"

text \<open>A tagged pointer is exact when bit 2 is set.\<close>

definition is_exact :: "tagged \<Rightarrow> bool" where
  "is_exact p \<longleftrightarrow> bit p 2"

section \<open>Bit-level facts\<close>

lemma POINTER_MASK_mask: "POINTER_MASK = mask 56"
  by (simp add: POINTER_MASK_def mask_eq_exp_minus_1 push_bit_of_1)

lemma ALIGN_MASK_mask: "ALIGN_MASK = NOT (mask 3)"
  by (simp add: ALIGN_MASK_def HEAP_ALIGNMENT_def mask_eq_exp_minus_1)

lemma TAG_MASK_mask: "TAG_MASK = mask 8"
  by (simp add: TAG_MASK_def mask_eq_exp_minus_1)

lemma IMMEDIATE_FLAG_bit: "IMMEDIATE_FLAG = push_bit 61 1"
  by (simp add: IMMEDIATE_FLAG_def push_bit_of_1 push_bit_eq_mult)

lemma EXACT_FLAG_bit: "EXACT_FLAG = push_bit 2 1"
  by (simp add: EXACT_FLAG_def push_bit_eq_mult)

lemma bit_push_bit_1: "bit (push_bit k 1 :: u64) n \<longleftrightarrow> n = k \<and> n < 64"
  by (auto simp: bit_simps)

lemmas flag_bits = POINTER_MASK_mask ALIGN_MASK_mask TAG_MASK_mask IMMEDIATE_FLAG_bit EXACT_FLAG_bit

lemma bit_IMMEDIATE_FLAG [simp]: "bit IMMEDIATE_FLAG n \<longleftrightarrow> n = 61"
  unfolding IMMEDIATE_FLAG_bit bit_push_bit_1 by auto

lemma bit_EXACT_FLAG [simp]: "bit EXACT_FLAG n \<longleftrightarrow> n = 2"
  unfolding EXACT_FLAG_bit bit_push_bit_1 by auto

lemma bit_POINTER_MASK [simp]: "bit POINTER_MASK n \<longleftrightarrow> n < 56"
  by (auto simp: POINTER_MASK_mask bit_simps)

lemma bit_ALIGN_MASK [simp]: "bit ALIGN_MASK n \<longleftrightarrow> 3 \<le> n \<and> n < 64"
  by (auto simp: ALIGN_MASK_mask bit_simps)

lemma bit_shifted_tag: "bit (shifted_tag t) n \<longleftrightarrow> 56 \<le> n \<and> n < 64 \<and> bit t (n - 56)"
  by (auto simp: shifted_tag_def bit_simps)

lemma bit_taggedToPtr [simp]: "bit (taggedToPtr p) n \<longleftrightarrow> 3 \<le> n \<and> n < 56 \<and> bit p n"
  by (auto simp: taggedToPtr_def ptr_mask_def bit_and_iff)

lemma bit_taggedToPtrExact [simp]: "bit (taggedToPtrExact p) n \<longleftrightarrow> 2 \<le> n \<and> n < 56 \<and> bit p n"
  by (auto simp: taggedToPtrExact_def ptr_mask_def bit_and_iff bit_or_iff)

lemma is_immediate_bit: "is_immediate p \<longleftrightarrow> bit p 61"
proof
  assume "is_immediate p"
  then obtain n where "bit (p AND IMMEDIATE_FLAG) n"
    unfolding is_immediate_def by (metis bit_word_eqI bit_0_eq bot_apply bot_bool_def)
  then show "bit p 61" by (auto simp: bit_and_iff)
next
  assume "bit p 61"
  then have "bit (p AND IMMEDIATE_FLAG) 61" by (simp add: bit_and_iff)
  then show "is_immediate p" unfolding is_immediate_def by (metis bit_0_eq bot_apply bot_bool_def)
qed

lemma ptr_mask_IMMEDIATE [simp]: "ptr_mask p IMMEDIATE_FLAG = 0 \<longleftrightarrow> \<not> bit p 61"
  using is_immediate_bit [of p] by (auto simp: is_immediate_def ptr_mask_def)

lemma bit_u64_ge: "bit (w :: u64) n \<Longrightarrow> n < 64"
  using bit_imp_le_length [of w n] by simp

section \<open>Heap addresses\<close>

text \<open>
  An address that the allocator can return: not null, aligned to \<open>HEAP_ALIGNMENT\<close> and below
  \<open>2 ^ TAG_SHIFT\<close>, so that the tag byte and the three low bits are free.
\<close>

definition heap_addr :: "u64 \<Rightarrow> bool" where
  "heap_addr p \<longleftrightarrow> p \<noteq> 0 \<and> p AND NOT (POINTER_MASK AND ALIGN_MASK) = 0"

lemma heap_addr_bit: "heap_addr p \<Longrightarrow> bit p n \<Longrightarrow> 3 \<le> n \<and> n < 56"
proof (rule ccontr)
  assume p: "heap_addr p" "bit p n" and "\<not> (3 \<le> n \<and> n < 56)"
  then have "bit (p AND NOT (POINTER_MASK AND ALIGN_MASK)) n"
    using bit_u64_ge [of p n] by (auto simp: bit_simps)
  with p(1) show False by (simp add: heap_addr_def)
qed

lemma bit_getTag: "bit (getTag p) n \<longleftrightarrow> n < 8 \<and> bit p (n + 56)"
  by (auto simp: getTag_def TAG_MASK_mask bit_unsigned_iff bit_simps add.commute dest: bit_u64_ge)

lemma getTag_less: "getTag p < 256"
proof -
  have "getTag p = take_bit 8 (getTag p)"
    by (rule bit_eqI) (auto simp: bit_take_bit_iff bit_getTag)
  then show ?thesis using take_bit_nat_less_exp [of 8 "getTag p"] by simp
qed

lemma low_bits_bit: "low < 8 \<Longrightarrow> bit (low :: u64) n \<Longrightarrow> n < 3"
proof (rule ccontr)
  assume low: "low < 8" "bit low n" "\<not> n < 3"
  have "low AND mask 3 = low" using low(1) by (intro less_mask_eq) simp
  then have "bit (low AND mask 3) n" using low(2) by simp
  then show False using low(3) by (simp add: bit_simps)
qed

lemma taggedToPtr_ptrAddFlags [tagged_simps]:
  assumes "heap_addr p" "low < 8"
  shows "taggedToPtr (ptrAddFlags p (shifted_tag t OR low)) = p"
proof (rule bit_word_eqI)
  fix n assume "n < LENGTH(64)"
  show "bit (taggedToPtr (ptrAddFlags p (shifted_tag t OR low))) n = bit p n"
    using heap_addr_bit [OF assms(1), of n] low_bits_bit [OF assms(2), of n]
    by (auto simp: ptrAddFlags_def bit_or_iff bit_shifted_tag)
qed

lemma getTag_ptrAddFlags [tagged_simps]:
  assumes "heap_addr p" "low < 8" "t < 256"
  shows "getTag (ptrAddFlags p (shifted_tag t OR low)) = t"
proof (rule bit_eqI)
  fix n :: nat
  have t: "bit t n \<Longrightarrow> n < 8"
    using assms(3) take_bit_nat_eq_self_iff [of 8 t] bit_take_bit_iff [of 8 t n] by simp
  show "bit (getTag (ptrAddFlags p (shifted_tag t OR low))) n = bit t n"
    using heap_addr_bit [OF assms(1), of "n + 56"] low_bits_bit [OF assms(2), of "n + 56"] t
    by (auto simp: bit_getTag ptrAddFlags_def bit_or_iff bit_shifted_tag)
qed

lemma ptrAddShiftedTag_Flags: "ptrAddShiftedTag p (shifted_tag t) = ptrAddFlags p (shifted_tag t OR 0)"
  by (simp add: ptrAddShiftedTag_def ptrAddFlags_def)

lemma immediate_ptrAddFlags [tagged_simps]:
  assumes "heap_addr p" "low < 8" "t < 32"
  shows "\<not> is_immediate (ptrAddFlags p (shifted_tag t OR low))"
proof -
  have "\<not> bit t 5" using assms(3) take_bit_nat_eq_self_iff [of 5 t] bit_take_bit_iff [of 5 t 5] by simp
  then show ?thesis
    using heap_addr_bit [OF assms(1), of 61] low_bits_bit [OF assms(2), of 61]
    by (auto simp: is_immediate_bit ptrAddFlags_def bit_or_iff bit_shifted_tag)
qed

lemma heap_addr_taggedToPtr: "taggedToPtr p \<noteq> 0 \<Longrightarrow> heap_addr (taggedToPtr p)"
proof -
  have "taggedToPtr p AND NOT (POINTER_MASK AND ALIGN_MASK) = 0"
    by (rule bit_word_eqI) (auto simp: bit_simps)
  then show "taggedToPtr p \<noteq> 0 \<Longrightarrow> heap_addr (taggedToPtr p)"
    by (simp add: heap_addr_def)
qed

lemma exact_ptr_eq: "taggedToPtr p = taggedToPtrExact p \<longleftrightarrow> \<not> is_exact p"
proof
  assume "taggedToPtr p = taggedToPtrExact p"
  then have "bit (taggedToPtr p) 2 = bit (taggedToPtrExact p) 2" by simp
  then show "\<not> is_exact p" by (simp add: is_exact_def)
next
  assume e: "\<not> is_exact p"
  have "bit (taggedToPtr p) n = bit (taggedToPtrExact p) n" for n
  proof (cases "n = 2")
    case True
    with e show ?thesis by (simp add: is_exact_def)
  next
    case False
    then show ?thesis by auto
  qed
  then show "taggedToPtr p = taggedToPtrExact p"
    by (intro bit_word_eqI) blast
qed

section \<open>Properties of the exactness operations\<close>

lemma bit_clear_exact_ptr: "bit (bal_tagged_clear_exact_ptr p) n \<longleftrightarrow> bit p n \<and> n \<noteq> 2"
  by (auto simp: bal_tagged_clear_exact_ptr_def ptr_mask_def bit_simps dest: bit_u64_ge)

lemma bit_clear_exact_any: "bit (bal_tagged_clear_exact_any p) n \<longleftrightarrow> bit p n \<and> (n \<noteq> 2 \<or> is_immediate p)"
  by (auto simp: bal_tagged_clear_exact_any_def Let_def is_immediate_bit)
     (auto simp: ptr_mask_def bit_simps dest: bit_u64_ge)

lemma bit_member_clear_exact_ptr:
  "bit (bal_tagged_member_clear_exact_ptr s m) n \<longleftrightarrow> bit m n \<and> (n \<noteq> 2 \<or> is_exact s)"
  by (cases "n = 2")
     (auto simp: bal_tagged_member_clear_exact_ptr_def Let_def ptr_mask_def bit_simps is_exact_def dest: bit_u64_ge)

lemma bit_member_clear_exact_any:
  "bit (bal_tagged_member_clear_exact_any s m) n \<longleftrightarrow> bit m n \<and> (n \<noteq> 2 \<or> is_immediate m \<or> is_exact s)"
  using bit_member_clear_exact_ptr [of s m n]
  by (auto simp: bal_tagged_member_clear_exact_any_def bal_tagged_member_clear_exact_ptr_def Let_def is_immediate_bit)

lemmas clear_exact_bits =
  bit_clear_exact_ptr bit_clear_exact_any bit_member_clear_exact_ptr bit_member_clear_exact_any

end
