(* ===== verification/Rt_Objects.thy ===== *)
theory Rt_Objects
  imports Rt_Tagged
begin

text \<open>
  The data model of \<open>balrt.h\<close>: arrays, descriptors, subtypes, heap objects, and the state of the
  runtime. The state \<open>rt\<close> is the heap (a map from addresses to objects), the addresses that
  \<open>malloc\<close> is going to return, and the read-only image that the compiler emits (descriptors and
  types, addressed like everything else by 64-bit words).

  The flexible array members of the C structs (\<open>memberTypes\<close>, \<open>fieldTypes\<close>, \<open>subtypes\<close>) are lists.
  The nine function pointers of a \<open>ListDesc\<close> always come from one of the four families of
  \<open>list.c\<close>, so \<open>list_repr\<close> names the family; in the same way the \<open>contains\<close> pointer of a
  \<open>UniformSubtype\<close> and the \<open>create\<close> pointer of a filler are the constructors of
  \<open>uniform_subtype\<close> and \<open>filler_desc\<close>.
\<close>

section \<open>Arrays\<close>

record 'a c_array =
  arr_length :: int
  arr_capacity :: int
  arr_members :: "'a option list"

record map_field =
  mf_key :: tagged
  mf_value :: tagged

datatype list_array =
    TpArray "tagged c_array"
  | IArray "int c_array"
  | BArray "byte c_array"
  | FArray "u64 c_array"

section \<open>Descriptors and types\<close>

type_synonym tid = u32
type_synonym memberType = u64

definition BITSET_MEMBER_TYPE :: "u32 \<Rightarrow> memberType" where
  "BITSET_MEMBER_TYPE bitSet = push_bit 1 (ucast bitSet) OR 1"

datatype list_repr = GenericList | IntArrayList | ByteArrayList | FloatArrayList

record list_desc =
  ld_tid :: tid
  ld_nMemberTypes :: int
  ld_minLength :: int
  ld_repr :: list_repr
  ld_restType :: memberType
  ld_fillerDesc :: u64
  ld_memberTypes :: "memberType list"

record mapping_desc =
  md_tid :: tid
  md_nFields :: int
  md_restType :: memberType
  md_fillerDesc :: u64
  md_fieldTypes :: "memberType list"

record function_desc =
  fd_tid :: tid
  fd_returnType :: memberType
  fd_restType :: memberType
  fd_nRequiredParams :: int
  fd_paramTypes :: "memberType list"

type_synonym decQuad = "128 word"

text \<open>A decQuad is a NaN when the five bits below the sign are set (the macro \<open>DFISNAN\<close> of decNumber).\<close>

definition dec_isnan :: "decQuad \<Rightarrow> bool" where
  "dec_isnan d \<longleftrightarrow> drop_bit 122 d AND 0x1F = 0x1F"

record int_range =
  range_min :: int
  range_max :: int

record record_subtype_field =
  fieldName :: tagged
  fieldBitSet :: u32

datatype uniform_subtype =
    TrueSubtype
  | FalseSubtype
  | IntSubtype "int_range list"
  | FloatSubtype bool "u64 list"
  | DecimalSubtype bool "decQuad list"
  | StringSubtype bool bool "tagged list"
  | ArraySubtype u32
  | MapSubtype u32
  | RecordSubtype "record_subtype_field list"
  | EasyFunctionSubtype u32 "u32 list"
  | PrecomputedSubtype "tid list"

record complex_type =
  ct_all :: u32
  ct_some :: u32
  ct_subtypes :: "uniform_subtype list"

datatype filler_desc =
    GenericFiller tagged
  | IntFiller int
  | FloatFiller u64
  | DecimalFiller decQuad
  | ListFiller u64
  | FixedLengthListFiller u64 "u64 list"
  | MappingFiller u64

datatype fillability = FILL_NONE | FILL_EACH | FILL_COPY

section \<open>Heap objects\<close>

record list_obj =
  lo_desc :: u64
  lo_array :: list_array

record mapping_obj =
  mo_desc :: u64
  mo_fArray :: "map_field c_array"
  mo_table :: "int list"
  mo_tableElementShift :: nat
  mo_tableLengthShift :: nat

record function_obj =
  fo_desc :: u64
  fo_code :: u64
  fo_captured :: "u64 list"

record error_obj =
  eo_message :: tagged
  eo_lineNumber :: int
  eo_backtraceErrorCode :: int
  eo_backtraceErrorMessage :: "string option"
  eo_pcs :: "u64 list"

text \<open>
  A string object is the sequence of its 64-bit units, header included, because the code reads
  strings through \<open>IntPtr\<close>.
\<close>

datatype obj =
    ObjInt int
  | ObjFloat u64
  | ObjDecimal decQuad
  | ObjString "u64 list"
  | ObjList list_obj
  | ObjMapping mapping_obj
  | ObjFunction function_obj
  | ObjError error_obj

section \<open>The state of the runtime\<close>

text \<open>
  The part of the decNumber library that \<open>decimal.c\<close> calls, as a parameter. \<open>decQuadCompare\<close>
  returns a decQuad, of which the callers use only the class.
\<close>

datatype decClass =
    DEC_CLASS_SNAN | DEC_CLASS_QNAN
  | DEC_CLASS_NEG_INF | DEC_CLASS_NEG_NORMAL | DEC_CLASS_NEG_SUBNORMAL | DEC_CLASS_NEG_ZERO
  | DEC_CLASS_POS_ZERO | DEC_CLASS_POS_SUBNORMAL | DEC_CLASS_POS_NORMAL | DEC_CLASS_POS_INF

record image =
  listDescs :: "u64 \<Rightarrow> list_desc option"
  mappingDescs :: "u64 \<Rightarrow> mapping_desc option"
  functionDescs :: "u64 \<Rightarrow> function_desc option"
  complexTypes :: "u64 \<Rightarrow> complex_type option"
  fillerDescs :: "u64 \<Rightarrow> filler_desc option"
  hashKey :: "u64 \<times> u64"
  decQuadCompareClass :: "decQuad \<Rightarrow> decQuad \<Rightarrow> decClass"

text \<open>\<open>junk\<close> is what a block of memory contains before it is written.\<close>

record rt =
  heap :: "u64 \<Rightarrow> obj option"
  pool :: "u64 list"
  junk :: "nat \<Rightarrow> u64"
  img :: image

section \<open>Allocation (alloc.c)\<close>

text \<open>
  \<open>pool\<close> lists what the coming calls of \<open>malloc\<close> return; \<open>0\<close> (or the end of the list) is a call
  that fails, on which \<open>_bal_alloc\<close> prints a message and aborts.
\<close>

definition bal_alloc :: "int \<Rightarrow> rt \<Rightarrow> fault + u64 \<times> rt" where
  "bal_alloc nBytes s =
     (case pool s of
        [] \<Rightarrow> Inl OutOfMemory
      | p # ps \<Rightarrow> if p \<noteq> 0 then Inr (p, s\<lparr>pool := ps\<rparr>) else Inl OutOfMemory)"

definition store :: "u64 \<Rightarrow> obj \<Rightarrow> rt \<Rightarrow> rt" where
  "store p x s = s\<lparr>heap := (heap s)(p \<mapsto> x)\<rparr>"

definition alloc_obj :: "int \<Rightarrow> obj \<Rightarrow> rt \<Rightarrow> fault + u64 \<times> rt" where
  "alloc_obj nBytes x s = bindR (bal_alloc nBytes s) (\<lambda>(p, s1). Inr (p, store p x s1))"

lemma store_simps [simp]:
  "heap (store p x s) = (heap s)(p \<mapsto> x)" "pool (store p x s) = pool s" "img (store p x s) = img s"
  "junk (store p x s) = junk s"
  by (simp_all add: store_def)

text \<open>
  What \<open>malloc\<close> guarantees: the addresses to come are heap addresses, pairwise distinct, and
  designate nothing yet.
\<close>

definition wf_rt :: "rt \<Rightarrow> bool" where
  "wf_rt s \<longleftrightarrow>
     distinct (filter (\<lambda>p. p \<noteq> 0) (pool s)) \<and>
     (\<forall>p \<in> set (pool s). p \<noteq> 0 \<longrightarrow> heap_addr p \<and> heap s p = None) \<and>
     (\<forall>p. heap s p \<noteq> None \<longrightarrow> heap_addr p)"

lemma bal_alloc_fault: "bal_alloc n s = Inl e \<Longrightarrow> e = OutOfMemory"
  by (auto simp: bal_alloc_def split: list.splits if_splits)

lemma bal_alloc_ok:
  assumes "bal_alloc n s = Inr (p, s1)"
  shows "heap s1 = heap s" "img s1 = img s" "junk s1 = junk s" "p \<noteq> 0" "pool s = p # pool s1"
  using assms by (auto simp: bal_alloc_def split: list.splits if_splits)

lemma bal_alloc_wf:
  assumes "wf_rt s" "bal_alloc n s = Inr (p, s1)"
  shows "wf_rt s1" "heap_addr p" "heap s p = None" "p \<notin> set (pool s1)"
  using assms by (auto simp: bal_alloc_def wf_rt_def split: list.splits if_splits)

lemma store_wf: "wf_rt s \<Longrightarrow> heap_addr p \<Longrightarrow> p \<notin> set (pool s) \<Longrightarrow> wf_rt (store p x s)"
  by (auto simp: wf_rt_def)

lemma store_wf_old: "wf_rt s \<Longrightarrow> heap s p \<noteq> None \<Longrightarrow> wf_rt (store p x s)"
  by (auto simp: wf_rt_def)

lemma alloc_obj_ok:
  assumes "wf_rt s" "alloc_obj n x s = Inr (p, s1)"
  shows "wf_rt s1" "heap_addr p" "heap s p = None" "heap s1 = (heap s)(p \<mapsto> x)" "img s1 = img s"
    "junk s1 = junk s" "pool s = p # pool s1"
proof -
  from assms(2) obtain s0 where a: "bal_alloc n s = Inr (p, s0)" and s1: "s1 = store p x s0"
    by (auto simp: alloc_obj_def)
  note wf = bal_alloc_wf [OF assms(1) a] and ok = bal_alloc_ok [OF a]
  show "wf_rt s1" unfolding s1 using wf by (intro store_wf)
  show "heap_addr p" "heap s p = None" using wf by simp_all
  show "heap s1 = (heap s)(p \<mapsto> x)" "img s1 = img s" "junk s1 = junk s" "pool s = p # pool s1"
    using ok by (simp_all add: s1)
qed

lemma alloc_obj_fault: "alloc_obj n x s = Inl e \<Longrightarrow> e = OutOfMemory"
  by (auto simp: alloc_obj_def bindR_eq_Inl dest: bal_alloc_fault)

lemma alloc_obj_succeeds: "pool s = p # ps \<Longrightarrow> p \<noteq> 0 \<Longrightarrow> alloc_obj n x s = Inr (p, store p x (s\<lparr>pool := ps\<rparr>))"
  by (simp add: alloc_obj_def bal_alloc_def)

section \<open>Integers, booleans and floats as tagged pointers\<close>

definition intToTagged :: "int \<Rightarrow> rt \<Rightarrow> fault + tagged \<times> rt" where
  "intToTagged n s =
     (if n \<ge> IMMEDIATE_INT_MIN \<and> n \<le> IMMEDIATE_INT_MAX
      then Inr (IMMEDIATE_INT_TRUNCATE n OR IMMEDIATE_FLAG OR shifted_tag TAG_INT, s)
      else bindR (alloc_obj 8 (ObjInt n) s) (\<lambda>(p, s1).
        Inr (ptrAddShiftedTag p (shifted_tag TAG_INT), s1)))"

definition taggedToInt :: "tagged \<Rightarrow> rt \<Rightarrow> fault + int" where
  "taggedToInt p s =
     (if p AND IMMEDIATE_FLAG \<noteq> 0
      then Inr (sint (signed_drop_bit 8 (push_bit 8 (p AND POINTER_MASK))))
      else (case heap s (taggedToPtr p) of Some (ObjInt n) \<Rightarrow> Inr n | _ \<Rightarrow> Inl BadPointer))"

definition floatToTagged :: "u64 \<Rightarrow> rt \<Rightarrow> fault + tagged \<times> rt" where
  "floatToTagged d s =
     bindR (alloc_obj 8 (ObjFloat d) s) (\<lambda>(p, s1).
       Inr (ptrAddShiftedTag p (shifted_tag TAG_FLOAT), s1))"

definition taggedToFloat :: "tagged \<Rightarrow> rt \<Rightarrow> fault + u64" where
  "taggedToFloat p s =
     (case heap s (taggedToPtr p) of Some (ObjFloat d) \<Rightarrow> Inr d | _ \<Rightarrow> Inl BadPointer)"

lemma intToTagged_fault: "intToTagged n s = Inl e \<Longrightarrow> e = OutOfMemory"
  by (auto simp: intToTagged_def bindR_eq_Inl dest: alloc_obj_fault split: if_splits)

lemma immediate_int_roundtrip:
  assumes "IMMEDIATE_INT_MIN \<le> n" "n \<le> IMMEDIATE_INT_MAX"
  shows "sint (signed_drop_bit 8 (push_bit 8
           ((IMMEDIATE_INT_TRUNCATE n OR IMMEDIATE_FLAG OR shifted_tag TAG_INT) AND POINTER_MASK))) = n"
proof -
  let ?w = "(IMMEDIATE_INT_TRUNCATE n OR IMMEDIATE_FLAG OR shifted_tag TAG_INT) AND POINTER_MASK"
  have trunc: "IMMEDIATE_INT_TRUNCATE n = take_bit 56 (word_of_int n)"
    using POINTER_MASK_mask by (simp add: IMMEDIATE_INT_TRUNCATE_def POINTER_MASK_def take_bit_eq_mask)
  have w: "?w = take_bit 56 (word_of_int n)"
    by (rule bit_word_eqI) (auto simp: trunc bit_simps bit_shifted_tag)
  have n: "signed_take_bit 55 n = n"
    using assms by (intro signed_take_bit_int_eq_self) (simp_all add: IMMEDIATE_INT_MIN_def IMMEDIATE_INT_MAX_def)
  have s: "signed_drop_bit 8 (push_bit 8 (take_bit 56 (word_of_int n))) = (word_of_int (signed_take_bit 55 n) :: u64)"
  proof (rule bit_word_eqI)
    fix i assume i: "i < LENGTH(64)"
    then show "bit (signed_drop_bit 8 (push_bit 8 (take_bit 56 (word_of_int n :: u64)))) i =
               bit (word_of_int (signed_take_bit 55 n) :: u64) i"
      by (cases "i = 55") (auto simp: bit_simps min_def)
  qed
  have r: "- (2 ^ 63) \<le> n \<and> n < 2 ^ 63"
    using assms by (simp add: IMMEDIATE_INT_MIN_def IMMEDIATE_INT_MAX_def)
  have "sint (word_of_int n :: u64) = n"
    using r by (simp add: sint_sbintrunc' signed_take_bit_int_eq_self)
  then show ?thesis unfolding w s n .
qed

lemma immediate_int_flag: "is_immediate (IMMEDIATE_INT_TRUNCATE n OR IMMEDIATE_FLAG OR shifted_tag t)"
  by (simp add: is_immediate_bit bit_or_iff)

end
