(* ===== verification/Rt_Words.thy ===== *)
theory Rt_Words
  imports Rt_Prelude
begin

text \<open>
  Machine words as little-endian byte sequences, as the string and hash code of the runtime sees
  them (\<open>string.c\<close>: "Most of this assumes little-endian"): the bytes of a word, of a block of
  words, the compiler builtins \<open>bswap64\<close>, \<open>ctzl\<close> and \<open>clz\<close>, and the reference order on byte
  sequences.
\<close>

section \<open>Bytes of a word\<close>

definition word_byte :: "u64 \<Rightarrow> nat \<Rightarrow> byte" where
  "word_byte w i = ucast (drop_bit (8 * i) w)"

definition word_bytes :: "u64 \<Rightarrow> byte list" where
  "word_bytes w = map (word_byte w) [0..<8]"

fun bytes_word :: "byte list \<Rightarrow> u64" where
  "bytes_word [] = 0"
| "bytes_word (b # bs) = ucast b OR push_bit 8 (bytes_word bs)"

lemma length_word_bytes [simp]: "length (word_bytes w) = 8"
  by (simp add: word_bytes_def)

lemma nth_word_bytes [simp]: "i < 8 \<Longrightarrow> word_bytes w ! i = word_byte w i"
  by (simp add: word_bytes_def)

lemma bit_word_byte: "bit (word_byte w i) n \<longleftrightarrow> n < 8 \<and> bit w (8 * i + n)"
  by (auto simp: word_byte_def bit_simps)

lemma bit_byte_ge: "bit (b :: byte) n \<Longrightarrow> n < 8"
  using bit_imp_le_length [of b n] by simp

lemma bit_bytes_word:
  "bit (bytes_word bs) n \<longleftrightarrow> n < 64 \<and> n div 8 < length bs \<and> bit (bs ! (n div 8)) (n mod 8)"
proof (induction bs arbitrary: n)
  case Nil
  then show ?case by simp
next
  case (Cons b bs)
  show ?case
  proof (cases "n < 8")
    case True
    then show ?thesis by (auto simp: bit_simps)
  next
    case False
    then have d: "n div 8 = Suc ((n - 8) div 8)" "n mod 8 = (n - 8) mod 8"
      by (auto simp: le_div_geq le_mod_geq)
    from False have "\<not> bit b n" using bit_byte_ge by blast
    with False show ?thesis by (auto simp: bit_simps Cons.IH d)
  qed
qed

lemma word_bytes_word [simp]: "bytes_word (word_bytes w) = w"
proof (rule bit_word_eqI)
  fix n assume n: "n < LENGTH(64)"
  then have "n div 8 < 8" by auto
  moreover have "8 * (n div 8) + n mod 8 = n" by simp
  ultimately show "bit (bytes_word (word_bytes w)) n = bit w n"
    using n by (simp add: bit_bytes_word bit_word_byte)
qed

lemma bytes_word_bytes [simp]:
  assumes "length bs = 8"
  shows "word_bytes (bytes_word bs) = bs"
proof (rule nth_equalityI)
  show "length (word_bytes (bytes_word bs)) = length bs" using assms by simp
next
  fix i assume "i < length (word_bytes (bytes_word bs))"
  then have i: "i < 8" by simp
  have "word_byte (bytes_word bs) i = bs ! i"
  proof (rule bit_word_eqI)
    fix n assume "n < LENGTH(8)"
    then have n: "n < 8" by simp
    have "8 * i + n < 64" using i n by simp
    moreover have "(8 * i + n) div 8 = i" "(8 * i + n) mod 8 = n" using n by simp_all
    ultimately show "bit (word_byte (bytes_word bs) i) n = bit (bs ! i) n"
      using n i assms by (simp add: bit_word_byte bit_bytes_word)
  qed
  with i show "word_bytes (bytes_word bs) ! i = bs ! i" by simp
qed

lemma word_bytes_inj: "word_bytes v = word_bytes w \<longleftrightarrow> v = w"
  by (metis word_bytes_word)

lemma bytes_word_inj:
  "length as = 8 \<Longrightarrow> length bs = 8 \<Longrightarrow> bytes_word as = bytes_word bs \<longleftrightarrow> as = bs"
  by (metis bytes_word_bytes)

section \<open>Blocks of words as blocks of bytes\<close>

definition mem_bytes :: "u64 list \<Rightarrow> byte list" where
  "mem_bytes ws = concat (map word_bytes ws)"

fun bytes_mem :: "byte list \<Rightarrow> u64 list" where
  "bytes_mem [] = []"
| "bytes_mem (b # bs) = bytes_word (take 8 (b # bs)) # bytes_mem (drop 8 (b # bs))"

declare bytes_mem.simps(2) [simp del]

lemma mem_bytes_simps [simp]:
  "mem_bytes [] = []" "mem_bytes (w # ws) = word_bytes w @ mem_bytes ws"
  "mem_bytes (vs @ ws) = mem_bytes vs @ mem_bytes ws"
  by (simp_all add: mem_bytes_def)

lemma length_mem_bytes [simp]: "length (mem_bytes ws) = 8 * length ws"
  by (induction ws) simp_all

lemma bytes_mem_append:
  assumes "length as = 8"
  shows "bytes_mem (as @ bs) = bytes_word as # bytes_mem bs"
proof -
  obtain x xs where "as = x # xs" using assms by (cases as) auto
  with assms show ?thesis by (simp add: bytes_mem.simps(2))
qed

lemma bytes_mem_bytes [simp]: "bytes_mem (mem_bytes ws) = ws"
  by (induction ws) (simp_all add: bytes_mem_append)

lemma mem_bytes_mem [simp]: "length bs = 8 * k \<Longrightarrow> mem_bytes (bytes_mem bs) = bs"
proof (induction k arbitrary: bs)
  case 0
  then show ?case by simp
next
  case (Suc k)
  have "bs = take 8 bs @ drop 8 bs" by simp
  moreover have "length (take 8 bs) = 8" "length (drop 8 bs) = 8 * k" using Suc.prems by simp_all
  ultimately show ?case
    using Suc.IH [of "drop 8 bs"] bytes_mem_append [of "take 8 bs" "drop 8 bs"] by simp
qed

lemma length_bytes_mem: "length bs = 8 * k \<Longrightarrow> length (bytes_mem bs) = k"
  using mem_bytes_mem [of bs k] length_mem_bytes [of "bytes_mem bs"] by simp

lemma nth_mem_word: "i < length ws \<Longrightarrow> word_bytes (ws ! i) = take 8 (drop (8 * i) (mem_bytes ws))"
proof (induction ws arbitrary: i)
  case Nil
  then show ?case by simp
next
  case (Cons w ws)
  then show ?case by (cases i) simp_all
qed

section \<open>Numbers in base 256\<close>

fun le_val :: "byte list \<Rightarrow> nat" where
  "le_val [] = 0"
| "le_val (b # bs) = unat b + 256 * le_val bs"

lemma le_val_append: "le_val (as @ bs) = le_val as + 256 ^ length as * le_val bs"
  by (induction as) (simp_all add: algebra_simps)

lemma unat_byte_less [simp]: "unat (b :: byte) < 256"
  using unsigned_less [of b] by simp

lemma le_val_less: "le_val bs < 256 ^ length bs"
proof (induction bs)
  case Nil
  then show ?case by simp
next
  case (Cons b bs)
  have "unat b + 256 * le_val bs \<le> 255 + 256 * (256 ^ length bs - 1)"
    using Cons.IH unat_byte_less [of b] by (intro add_mono mult_le_mono) linarith+
  also have "\<dots> < 256 ^ length (b # bs)" by (simp add: algebra_simps)
  finally show ?case by simp
qed

lemma bytes_word_of_nat: "bytes_word bs = word_of_nat (le_val bs)"
proof (induction bs)
  case Nil
  then show ?case by simp
next
  case (Cons b bs)
  have "(ucast b :: u64) AND push_bit 8 (bytes_word bs) = 0"
    by (rule bit_word_eqI) (auto simp: bit_simps dest: bit_byte_ge)
  then have "bytes_word (b # bs) = ucast b + push_bit 8 (bytes_word bs)"
    by (simp add: disjunctive_add_eq_or)
  also have "\<dots> = word_of_nat (unat b) + 256 * word_of_nat (le_val bs)"
    by (simp add: Cons.IH push_bit_eq_mult unsigned_ucast_eq)
  finally show ?case by simp
qed

lemma unat_bytes_word:
  assumes "length bs \<le> 8"
  shows "unat (bytes_word bs) = le_val bs"
proof -
  have "le_val bs < 256 ^ 8"
    using le_val_less [of bs] assms power_increasing [of "length bs" 8 "256 :: nat"] by linarith
  then show ?thesis by (simp add: bytes_word_of_nat unat_of_nat)
qed

section \<open>Comparing byte sequences\<close>

text \<open>The order on byte sequences that \<open>memcmp\<close> and the string comparison implement.\<close>

fun lex_cmp :: "byte list \<Rightarrow> byte list \<Rightarrow> int" where
  "lex_cmp [] [] = 0"
| "lex_cmp [] (_ # _) = - 1"
| "lex_cmp (_ # _) [] = 1"
| "lex_cmp (a # as) (b # bs) = (if a < b then - 1 else if b < a then 1 else lex_cmp as bs)"

lemma lex_cmp_refl [simp]: "lex_cmp as as = 0"
  by (induction as) simp_all

lemma lex_cmp_0_iff: "lex_cmp as bs = 0 \<longleftrightarrow> as = bs"
  by (induction as bs rule: lex_cmp.induct) auto

lemma lex_cmp_antisym: "lex_cmp as bs = - lex_cmp bs as"
  by (induction as bs rule: lex_cmp.induct) auto

lemma lex_cmp_append:
  "length as = length bs \<Longrightarrow>
     lex_cmp (as @ as') (bs @ bs') = (if as = bs then lex_cmp as' bs' else lex_cmp as bs)"
  by (induction as bs rule: list_induct2) (auto simp: lex_cmp_0_iff)

lemma lex_cmp_same_prefix [simp]: "lex_cmp (cs @ as) (cs @ bs) = lex_cmp as bs"
  by (simp add: lex_cmp_append)

text \<open>For sequences of equal length the order is that of the big-endian numbers.\<close>

lemma lex_cmp_rev_le_val:
  "length as = length bs \<Longrightarrow> lex_cmp as bs = - 1 \<longleftrightarrow> le_val (rev as) < le_val (rev bs)"
proof (induction as bs rule: list_induct2)
  case Nil
  then show ?case by simp
next
  case (Cons a as b bs)
  let ?k = "256 ^ length as :: nat"
  have l: "le_val (rev as) < ?k" "le_val (rev bs) < ?k"
    using le_val_less [of "rev as"] le_val_less [of "rev bs"] Cons.hyps by simp_all
  consider "a < b" | "b < a" | "a = b" by fastforce
  then show ?case
  proof cases
    case 1
    then have "unat a + 1 \<le> unat b" by (simp add: word_less_nat_alt)
    then have "?k * (unat a + 1) \<le> ?k * unat b" by (rule mult_le_mono2)
    with 1 l show ?thesis using Cons.hyps by (simp add: le_val_append)
  next
    case 2
    then have "unat b + 1 \<le> unat a" by (simp add: word_less_nat_alt)
    then have "?k * (unat b + 1) \<le> ?k * unat a" by (rule mult_le_mono2)
    with 2 l show ?thesis using Cons.hyps by (simp add: le_val_append)
  next
    case 3
    with Cons show ?thesis by (simp add: le_val_append)
  qed
qed

lemma lex_cmp_cases: "lex_cmp as bs = - 1 \<or> lex_cmp as bs = 0 \<or> lex_cmp as bs = 1"
  by (induction as bs rule: lex_cmp.induct) auto

section \<open>Compiler builtins\<close>

definition bswap :: "u64 \<Rightarrow> u64" where
  "bswap w = bytes_word (rev (word_bytes w))"

lemma bswap_less: "bswap v < bswap w \<longleftrightarrow> lex_cmp (word_bytes v) (word_bytes w) = - 1"
  by (simp add: bswap_def word_less_nat_alt unat_bytes_word lex_cmp_rev_le_val)

text \<open>Trailing and leading zero bits, for an argument that is not zero.\<close>

definition ctz :: "'a :: len word \<Rightarrow> nat" where
  "ctz w = length (takeWhile (\<lambda>i. \<not> bit w i) [0..<LENGTH('a)])"

definition clz :: "'a :: len word \<Rightarrow> nat" where
  "clz w = length (takeWhile (\<lambda>i. \<not> bit w (LENGTH('a) - 1 - i)) [0..<LENGTH('a)])"

lemma length_takeWhile_upt:
  assumes "k < n" "P k" "\<And>i. i < k \<Longrightarrow> \<not> P i"
  shows "length (takeWhile (\<lambda>i. \<not> P i) [0..<n]) = k"
proof -
  have "[0..<n] = [0..<k] @ k # [Suc k..<n]"
    using assms(1) upt_add_eq_append [of 0 k "n - k"] upt_conv_Cons [of k n] by simp
  then show ?thesis using assms(2,3) by (simp add: takeWhile_append)
qed

lemma ctz_eqI: "bit w k \<Longrightarrow> (\<And>i. i < k \<Longrightarrow> \<not> bit w i) \<Longrightarrow> ctz w = k"
  unfolding ctz_def by (rule length_takeWhile_upt) (auto dest: bit_imp_le_length)

lemma clz_eqI:
  fixes w :: "'a :: len word"
  assumes "bit w k" "\<And>i. k < i \<Longrightarrow> \<not> bit w i"
  shows "clz w = LENGTH('a) - 1 - k"
proof -
  have "k < LENGTH('a)" using assms(1) by (rule bit_imp_le_length)
  then show ?thesis unfolding clz_def
    using assms by (intro length_takeWhile_upt) auto
qed

lemma ex_lowest_bit:
  assumes "(w :: 'a :: len word) \<noteq> 0"
  obtains k where "bit w k" "\<And>i. i < k \<Longrightarrow> \<not> bit w i"
proof -
  have "\<exists>n. bit w n" using assms by (metis bit_word_eqI bit_0_eq bot_apply bot_bool_def)
  then have "bit w (LEAST n. bit w n)" by (rule LeastI_ex)
  then show thesis using that not_less_Least by blast
qed

end
