(* ===== verification/Rt_Strings.thy ===== *)
theory Rt_Strings
  imports Rt_Objects Rt_Words
begin

text \<open>
  Strings: \<open>string.c\<close>, \<open>string_inline.c\<close>, \<open>hash.h\<close> and the string helpers of \<open>balrt.h\<close>. A string is
  one of three representations: immediate (the UTF-8 bytes are in the tagged pointer, padded with
  0xFF), medium (a 4-byte header, then the bytes) and large (a 16-byte header, then the bytes);
  heap strings are padded with zero bytes to a multiple of 8. This theory holds the operations;
  their correctness is in \<open>Rt_String_Props\<close>.
\<close>

section \<open>Sizes (balrt.h)\<close>

definition roundUpInt :: "int \<Rightarrow> int" where
  "roundUpInt n = (n + 7) AND NOT 7"

definition mediumStringSize :: "int \<Rightarrow> int" where
  "mediumStringSize lengthInBytes = roundUpInt (lengthInBytes + 4)"

definition roundUpUint64 :: "u64 \<Rightarrow> u64" where
  "roundUpUint64 n = (n + 7) AND NOT 7"

definition largeStringSize :: "int \<Rightarrow> u64" where
  "largeStringSize lengthInBytes = roundUpUint64 (word_of_int lengthInBytes + 16)"

record string_length =
  nBytes :: int
  nCodePoints :: int

section \<open>Access to the memory of a string\<close>

definition heap_words :: "u64 \<Rightarrow> rt \<Rightarrow> fault + u64 list" where
  "heap_words p s = (case heap s p of Some (ObjString ws) \<Rightarrow> Inr ws | _ \<Rightarrow> Inl BadPointer)"

definition word_at :: "u64 list \<Rightarrow> nat \<Rightarrow> fault + u64" where
  "word_at ws i = (if i < length ws then Inr (ws ! i) else Inl OutOfBounds)"

definition bytes_at :: "byte list \<Rightarrow> int \<Rightarrow> fault + byte list" where
  "bytes_at bs n = (if 0 \<le> n \<and> n \<le> int (length bs) then Inr (take (nat n) bs) else Inl OutOfBounds)"

definition splice :: "nat \<Rightarrow> byte list \<Rightarrow> byte list \<Rightarrow> fault + byte list" where
  "splice off bs mem =
     (if off + length bs \<le> length mem
      then Inr (take off mem @ bs @ drop (off + length bs) mem) else Inl OutOfBounds)"

section \<open>Length (balrt.h)\<close>

definition immediateStringLength :: "u64 \<Rightarrow> string_length" where
  "immediateStringLength bits =
     (let loByte = bits AND 0xFF
      in if loByte = 0xFF then \<lparr>nBytes = 0, nCodePoints = 0\<rparr>
         else if loByte AND 0x80 \<noteq> 0
         then \<lparr>nBytes = int (clz (ucast (NOT (ucast loByte :: byte)) :: u32)) - (4 - 1) * 8, nCodePoints = 1\<rparr>
         else (let bits' = NOT bits AND (push_bit 56 1 - 1);
                   n = 8 - int (clz bits' div 8)
               in \<lparr>nBytes = n, nCodePoints = n\<rparr>))"

definition mediumLengthInBytes :: "u64 \<Rightarrow> int" where
  "mediumLengthInBytes h = uint (h AND 0xFFFF)"

definition mediumLengthInCodePoints :: "u64 \<Rightarrow> int" where
  "mediumLengthInCodePoints h = uint (drop_bit 16 h AND 0xFFFF)"

definition taggedStringLength :: "tagged \<Rightarrow> rt \<Rightarrow> fault + string_length" where
  "taggedStringLength p s =
     (if p AND IMMEDIATE_FLAG \<noteq> 0 then Inr (immediateStringLength p)
      else if p AND STRING_LARGE_FLAG = 0
      then bindR (heap_words (taggedToPtr p) s) (\<lambda>ws.
             bindR (word_at ws 0) (\<lambda>h.
               Inr \<lparr>nBytes = mediumLengthInBytes h, nCodePoints = mediumLengthInCodePoints h\<rparr>))
      else bindR (heap_words (taggedToPtr p) s) (\<lambda>ws.
             bindR (word_at ws 0) (\<lambda>n. bindR (word_at ws 1) (\<lambda>c.
               Inr \<lparr>nBytes = sint n, nCodePoints = sint c\<rparr>))))"

definition taggedStringIsChar :: "tagged \<Rightarrow> bool" where
  "taggedStringIsChar p =
     (if p AND IMMEDIATE_FLAG \<noteq> 0
      then (let loByte = p AND 0xFF
            in if loByte AND 0x80 \<noteq> 0 then loByte \<noteq> 0xFF
               else p OR (NOT POINTER_MASK OR 0xFF) = - 1)
      else False)"

text \<open>The memory that \<open>taggedStringBytes(&p)\<close> points to, up to the end of the object.\<close>

definition taggedStringBytes :: "tagged \<Rightarrow> rt \<Rightarrow> fault + byte list" where
  "taggedStringBytes p s =
     (if p AND IMMEDIATE_FLAG \<noteq> 0 then Inr (word_bytes p)
      else if p AND STRING_LARGE_FLAG = 0
      then bindR (heap_words (taggedToPtr p) s) (\<lambda>ws. Inr (drop 4 (mem_bytes ws)))
      else bindR (heap_words (taggedToPtr p) s) (\<lambda>ws. Inr (drop 16 (mem_bytes ws))))"

definition bal_lang_string_length :: "tagged \<Rightarrow> rt \<Rightarrow> fault + int" where
  "bal_lang_string_length p s = bindR (taggedStringLength p s) (\<lambda>len. Inr (nCodePoints len))"

section \<open>Allocation and concatenation (string.c)\<close>

text \<open>A fresh block of words, its last word cleared.\<close>

definition fresh_words :: "nat \<Rightarrow> rt \<Rightarrow> u64 list" where
  "fresh_words nInts s = (map (junk s) [0..<nInts])[nInts - 1 := 0]"

definition bal_string_alloc :: "int \<Rightarrow> int \<Rightarrow> rt \<Rightarrow> fault + tagged \<times> rt" where
  "bal_string_alloc lengthInBytes lengthInCodePoints s =
     (if lengthInCodePoints = 1 \<or> (lengthInCodePoints = lengthInBytes \<and> lengthInBytes \<le> 0x7)
      then Inr (IMMEDIATE_FLAG OR shifted_tag TAG_STRING OR (push_bit (7 * 8) 1 - 1), s)
      else if lengthInBytes \<le> 0xFFFF
      then (let size = mediumStringSize lengthInBytes;
                ws = fresh_words (nat (size div 8)) s;
                h = (ws ! 0 AND NOT 0xFFFFFFFF) OR
                    (word_of_int lengthInBytes AND 0xFFFF) OR
                    push_bit 16 (word_of_int lengthInCodePoints AND 0xFFFF)
            in bindR (alloc_obj size (ObjString (ws[0 := h])) s) (\<lambda>(p, s1).
                 Inr (ptrAddFlags p (shifted_tag TAG_STRING), s1)))
      else if lengthInBytes > INT64_MAX
      then Inl (Panicked 7)
      else (let size = largeStringSize lengthInBytes;
                ws = fresh_words (nat (uint size div 8)) s
            in bindR (alloc_obj (uint size)
                        (ObjString (ws[0 := word_of_int lengthInBytes, 1 := word_of_int lengthInCodePoints])) s)
                 (\<lambda>(p, s1). Inr (ptrAddFlags p (shifted_tag TAG_STRING OR STRING_LARGE_FLAG), s1))))"

text \<open>
  \<open>memcpy(bytes + off, src, n)\<close> where \<open>bytes\<close> was returned by \<open>_bal_string_alloc(..., &tp)\<close>: for an
  immediate string the destination is the variable that holds the tagged pointer itself.
\<close>

definition string_memcpy :: "nat \<Rightarrow> byte list \<Rightarrow> tagged \<Rightarrow> rt \<Rightarrow> fault + tagged \<times> rt" where
  "string_memcpy off src tp s =
     (if tp AND IMMEDIATE_FLAG \<noteq> 0
      then bindR (splice off src (word_bytes tp)) (\<lambda>bs. Inr (bytes_word bs, s))
      else (let p = taggedToPtr tp; hdr = (if tp AND STRING_LARGE_FLAG = 0 then 4 else 16)
            in bindR (heap_words p s) (\<lambda>ws.
               bindR (splice (hdr + off) src (mem_bytes ws)) (\<lambda>bs.
               Inr (tp, store p (ObjString (bytes_mem bs)) s)))))"

definition bal_string_concat :: "tagged \<Rightarrow> tagged \<Rightarrow> rt \<Rightarrow> fault + tagged \<times> rt" where
  "bal_string_concat tp1 tp2 s =
     bindR (taggedStringLength tp1 s) (\<lambda>len1.
     bindR (taggedStringLength tp2 s) (\<lambda>len2.
     let nB = (cast_u64 (nBytes len1) + cast_u64 (nBytes len2)) mod 2 ^ 64;
         nC = (cast_u64 (nCodePoints len1) + cast_u64 (nCodePoints len2)) mod 2 ^ 64
     in bindR (bal_string_alloc nB nC s) (\<lambda>(result, s1).
        bindR (bindR (taggedStringBytes tp1 s1) (\<lambda>b. bytes_at b (nBytes len1))) (\<lambda>b1.
        bindR (string_memcpy 0 b1 result s1) (\<lambda>(result2, s2).
        bindR (bindR (taggedStringBytes tp2 s2) (\<lambda>b. bytes_at b (nBytes len2))) (\<lambda>b2.
        string_memcpy (nat (nBytes len1)) b2 result2 s2))))))"

section \<open>Equality (balrt.h, string.c)\<close>

text \<open>The loop \<open>while (--nInts > 0) if (*++p1 != *++p2) return false\<close> after the header.\<close>

fun words_eq :: "u64 list \<Rightarrow> u64 list \<Rightarrow> nat \<Rightarrow> fault + bool" where
  "words_eq p1 p2 0 = Inr True"
| "words_eq (b1 # p1) (b2 # p2) (Suc n) = (if b1 \<noteq> b2 then Inr False else words_eq p1 p2 n)"
| "words_eq _ _ (Suc n) = Inl OutOfBounds"

definition bal_string_heap_eq :: "tagged \<Rightarrow> tagged \<Rightarrow> rt \<Rightarrow> fault + bool" where
  "bal_string_heap_eq tp1 tp2 s =
     bindR (heap_words (taggedToPtr tp1) s) (\<lambda>ws1.
     bindR (heap_words (taggedToPtr tp2) s) (\<lambda>ws2.
     bindR (word_at ws1 0) (\<lambda>h1.
     bindR (word_at ws2 0) (\<lambda>h2.
       if h1 \<noteq> h2 then Inr False
       else let large1 = tp1 AND STRING_LARGE_FLAG \<noteq> 0; large2 = tp2 AND STRING_LARGE_FLAG \<noteq> 0
            in if large1 \<noteq> large2 then Inr False
               else (let nInts = (if large1 then nat (uint (largeStringSize (sint h1)) div 8)
                                  else nat (mediumStringSize (mediumLengthInBytes h1) div 8))
                     in words_eq (drop 1 ws1) (drop 1 ws2) (nInts - 1))))))"

definition taggedStringEqual :: "tagged \<Rightarrow> tagged \<Rightarrow> rt \<Rightarrow> fault + bool" where
  "taggedStringEqual tp1 tp2 s =
     (if tp1 = tp2 then Inr True
      else if tp1 AND IMMEDIATE_FLAG \<noteq> 0 then Inr False
      else if tp2 AND IMMEDIATE_FLAG \<noteq> 0 then Inr False
      else bal_string_heap_eq tp1 tp2 s)"

section \<open>Comparison (string.c)\<close>

definition stringCmpImmediate :: "u64 \<Rightarrow> u64 \<Rightarrow> int" where
  "stringCmpImmediate bits1 bits2 =
     (let shift = nat (int (ctz (bits1 XOR bits2)) AND NOT 7);
          byte1 = drop_bit shift bits1 AND 0xFF;
          byte2 = drop_bit shift bits2 AND 0xFF
      in if byte1 < byte2 then (if byte2 = 0xFF then 1 else - 1)
         else (if byte1 = 0xFF then - 1 else 1))"

fun memcmp8 :: "u64 list \<Rightarrow> u64 list \<Rightarrow> nat \<Rightarrow> fault + int" where
  "memcmp8 p1 p2 0 = Inr 0"
| "memcmp8 (b1 # p1) (b2 # p2) (Suc n) =
     (if b1 \<noteq> b2 then Inr (if bswap b1 < bswap b2 then - 1 else 1) else memcmp8 p1 p2 n)"
| "memcmp8 _ _ (Suc n) = Inl OutOfBounds"

definition stringCmpMedium :: "u64 list \<Rightarrow> u64 list \<Rightarrow> fault + int" where
  "stringCmpMedium s1 s2 =
     bindR (word_at s1 0) (\<lambda>h1.
     bindR (word_at s2 0) (\<lambda>h2.
     let len1 = uint (h1 AND 0xFFFF);
         len2 = uint (h2 AND 0xFFFF);
         b1 = uint (bswap h1 AND (push_bit 32 1 - 1));
         b2 = uint (bswap h2 AND (push_bit 32 1 - 1));
         d = b1 - b2
     in if d \<noteq> 0 then Inr d
        else (let minLen = (if len1 \<le> len2 then len1 else len2);
                  nInts = mediumStringSize minLen div 8
              in bindR (memcmp8 (drop 1 s1) (drop 1 s2) (nat (nInts - 1))) (\<lambda>result.
                 if result \<noteq> 0 then Inr result else Inr (len1 - len2)))))"

definition stringCmpLarge :: "u64 list \<Rightarrow> u64 list \<Rightarrow> fault + int" where
  "stringCmpLarge s1 s2 =
     bindR (word_at s1 0) (\<lambda>w1.
     bindR (word_at s2 0) (\<lambda>w2.
     let len1 = sint w1; len2 = sint w2;
         minLen = (if len1 \<le> len2 then len1 else len2);
         nInts = uint (largeStringSize minLen) div 8
     in bindR (memcmp8 (drop 2 s1) (drop 2 s2) (nat (nInts - 2))) (\<lambda>result.
        if result \<noteq> 0 then Inr result else Inr (len1 - len2))))"

definition stringCmpGeneric :: "tagged \<Rightarrow> tagged \<Rightarrow> rt \<Rightarrow> fault + int" where
  "stringCmpGeneric tp1 tp2 s =
     bindR (taggedStringLength tp1 s) (\<lambda>len1.
     bindR (taggedStringLength tp2 s) (\<lambda>len2.
     let n = (if nBytes len1 \<le> nBytes len2 then nBytes len1 else nBytes len2)
     in bindR (bindR (taggedStringBytes tp1 s) (\<lambda>b. bytes_at b n)) (\<lambda>b1.
        bindR (bindR (taggedStringBytes tp2 s) (\<lambda>b. bytes_at b n)) (\<lambda>b2.
        let result = lex_cmp b1 b2
        in if result \<noteq> 0 then Inr result else Inr (nBytes len1 - nBytes len2)))))"

definition bal_string_cmp :: "tagged \<Rightarrow> tagged \<Rightarrow> rt \<Rightarrow> fault + int" where
  "bal_string_cmp tp1 tp2 s =
     (if tp1 = tp2 then Inr 0
      else if tp1 AND tp2 AND IMMEDIATE_FLAG \<noteq> 0 then Inr (stringCmpImmediate tp1 tp2)
      else if (tp1 XOR tp2) AND (IMMEDIATE_FLAG OR STRING_LARGE_FLAG) \<noteq> 0 then stringCmpGeneric tp1 tp2 s
      else bindR (heap_words (taggedToPtr tp1) s) (\<lambda>p1.
           bindR (heap_words (taggedToPtr tp2) s) (\<lambda>p2.
             if tp1 AND STRING_LARGE_FLAG = 0 then stringCmpMedium p1 p2 else stringCmpLarge p1 p2)))"

section \<open>Hashing (hash.h, string.c)\<close>

definition KNUTH_MULTIPLIER :: u64 where "KNUTH_MULTIPLIER = 6364136223846793005"

definition hashInit :: "rt \<Rightarrow> u64" where
  "hashInit s = fst (hashKey (img s))"

definition hashFoldedMultiply :: "u64 \<Rightarrow> u64 \<Rightarrow> u64" where
  "hashFoldedMultiply x y =
     (let xy = (ucast x :: 128 word) * ucast y in ucast xy XOR ucast (drop_bit 64 xy))"

definition hashUpdate :: "u64 \<Rightarrow> u64 \<Rightarrow> u64" where
  "hashUpdate h data = hashFoldedMultiply (data XOR h) KNUTH_MULTIPLIER"

definition hashUpdatePartial :: "u64 \<Rightarrow> u64 \<Rightarrow> int \<Rightarrow> u64" where
  "hashUpdatePartial h data n = hashUpdate h data"

definition hashRotateLeft :: "u64 \<Rightarrow> nat \<Rightarrow> u64" where
  "hashRotateLeft bits n = push_bit n bits OR drop_bit (64 - n) bits"

definition hashFinish :: "u64 \<Rightarrow> rt \<Rightarrow> u64" where
  "hashFinish h s =
     (let n = unat (h AND 63)
      in hashRotateLeft (hashFoldedMultiply h (snd (hashKey (img s)))) n)"

definition immediateStringHash :: "u64 \<Rightarrow> u64 \<Rightarrow> u64" where
  "immediateStringHash h bits =
     (let n = nBytes (immediateStringLength bits)
      in hashUpdatePartial h (bits AND (push_bit (8 * nat n) 1 - 1)) n)"

text \<open>The loop \<open>for (i = a; i < b; i++) hashUpdate(hp, ip[i])\<close>.\<close>

definition hashWords :: "u64 \<Rightarrow> u64 list \<Rightarrow> nat \<Rightarrow> nat \<Rightarrow> fault + u64" where
  "hashWords h ws a b =
     (if b \<le> length ws \<or> b \<le> a then Inr (foldl hashUpdate h (take (b - a) (drop a ws))) else Inl OutOfBounds)"

definition mediumStringHash :: "u64 \<Rightarrow> u64 list \<Rightarrow> fault + u64" where
  "mediumStringHash h ip =
     bindR (word_at ip 0) (\<lambda>start0.
     let len = uint (start0 AND 0xFFFF);
         start = drop_bit 32 start0
     in if len \<le> 4 then Inr (if len \<noteq> 0 then hashUpdatePartial h start len else h)
        else
        let nB = mediumStringSize len;
            nInts = nB div 8;
            nPad = nB - (len + 4);
            nCompleteInts = (if nPad \<noteq> 0 then nInts - 1 else nInts)
        in bindR (hashWords h ip 1 (nat nCompleteInts)) (\<lambda>h1.
           if nPad = 0 then Inr (hashUpdatePartial h1 start 4)
           else bindR (word_at ip (nat nCompleteInts)) (\<lambda>last0.
             let shift = nat (8 * (8 - nPad));
                 last = last0 OR push_bit shift start
             in if nPad > 4 then Inr (hashUpdatePartial h1 last (12 - nPad))
                else let h2 = hashUpdate h1 last
                     in if nPad = 4 then Inr h2
                        else Inr (hashUpdatePartial h2 (drop_bit (64 - shift) start) (4 - nPad)))))"

definition largeStringHash :: "u64 \<Rightarrow> u64 list \<Rightarrow> fault + u64" where
  "largeStringHash h ip =
     bindR (word_at ip 0) (\<lambda>w.
     let len = sint w;
         nB = uint (largeStringSize len);
         nInts = nB div 8;
         nPad = nB - (len + 16);
         nCompleteInts = (if nPad \<noteq> 0 then nInts - 1 else nInts)
     in bindR (hashWords h ip 2 (nat nCompleteInts)) (\<lambda>h1.
        if nPad \<noteq> 0
        then bindR (word_at ip (nat nCompleteInts)) (\<lambda>x. Inr (hashUpdatePartial h1 x nPad))
        else Inr h1))"

definition bal_string_hash :: "tagged \<Rightarrow> rt \<Rightarrow> fault + u64" where
  "bal_string_hash tp s =
     (let h0 = hashInit s
      in bindR (if tp AND IMMEDIATE_FLAG \<noteq> 0 then Inr (immediateStringHash h0 tp)
                else bindR (heap_words (taggedToPtr tp) s) (\<lambda>ws.
                       if tp AND STRING_LARGE_FLAG = 0 then mediumStringHash h0 ws else largeStringHash h0 ws))
           (\<lambda>h. Inr (hashFinish h s)))"

section \<open>String subtypes (string.c)\<close>

text \<open>The binary search of \<open>stringListContains\<close> between two indices of the sorted table.\<close>

function stringListContains :: "tagged list \<Rightarrow> nat \<Rightarrow> nat \<Rightarrow> tagged \<Rightarrow> rt \<Rightarrow> fault + bool" where
  "stringListContains strs start end str s =
     (if start < end
      then (let mid = start + (end - start) div 2
            in bindR (if mid < length strs then Inr (strs ! mid) else Inl OutOfBounds) (\<lambda>m.
               bindR (bal_string_cmp str m s) (\<lambda>cmp.
               if cmp = 0 then Inr True
               else if cmp < 0 then stringListContains strs start mid str s
               else stringListContains strs (mid + 1) end str s)))
      else Inr False)"
  by pat_completeness auto
termination
  by (relation "measure (\<lambda>(strs, start, end, str, s). end - start)") auto

declare stringListContains.simps [simp del]

definition bal_string_subtype_contains ::
  "bool \<Rightarrow> bool \<Rightarrow> tagged list \<Rightarrow> tagged \<Rightarrow> rt \<Rightarrow> fault + bool" where
  "bal_string_subtype_contains isCharInStrsIncluded isNonCharInStrsIncluded strs str s =
     bindR (stringListContains strs 0 (length strs) str s) (\<lambda>inStrs.
       Inr (inStrs = (if taggedStringIsChar str then isCharInStrsIncluded else isNonCharInStrsIncluded)))"

end
