(* ===== verification/Rt_Search.thy ===== *)
theory Rt_Search
  imports Rt_Prelude
begin

text \<open>
  The contract of the binary searches of the runtime. \<open>tidListContains\<close>, \<open>stringListContains\<close>,
  \<open>floatListContains\<close> and \<open>decimalListContains\<close> are four copies of one loop ("approximately the same
  code as tidListContains"); the locale states what the copies share, the theorem that the loop
  decides membership in a sorted table is proved once here, and each copy is an interpretation in
  the theory of its component.
\<close>

text \<open>
  \<open>search xs start end k\<close> is the loop between two indices of the table; \<open>cmp k x\<close> is how it compares
  the key with an entry (negative, zero or positive) and \<open>valid k x\<close> says that this comparison does
  not fault.
\<close>

locale binary_search =
  fixes search :: "'a list \<Rightarrow> nat \<Rightarrow> nat \<Rightarrow> 'k \<Rightarrow> fault + bool"
    and cmp :: "'k \<Rightarrow> 'a \<Rightarrow> int"
    and valid :: "'k \<Rightarrow> 'a \<Rightarrow> bool"
  assumes search_empty: "\<not> i < j \<Longrightarrow> search xs i j k = Inr False"
    and search_step: "i < j \<Longrightarrow> j \<le> length xs \<Longrightarrow> m = i + (j - i) div 2 \<Longrightarrow> valid k (xs ! m) \<Longrightarrow>
      search xs i j k =
        (if cmp k (xs ! m) = 0 then Inr True
         else if cmp k (xs ! m) < 0 then search xs i m k
         else search xs (m + 1) j k)"
begin

text \<open>
  The table is sorted for the key: once an entry is not smaller than the key, all later entries
  are greater.
\<close>

definition sorted_for :: "'k \<Rightarrow> 'a list \<Rightarrow> bool" where
  "sorted_for k xs \<longleftrightarrow>
     (\<forall>x \<in> set xs. valid k x) \<and> (\<forall>i j. i < j \<longrightarrow> j < length xs \<longrightarrow> cmp k (xs ! i) \<le> 0 \<longrightarrow> cmp k (xs ! j) < 0)"

lemma search_range:
  assumes "sorted_for k xs" "i \<le> j" "j \<le> length xs"
  shows "search xs i j k = Inr (\<exists>n. i \<le> n \<and> n < j \<and> cmp k (xs ! n) = 0)"
  using assms(2,3)
proof (induction "j - i" arbitrary: i j rule: less_induct)
  case less
  show ?case
  proof (cases "i < j")
    case False
    then show ?thesis using search_empty by auto
  next
    case True
    define m where "m = i + (j - i) div 2"
    have m: "i \<le> m" "m < j" using True by (auto simp: m_def)
    have v: "valid k (xs ! m)" using assms(1) m less.prems by (simp add: sorted_for_def)
    have order: "a < b \<Longrightarrow> b < length xs \<Longrightarrow> cmp k (xs ! a) \<le> 0 \<Longrightarrow> cmp k (xs ! b) < 0" for a b
      using assms(1) unfolding sorted_for_def by blast
    have after: "cmp k (xs ! n) < 0" if "cmp k (xs ! m) \<le> 0" "m < n" "n < j" for n
      using order [of m n] that less.prems by simp
    have before: "0 < cmp k (xs ! n)" if "0 < cmp k (xs ! m)" "n < m" for n
      using order [of n m] that less.prems m by linarith
    have lower: "search xs i m k = Inr (\<exists>n. i \<le> n \<and> n < m \<and> cmp k (xs ! n) = 0)"
      using m less.prems by (intro less.hyps) auto
    have upper: "search xs (m + 1) j k = Inr (\<exists>n. m + 1 \<le> n \<and> n < j \<and> cmp k (xs ! n) = 0)"
      using m less.prems by (intro less.hyps) auto
    consider "cmp k (xs ! m) = 0" | "cmp k (xs ! m) < 0" | "0 < cmp k (xs ! m)" by linarith
    then show ?thesis
    proof cases
      case 1
      then show ?thesis using search_step [OF True less.prems(2) m_def v] m by auto
    next
      case 2
      have "n < m" if "n < j" "cmp k (xs ! n) = 0" for n
        using 2 that after [of n] by (cases n m rule: linorder_cases) auto
      then have "(\<exists>n. i \<le> n \<and> n < m \<and> cmp k (xs ! n) = 0) \<longleftrightarrow> (\<exists>n. i \<le> n \<and> n < j \<and> cmp k (xs ! n) = 0)"
        using m(2) by (auto intro: less_trans)
      then show ?thesis using 2 search_step [OF True less.prems(2) m_def v] lower by simp
    next
      case 3
      have "m + 1 \<le> n" if "cmp k (xs ! n) = 0" for n
        using 3 that before [of n] by (cases n m rule: linorder_cases) auto
      then have "(\<exists>n. m + 1 \<le> n \<and> n < j \<and> cmp k (xs ! n) = 0) \<longleftrightarrow> (\<exists>n. i \<le> n \<and> n < j \<and> cmp k (xs ! n) = 0)"
        using m(1) by (meson add_leD1 order_trans)
      then show ?thesis using 3 search_step [OF True less.prems(2) m_def v] upper by simp
    qed
  qed
qed

lemma search_decides:
  "sorted_for k xs \<Longrightarrow> search xs 0 (length xs) k = Inr (\<exists>x \<in> set xs. cmp k x = 0)"
proof -
  assume "sorted_for k xs"
  then have "search xs 0 (length xs) k = Inr (\<exists>n. n < length xs \<and> cmp k (xs ! n) = 0)"
    using search_range [of k xs 0 "length xs"] by simp
  also have "(\<exists>n. n < length xs \<and> cmp k (xs ! n) = 0) = (\<exists>x \<in> set xs. cmp k x = 0)"
    unfolding set_conv_nth by blast
  finally show ?thesis .
qed

end

end
