(* ===== verification/Rt_Types.thy ===== *)
theory Rt_Types
  imports Rt_Strings Rt_Search
begin

text \<open>
  Run-time types: how a value is tested for membership in a type. Models the type helpers of
  \<open>balrt.h\<close> (\<open>memberBitSet\<close> up to \<open>storePanicCode\<close>), the \<open>contains\<close> functions of \<open>boolean.c\<close>, \<open>int.c\<close>,
  \<open>float.c\<close>, \<open>decimal.c\<close>, \<open>structure.c\<close>, \<open>list.c\<close>, \<open>mapping.c\<close> and \<open>function.c\<close>, and
  \<open>type_inline.c\<close>. A double is its 64-bit pattern; its IEEE comparisons are written out.
\<close>

section \<open>Panic codes (panic.h)\<close>

definition PANIC_ARITHMETIC_OVERFLOW :: nat where "PANIC_ARITHMETIC_OVERFLOW = 1"
definition PANIC_DIVIDE_BY_ZERO :: nat where "PANIC_DIVIDE_BY_ZERO = 2"
definition PANIC_TYPE_CAST :: nat where "PANIC_TYPE_CAST = 3"
definition PANIC_STACK_OVERFLOW :: nat where "PANIC_STACK_OVERFLOW = 4"
definition PANIC_INDEX_OUT_OF_BOUNDS :: nat where "PANIC_INDEX_OUT_OF_BOUNDS = 5"
definition PANIC_LIST_TOO_LONG :: nat where "PANIC_LIST_TOO_LONG = 6"
definition PANIC_STRING_TOO_LONG :: nat where "PANIC_STRING_TOO_LONG = 7"
definition PANIC_LIST_STORE :: nat where "PANIC_LIST_STORE = 8"
definition PANIC_MAPPING_STORE :: nat where "PANIC_MAPPING_STORE = 9"
definition PANIC_NO_FILLER :: nat where "PANIC_NO_FILLER = 10"
definition PANIC_INTERNAL_ERROR :: nat where "PANIC_INTERNAL_ERROR = 11"
definition PANIC_INVALID_DECIMAL :: nat where "PANIC_INVALID_DECIMAL = 12"

lemmas panic_codes = PANIC_ARITHMETIC_OVERFLOW_def PANIC_DIVIDE_BY_ZERO_def PANIC_TYPE_CAST_def
  PANIC_STACK_OVERFLOW_def PANIC_INDEX_OUT_OF_BOUNDS_def PANIC_LIST_TOO_LONG_def PANIC_STRING_TOO_LONG_def
  PANIC_LIST_STORE_def PANIC_MAPPING_STORE_def PANIC_NO_FILLER_def PANIC_INTERNAL_ERROR_def
  PANIC_INVALID_DECIMAL_def

definition storePanicCode :: "tagged \<Rightarrow> nat \<Rightarrow> nat" where
  "storePanicCode p code = (if taggedToPtr p = taggedToPtrExact p then code else PANIC_INTERNAL_ERROR)"

lemma storePanicCode_eq: "storePanicCode p code = (if is_exact p then PANIC_INTERNAL_ERROR else code)"
  by (simp add: storePanicCode_def exact_ptr_eq)

lemma storePanicCode_nonzero: "code \<noteq> 0 \<Longrightarrow> storePanicCode p code \<noteq> 0"
  by (simp add: storePanicCode_eq PANIC_INTERNAL_ERROR_def)

section \<open>Doubles\<close>

definition dbl_isnan :: "u64 \<Rightarrow> bool" where
  "dbl_isnan d \<longleftrightarrow> 0x7FF0000000000000 < d AND 0x7FFFFFFFFFFFFFFF"

text \<open>Sign and magnitude as one number: on non-NaN doubles its order is the IEEE order.\<close>

definition dbl_key :: "u64 \<Rightarrow> int" where
  "dbl_key d = (if bit d 63 then - uint (d AND 0x7FFFFFFFFFFFFFFF) else uint (d AND 0x7FFFFFFFFFFFFFFF))"

definition dbl_eq :: "u64 \<Rightarrow> u64 \<Rightarrow> bool" where
  "dbl_eq a b \<longleftrightarrow> \<not> dbl_isnan a \<and> \<not> dbl_isnan b \<and> dbl_key a = dbl_key b"

definition dbl_lt :: "u64 \<Rightarrow> u64 \<Rightarrow> bool" where
  "dbl_lt a b \<longleftrightarrow> \<not> dbl_isnan a \<and> \<not> dbl_isnan b \<and> dbl_key a < dbl_key b"

section \<open>Bit sets of basic types\<close>

definition popcount :: "u32 \<Rightarrow> nat" where
  "popcount w = length (filter (bit w) [0..<32])"

definition complex_type_at :: "memberType \<Rightarrow> rt \<Rightarrow> fault + complex_type" where
  "complex_type_at m s = of_option BadPointer (complexTypes (img s) m)"

definition memberBitSet :: "memberType \<Rightarrow> rt \<Rightarrow> fault + u32" where
  "memberBitSet memberType s =
     (if memberType AND 1 \<noteq> 0 then Inr (ucast (drop_bit 1 memberType))
      else bindR (complex_type_at memberType s) (\<lambda>ctp. Inr (ct_all ctp OR ct_some ctp)))"

definition memberTypeIsSubtypeSimple :: "memberType \<Rightarrow> u32 \<Rightarrow> rt \<Rightarrow> fault + bool" where
  "memberTypeIsSubtypeSimple memberType bitSet s =
     bindR (memberBitSet memberType s) (\<lambda>b. Inr (ucast b AND NOT (ucast bitSet :: u64) = 0))"

definition memberTypeIsSupertypeSimple :: "memberType \<Rightarrow> u32 \<Rightarrow> rt \<Rightarrow> fault + bool" where
  "memberTypeIsSupertypeSimple memberType bitSet s =
     bindR (memberBitSet memberType s) (\<lambda>b. Inr (ucast bitSet AND NOT (ucast b :: u64) = 0))"

section \<open>Access to structures\<close>

definition list_at :: "tagged \<Rightarrow> rt \<Rightarrow> fault + list_obj" where
  "list_at p s = (case heap s (taggedToPtr p) of Some (ObjList lp) \<Rightarrow> Inr lp | _ \<Rightarrow> Inl BadPointer)"

definition list_desc_at :: "u64 \<Rightarrow> rt \<Rightarrow> fault + list_desc" where
  "list_desc_at d s = of_option BadPointer (listDescs (img s) d)"

definition mapping_at :: "tagged \<Rightarrow> rt \<Rightarrow> fault + mapping_obj" where
  "mapping_at p s = (case heap s (taggedToPtr p) of Some (ObjMapping mp) \<Rightarrow> Inr mp | _ \<Rightarrow> Inl BadPointer)"

definition mapping_desc_at :: "u64 \<Rightarrow> rt \<Rightarrow> fault + mapping_desc" where
  "mapping_desc_at d s = of_option BadPointer (mappingDescs (img s) d)"

definition function_at :: "tagged \<Rightarrow> rt \<Rightarrow> fault + function_obj" where
  "function_at p s = (case heap s (taggedToPtr p) of Some (ObjFunction fp) \<Rightarrow> Inr fp | _ \<Rightarrow> Inl BadPointer)"

definition function_desc_at :: "u64 \<Rightarrow> rt \<Rightarrow> fault + function_desc" where
  "function_desc_at d s = of_option BadPointer (functionDescs (img s) d)"

text \<open>\<open>sp->desc->tid\<close> for a \<open>StructurePtr\<close>: every structure starts with its descriptor, every descriptor
  with its type id.\<close>

definition structure_tid :: "tagged \<Rightarrow> rt \<Rightarrow> fault + tid" where
  "structure_tid p s =
     (case heap s (taggedToPtr p) of
        Some (ObjList lp) \<Rightarrow> bindR (list_desc_at (lo_desc lp) s) (\<lambda>d. Inr (ld_tid d))
      | Some (ObjMapping mp) \<Rightarrow> bindR (mapping_desc_at (mo_desc mp) s) (\<lambda>d. Inr (md_tid d))
      | Some (ObjFunction fp) \<Rightarrow> bindR (function_desc_at (fo_desc fp) s) (\<lambda>d. Inr (fd_tid d))
      | _ \<Rightarrow> Inl BadPointer)"

definition taggedToDecQuad :: "tagged \<Rightarrow> rt \<Rightarrow> fault + decQuad" where
  "taggedToDecQuad tp s =
     (case heap s (taggedToPtr tp) of Some (ObjDecimal d) \<Rightarrow> Inr d | _ \<Rightarrow> Inl BadPointer)"

definition elem_at :: "'a list \<Rightarrow> int \<Rightarrow> fault + 'a" where
  "elem_at xs i = (if 0 \<le> i \<and> i < int (length xs) then Inr (xs ! nat i) else Inl OutOfBounds)"

section \<open>The contains functions\<close>

definition bal_true_subtype_contains :: "tagged \<Rightarrow> bool" where
  "bal_true_subtype_contains tp \<longleftrightarrow> taggedToBoolean tp = 1"

definition bal_false_subtype_contains :: "tagged \<Rightarrow> bool" where
  "bal_false_subtype_contains tp \<longleftrightarrow> taggedToBoolean tp = 0"

fun intRangeListContains :: "int_range list \<Rightarrow> int \<Rightarrow> fault + bool" where
  "intRangeListContains [] n = Inl OutOfBounds"
| "intRangeListContains (r # rs) n =
     (if n \<le> range_max r then (if n \<ge> range_min r then Inr True else Inr False)
      else if rs = [] then Inr False
      else intRangeListContains rs n)"

definition bal_int_subtype_contains :: "int_range list \<Rightarrow> tagged \<Rightarrow> rt \<Rightarrow> fault + bool" where
  "bal_int_subtype_contains ranges tp s = bindR (taggedToInt tp s) (intRangeListContains ranges)"

function floatListContains :: "u64 list \<Rightarrow> nat \<Rightarrow> nat \<Rightarrow> u64 \<Rightarrow> fault + bool" where
  "floatListContains floats start end d =
     (if start < end
      then (let mid = start + (end - start) div 2
            in bindR (elem_at floats (int mid)) (\<lambda>m.
               if dbl_eq d m then Inr True
               else if dbl_lt d m then floatListContains floats start mid d
               else floatListContains floats (mid + 1) end d))
      else Inr False)"
  by pat_completeness auto
termination
  by (relation "measure (\<lambda>(fs, start, end, d). end - start)") auto

declare floatListContains.simps [simp del]

definition floatSubtypeContainsFloat :: "bool \<Rightarrow> u64 list \<Rightarrow> u64 \<Rightarrow> fault + bool" where
  "floatSubtypeContainsFloat included floats d =
     bindR (elem_at floats 0) (\<lambda>first.
       if dbl_isnan first
       then (if dbl_isnan d then Inr included
             else bindR (floatListContains floats 1 (length floats) d) (\<lambda>c. Inr (c = included)))
       else if dbl_isnan d then Inr (\<not> included)
       else bindR (floatListContains floats 0 (length floats) d) (\<lambda>c. Inr (c = included)))"

definition bal_float_subtype_contains :: "bool \<Rightarrow> u64 list \<Rightarrow> tagged \<Rightarrow> rt \<Rightarrow> fault + bool" where
  "bal_float_subtype_contains included floats tp s =
     bindR (taggedToFloat tp s) (floatSubtypeContainsFloat included floats)"

function decimalListContains :: "decQuad list \<Rightarrow> nat \<Rightarrow> nat \<Rightarrow> decQuad \<Rightarrow> rt \<Rightarrow> fault + bool" where
  "decimalListContains decimals start end dq s =
     (if start < end
      then (let mid = start + (end - start) div 2
            in bindR (elem_at decimals (int mid)) (\<lambda>m.
               let cmpClass = decQuadCompareClass (img s) dq m
               in if cmpClass = DEC_CLASS_POS_ZERO then Inr True
                  else if cmpClass = DEC_CLASS_NEG_NORMAL then decimalListContains decimals start mid dq s
                  else decimalListContains decimals (mid + 1) end dq s))
      else Inr False)"
  by pat_completeness auto
termination
  by (relation "measure (\<lambda>(ds, start, end, d, s). end - start)") auto

declare decimalListContains.simps [simp del]

definition bal_decimal_subtype_contains :: "bool \<Rightarrow> decQuad list \<Rightarrow> tagged \<Rightarrow> rt \<Rightarrow> fault + bool" where
  "bal_decimal_subtype_contains included decimals tp s =
     bindR (taggedToDecQuad tp s) (\<lambda>dq.
     bindR (decimalListContains decimals 0 (length decimals) dq s) (\<lambda>c. Inr (c = included)))"

function tidListContains :: "tid list \<Rightarrow> nat \<Rightarrow> nat \<Rightarrow> tid \<Rightarrow> fault + bool" where
  "tidListContains tids start end t =
     (if start < end
      then (let mid = start + (end - start) div 2
            in bindR (elem_at tids (int mid)) (\<lambda>m.
               if t = m then Inr True
               else if t < m then tidListContains tids start mid t
               else tidListContains tids (mid + 1) end t))
      else Inr False)"
  by pat_completeness auto
termination
  by (relation "measure (\<lambda>(ts, start, end, t). end - start)") auto

declare tidListContains.simps [simp del]

definition bal_precomputed_subtype_contains :: "tid list \<Rightarrow> tagged \<Rightarrow> rt \<Rightarrow> fault + bool" where
  "bal_precomputed_subtype_contains tids p s =
     bindR (structure_tid p s) (\<lambda>t. tidListContains tids 0 (length tids) t)"

text \<open>The loop over \<open>memberTypes\<close> or \<open>fieldTypes\<close> that ends at the first one that is not a subtype.\<close>

fun all_subtypes_simple :: "memberType list \<Rightarrow> u32 \<Rightarrow> rt \<Rightarrow> fault + bool" where
  "all_subtypes_simple [] bitSet s = Inr True"
| "all_subtypes_simple (m # ms) bitSet s =
     bindR (memberTypeIsSubtypeSimple m bitSet s) (\<lambda>ok. if \<not> ok then Inr False else all_subtypes_simple ms bitSet s)"

definition first_n :: "int \<Rightarrow> 'a list \<Rightarrow> fault + 'a list" where
  "first_n n xs = (if 0 \<le> n \<and> n \<le> int (length xs) then Inr (take (nat n) xs) else Inl OutOfBounds)"

definition bal_array_subtype_contains :: "u32 \<Rightarrow> tagged \<Rightarrow> rt \<Rightarrow> fault + bool" where
  "bal_array_subtype_contains typeBitSet p s =
     bindR (list_at p s) (\<lambda>lp.
     bindR (list_desc_at (lo_desc lp) s) (\<lambda>ldp.
     bindR (first_n (ld_nMemberTypes ldp) (ld_memberTypes ldp)) (\<lambda>ms.
     bindR (all_subtypes_simple ms typeBitSet s) (\<lambda>ok.
       if \<not> ok then Inr False else memberTypeIsSubtypeSimple (ld_restType ldp) typeBitSet s))))"

definition bal_map_subtype_contains :: "u32 \<Rightarrow> tagged \<Rightarrow> rt \<Rightarrow> fault + bool" where
  "bal_map_subtype_contains typeBitSet p s =
     (if utTag p \<noteq> TAG_MAPPING then Inr False
      else bindR (mapping_at p s) (\<lambda>mp.
           bindR (mapping_desc_at (mo_desc mp) s) (\<lambda>mdp.
           bindR (first_n (md_nFields mdp) (md_fieldTypes mdp)) (\<lambda>ms.
           bindR (all_subtypes_simple ms typeBitSet s) (\<lambda>ok.
             if \<not> ok then Inr False else memberTypeIsSubtypeSimple (md_restType mdp) typeBitSet s)))))"

text \<open>The loop of \<open>_bal_record_subtype_contains\<close>, from field \<open>i\<close> on.\<close>

fun record_fields_match ::
  "record_subtype_field list \<Rightarrow> mapping_obj \<Rightarrow> mapping_desc \<Rightarrow> nat \<Rightarrow> rt \<Rightarrow> fault + bool" where
  "record_fields_match [] mp mdp i s = Inr True"
| "record_fields_match (tf # tfs) mp mdp i s =
     bindR (block_get (arr_members (mo_fArray mp)) (int i)) (\<lambda>f.
     bindR (taggedStringEqual (fieldName tf) (mf_key f) s) (\<lambda>same.
       if \<not> same then Inr False
       else bindR (elem_at (md_fieldTypes mdp) (int i)) (\<lambda>m.
            bindR (memberTypeIsSubtypeSimple m (fieldBitSet tf) s) (\<lambda>ok.
              if \<not> ok then Inr False else record_fields_match tfs mp mdp (i + 1) s))))"

definition bal_record_subtype_contains :: "record_subtype_field list \<Rightarrow> tagged \<Rightarrow> rt \<Rightarrow> fault + bool" where
  "bal_record_subtype_contains tfs p s =
     (if utTag p \<noteq> TAG_MAPPING then Inr False
      else bindR (mapping_at p s) (\<lambda>mp.
           bindR (mapping_desc_at (mo_desc mp) s) (\<lambda>mdp.
             if int (length tfs) \<noteq> md_nFields mdp then Inr False
             else record_fields_match tfs mp mdp 0 s)))"

text \<open>The loop over the parameters of a function subtype, from parameter \<open>i\<close> on.\<close>

fun params_match :: "u32 list \<Rightarrow> function_desc \<Rightarrow> nat \<Rightarrow> rt \<Rightarrow> fault + bool" where
  "params_match [] fdp i s = Inr True"
| "params_match (paramBitSet # bs) fdp i s =
     bindR (if int i < fd_nRequiredParams fdp then elem_at (fd_paramTypes fdp) (int i) else Inr (fd_restType fdp)) (\<lambda>paramType.
     bindR (memberTypeIsSupertypeSimple paramType paramBitSet s) (\<lambda>ok.
       if \<not> ok then Inr False else params_match bs fdp (i + 1) s))"

definition bal_function_subtype_contains :: "u32 \<Rightarrow> u32 list \<Rightarrow> tagged \<Rightarrow> rt \<Rightarrow> fault + bool" where
  "bal_function_subtype_contains returnBitSet paramBitSets p s =
     (if utTag p \<noteq> TAG_FUNCTION then Inr False
      else bindR (function_at p s) (\<lambda>fp.
           bindR (function_desc_at (fo_desc fp) s) (\<lambda>fdp.
           let nReq = int (length paramBitSets);
               maxRequiredParams = (if nReq > fd_nRequiredParams fdp then nReq else fd_nRequiredParams fdp)
           in bindR (memberTypeIsSubtypeSimple (fd_returnType fdp) returnBitSet s) (\<lambda>ok.
                if \<not> ok \<or> maxRequiredParams > nReq then Inr False
                else params_match paramBitSets fdp 0 s))))"

text \<open>The call \<open>(vp->contains)(vp, p)\<close>.\<close>

fun subtype_contains :: "uniform_subtype \<Rightarrow> tagged \<Rightarrow> rt \<Rightarrow> fault + bool" where
  "subtype_contains TrueSubtype p s = Inr (bal_true_subtype_contains p)"
| "subtype_contains FalseSubtype p s = Inr (bal_false_subtype_contains p)"
| "subtype_contains (IntSubtype ranges) p s = bal_int_subtype_contains ranges p s"
| "subtype_contains (FloatSubtype included floats) p s = bal_float_subtype_contains included floats p s"
| "subtype_contains (DecimalSubtype included ds) p s = bal_decimal_subtype_contains included ds p s"
| "subtype_contains (StringSubtype c nc strs) p s = bal_string_subtype_contains c nc strs p s"
| "subtype_contains (ArraySubtype b) p s = bal_array_subtype_contains b p s"
| "subtype_contains (MapSubtype b) p s = bal_map_subtype_contains b p s"
| "subtype_contains (RecordSubtype tfs) p s = bal_record_subtype_contains tfs p s"
| "subtype_contains (EasyFunctionSubtype r ps) p s = bal_function_subtype_contains r ps p s"
| "subtype_contains (PrecomputedSubtype tids) p s = bal_precomputed_subtype_contains tids p s"

definition complexTypeContainsTagged :: "complex_type \<Rightarrow> tagged \<Rightarrow> rt \<Rightarrow> fault + bool" where
  "complexTypeContainsTagged ctp p s =
     (let flag = push_bit (utTag p) 1 :: u32
      in if ct_all ctp AND flag \<noteq> 0 then Inr True
         else if ct_some ctp AND flag = 0 then Inr False
         else bindR (elem_at (ct_subtypes ctp) (int (popcount (ct_some ctp AND (flag - 1))))) (\<lambda>vp.
              subtype_contains vp p s))"

definition memberTypeContainsTagged :: "memberType \<Rightarrow> tagged \<Rightarrow> rt \<Rightarrow> fault + bool" where
  "memberTypeContainsTagged memberType tp s =
     (if memberType AND 1 \<noteq> 0 then Inr (memberType AND push_bit (1 + utTag tp) 1 \<noteq> 0)
      else bindR (complex_type_at memberType s) (\<lambda>ctp. complexTypeContainsTagged ctp tp s))"

definition bal_type_contains :: "complex_type \<Rightarrow> tagged \<Rightarrow> rt \<Rightarrow> fault + bool" where
  "bal_type_contains ctp p s = complexTypeContainsTagged ctp p s"

text \<open>
  \<open>complexTypeUniformSubtypeData\<close>: \<open>Inl\<close> is a null \<open>ptr\<close> with the value of \<open>contains\<close>, \<open>Inr\<close> a pointer.
\<close>

definition complexTypeUniformSubtypeData :: "complex_type \<Rightarrow> nat \<Rightarrow> fault + (bool + uniform_subtype)" where
  "complexTypeUniformSubtypeData ctp tag =
     (let flag = push_bit tag 1 :: u32
      in if ct_all ctp AND flag \<noteq> 0 then Inr (Inl True)
         else if ct_some ctp AND flag = 0 then Inr (Inl False)
         else bindR (elem_at (ct_subtypes ctp) (int (popcount (ct_some ctp AND (flag - 1))))) (\<lambda>vp. Inr (Inr vp)))"

definition bal_type_contains_int :: "complex_type \<Rightarrow> int \<Rightarrow> fault + bool" where
  "bal_type_contains_int ctp n =
     bindR (complexTypeUniformSubtypeData ctp TAG_INT) (\<lambda>usd.
       case usd of
         Inl c \<Rightarrow> Inr c
       | Inr (IntSubtype ranges) \<Rightarrow> intRangeListContains ranges n
       | Inr _ \<Rightarrow> Inl BadPointer)"

definition bal_type_contains_float :: "complex_type \<Rightarrow> u64 \<Rightarrow> fault + bool" where
  "bal_type_contains_float ctp d =
     bindR (complexTypeUniformSubtypeData ctp TAG_FLOAT) (\<lambda>usd.
       case usd of
         Inl c \<Rightarrow> Inr c
       | Inr (FloatSubtype included floats) \<Rightarrow> floatSubtypeContainsFloat included floats d
       | Inr _ \<Rightarrow> Inl BadPointer)"

definition bal_structure_exactify :: "tagged \<Rightarrow> tid \<Rightarrow> rt \<Rightarrow> fault + tagged" where
  "bal_structure_exactify p t s =
     (if taggedToPtr p = taggedToPtrExact p
      then bindR (structure_tid p s) (\<lambda>t'. Inr (if t' = t then p + EXACT_FLAG else p))
      else Inr p)"

end
