(* ===== verification/Rt_Arrays.thy ===== *)
theory Rt_Arrays
  imports Rt_Types
begin

text \<open>
  Growable arrays: \<open>initGenericArray\<close> of \<open>balrt.h\<close>, \<open>_bal_array_grow\<close> of \<open>list.c\<close> and the store into a
  primitive array that \<open>list.c\<close> has in three copies. The sizes in bytes are computed from the
  \<open>shift\<close> argument, the sizes in members from the size of the member, so that a copy or an access
  outside a block is the fault \<open>OutOfBounds\<close>.
\<close>

definition ARRAY_LENGTH_MAX :: int where "ARRAY_LENGTH_MAX = INT64_MAX div 8"
definition INITIAL_CAPACITY :: int where "INITIAL_CAPACITY = 4"
definition TAGGED_PTR_SHIFT :: nat where [simp]: "TAGGED_PTR_SHIFT = 3"
definition BYTE_SHIFT :: nat where [simp]: "BYTE_SHIFT = 0"
definition MAP_FIELD_SHIFT :: nat where [simp]: "MAP_FIELD_SHIFT = TAGGED_PTR_SHIFT * 2"

definition sizeof_word :: nat where [simp]: "sizeof_word = 8"
definition sizeof_byte :: nat where [simp]: "sizeof_byte = 1"
definition sizeof_MapField :: nat where [simp]: "sizeof_MapField = 16"

text \<open>\<open>n << shift\<close> on \<open>int64_t\<close>.\<close>

definition shl64 :: "int \<Rightarrow> nat \<Rightarrow> fault + int" where
  "shl64 n shift = (if 0 \<le> n \<and> n * 2 ^ shift \<le> INT64_MAX then Inr (n * 2 ^ shift) else Inl IntOverflow)"

definition initGenericArray :: "int \<Rightarrow> nat \<Rightarrow> nat \<Rightarrow> rt \<Rightarrow> fault + 'a c_array \<times> rt" where
  "initGenericArray capacity shift esize s =
     (if capacity = 0 then Inr (\<lparr>arr_length = 0, arr_capacity = capacity, arr_members = []\<rparr>, s)
      else bindR (shl64 capacity shift) (\<lambda>nB.
           bindR (bal_alloc nB s) (\<lambda>(p, s1).
             Inr (\<lparr>arr_length = 0, arr_capacity = capacity, arr_members = block_new (nat nB div esize)\<rparr>, s1))))"

text \<open>\<open>memcpy(dst, src, nBytes)\<close> between the member blocks of two arrays.\<close>

definition copy_members :: "'a option list \<Rightarrow> 'a option list \<Rightarrow> nat \<Rightarrow> fault + 'a option list" where
  "copy_members src dst n =
     (if n \<le> length src \<and> n \<le> length dst then Inr (take n src @ drop n dst) else Inl OutOfBounds)"

definition bal_array_grow :: "'a c_array \<Rightarrow> int \<Rightarrow> nat \<Rightarrow> nat \<Rightarrow> rt \<Rightarrow> fault + 'a c_array \<times> rt" where
  "bal_array_grow ap min_capacity shift esize s =
     (let old_capacity = arr_capacity ap
      in if old_capacity = 0
         then (let new_capacity = (if min_capacity > INITIAL_CAPACITY then min_capacity else INITIAL_CAPACITY)
               in bindR (shl64 new_capacity shift) (\<lambda>nB.
                  bindR (bal_alloc nB s) (\<lambda>(p, s1).
                    Inr (ap\<lparr>arr_members := block_new (nat nB div esize), arr_capacity := new_capacity\<rparr>, s1))))
         else
         (let extra_capacity = old_capacity div 2
          in bindR (if old_capacity \<le> ARRAY_LENGTH_MAX - extra_capacity then Inr (old_capacity + extra_capacity)
                    else if ARRAY_LENGTH_MAX = old_capacity then Inl (Panicked PANIC_LIST_TOO_LONG)
                    else Inr ARRAY_LENGTH_MAX) (\<lambda>new_capacity0.
             let new_capacity = (if new_capacity0 < min_capacity then min_capacity else new_capacity0)
             in bindR (shl64 new_capacity shift) (\<lambda>nB.
                bindR (bal_alloc nB s) (\<lambda>(p, s1).
                bindR (shl64 (arr_length ap) shift) (\<lambda>nOld.
                bindR (copy_members (arr_members ap) (block_new (nat nB div esize)) (nat nOld div esize)) (\<lambda>new_members.
                  Inr (ap\<lparr>arr_members := new_members, arr_capacity := new_capacity\<rparr>, s1))))))))"

text \<open>\<open>memset(&(members[i]), 0, ...)\<close> over the members \<open>i ..< j\<close>.\<close>

definition fill_members :: "'a option list \<Rightarrow> int \<Rightarrow> int \<Rightarrow> 'a \<Rightarrow> fault + 'a option list" where
  "fill_members ms i j v =
     (if 0 \<le> i \<and> i \<le> j \<and> j \<le> int (length ms)
      then Inr (take (nat i) ms @ replicate (nat (j - i)) (Some v) @ drop (nat j) ms) else Inl OutOfBounds)"

text \<open>
  The body that \<open>_bal_list_int_array_set_int\<close>, \<open>_bal_list_byte_array_set_int\<close> and
  \<open>_bal_list_float_array_set_float\<close> share; the result is the panic code and the array.
\<close>

definition plain_array_set :: "nat \<Rightarrow> nat \<Rightarrow> 'a \<Rightarrow> 'a c_array \<Rightarrow> int \<Rightarrow> 'a \<Rightarrow> rt \<Rightarrow> fault + (nat \<times> 'a c_array) \<times> rt" where
  "plain_array_set shift esize zero ap index val s =
     (if cast_u64 index < cast_u64 (arr_length ap)
      then bindR (block_set (arr_members ap) index val) (\<lambda>ms. Inr ((0, ap\<lparr>arr_members := ms\<rparr>), s))
      else if cast_u64 index \<ge> cast_u64 (arr_capacity ap) \<and> cast_u64 index \<ge> ARRAY_LENGTH_MAX
      then Inr ((if index < 0 then PANIC_INDEX_OUT_OF_BOUNDS else PANIC_LIST_TOO_LONG, ap), s)
      else bindR (if cast_u64 index \<ge> cast_u64 (arr_capacity ap)
                  then bal_array_grow ap (index + 1) shift esize s else Inr (ap, s)) (\<lambda>(ap1, s1).
           bindR (if index > arr_length ap1
                  then fill_members (arr_members ap1) (arr_length ap1) index zero
                  else Inr (arr_members ap1)) (\<lambda>ms.
           bindR (block_set ms index val) (\<lambda>ms2.
             Inr ((0, ap1\<lparr>arr_members := ms2, arr_length := index + 1\<rparr>), s1)))))"

section \<open>Invariant and abstraction\<close>

text \<open>
  \<open>cells\<close> is the number of members a unit of capacity occupies in the block: 1 for the lists, 4
  for the fields of a mapping.
\<close>

definition arr_inv :: "nat \<Rightarrow> 'a c_array \<Rightarrow> bool" where
  "arr_inv cells ap \<longleftrightarrow>
     0 \<le> arr_length ap \<and> arr_length ap \<le> arr_capacity ap \<and> arr_capacity ap \<le> ARRAY_LENGTH_MAX \<and>
     int cells * arr_capacity ap \<le> int (length (arr_members ap)) \<and>
     (\<forall>i < nat (arr_length ap). arr_members ap ! i \<noteq> None)"

definition arr_list :: "'a c_array \<Rightarrow> 'a list" where
  "arr_list ap = map the (take (nat (arr_length ap)) (arr_members ap))"

lemma arr_invD:
  assumes "arr_inv cells ap"
  shows "0 \<le> arr_length ap" "arr_length ap \<le> arr_capacity ap" "arr_capacity ap \<le> ARRAY_LENGTH_MAX"
    "int cells * arr_capacity ap \<le> int (length (arr_members ap))"
    "k < nat (arr_length ap) \<Longrightarrow> arr_members ap ! k \<noteq> None"
  using assms by (simp_all add: arr_inv_def)

lemma arr_inv_block: "arr_inv 1 ap \<Longrightarrow> arr_capacity ap \<le> int (length (arr_members ap))"
  using arr_invD(4) [of 1 ap] by simp

lemma arr_list_length: "arr_inv cells ap \<Longrightarrow> 0 < cells \<Longrightarrow> length (arr_list ap) = nat (arr_length ap)"
proof -
  assume i: "arr_inv cells ap" "0 < cells"
  have "arr_capacity ap \<le> int cells * arr_capacity ap"
    using i mult_right_mono [of 1 "int cells" "arr_capacity ap"] by (simp add: arr_inv_def)
  then have "nat (arr_length ap) \<le> length (arr_members ap)" using arr_invD [OF i(1)] by linarith
  then show ?thesis by (simp add: arr_list_def)
qed

section \<open>Growing\<close>

text \<open>The capacity that \<open>_bal_array_grow\<close> chooses when it does not panic.\<close>

definition grown_capacity :: "int \<Rightarrow> int \<Rightarrow> int" where
  "grown_capacity cap min_capacity =
     (if cap = 0 then max min_capacity INITIAL_CAPACITY
      else max min_capacity (min (cap + cap div 2) ARRAY_LENGTH_MAX))"

lemma ARRAY_LENGTH_MAX_eq: "ARRAY_LENGTH_MAX = 2 ^ 60 - 1"
  by (simp add: ARRAY_LENGTH_MAX_def)

lemma grown_capacity_bounds:
  assumes "0 \<le> cap" "cap \<le> ARRAY_LENGTH_MAX" "min_capacity \<le> ARRAY_LENGTH_MAX"
  shows "cap \<le> grown_capacity cap min_capacity" "min_capacity \<le> grown_capacity cap min_capacity"
    "0 < grown_capacity cap min_capacity" "grown_capacity cap min_capacity \<le> ARRAY_LENGTH_MAX"
    "cap \<noteq> 1 \<Longrightarrow> cap < ARRAY_LENGTH_MAX \<Longrightarrow> cap < grown_capacity cap min_capacity"
  using assms by (auto simp: grown_capacity_def INITIAL_CAPACITY_def ARRAY_LENGTH_MAX_eq)

lemma copy_members_ok:
  assumes "n \<le> length src" "n \<le> length dst" "k \<le> n"
  shows "\<exists>ms. copy_members src dst n = Inr ms \<and> length ms = length dst \<and> take k ms = take k src"
  using assms by (auto simp: copy_members_def min_def)

text \<open>
  Growing keeps the length and the members and only allocates.
\<close>

lemma bal_array_grow_ok:
  assumes inv: "arr_inv cells ap" and sz: "2 ^ shift = esize * cells" "0 < esize" "0 < cells"
    and cap: "arr_capacity ap < ARRAY_LENGTH_MAX" "min_capacity \<le> ARRAY_LENGTH_MAX"
    and nc: "nc = grown_capacity (arr_capacity ap) min_capacity" and room: "nc * 2 ^ shift \<le> INT64_MAX"
  shows "bal_array_grow ap min_capacity shift esize s = bindR (bal_alloc (nc * 2 ^ shift) s) (\<lambda>(p, s1).
           Inr (ap\<lparr>arr_members := (if arr_capacity ap = 0 then block_new (cells * nat nc)
                  else take (cells * nat (arr_length ap)) (arr_members ap) @
                       replicate (cells * nat nc - cells * nat (arr_length ap)) None),
                  arr_capacity := nc\<rparr>, s1))"
proof -
  let ?len = "arr_length ap" and ?cap = "arr_capacity ap"
  have len: "0 \<le> ?len" "?len \<le> ?cap" "?cap \<le> ARRAY_LENGTH_MAX" "int cells * ?cap \<le> int (length (arr_members ap))"
    using inv by (simp_all add: arr_inv_def)
  note nb = grown_capacity_bounds [of ?cap min_capacity, folded nc]
  have nc0: "?cap \<le> nc" "0 < nc" using nb len cap by simp_all
  have div: "nat (n * 2 ^ shift) div esize = cells * nat n" if "0 \<le> n" for n
    using that sz by (simp add: nat_mult_distrib nat_power_eq mult.assoc [symmetric] mult.commute [of esize] flip: of_nat_mult)
  have s1: "shl64 nc shift = Inr (nc * 2 ^ shift)" using room nc0 by (simp add: shl64_def)
  have "?len * 2 ^ shift \<le> nc * 2 ^ shift" using len nc0 by simp
  also note room
  finally have s2: "shl64 ?len shift = Inr (?len * 2 ^ shift)" using len by (simp add: shl64_def)
  show ?thesis
  proof (cases "?cap = 0")
    case True
    then have "(if min_capacity > INITIAL_CAPACITY then min_capacity else INITIAL_CAPACITY) = nc"
      by (simp add: nc grown_capacity_def max_def)
    then show ?thesis using True s1 div [of nc] nc0 by (simp add: bal_array_grow_def Let_def)
  next
    case False
    define c0 where "c0 = (if ?cap \<le> ARRAY_LENGTH_MAX - ?cap div 2 then ?cap + ?cap div 2 else ARRAY_LENGTH_MAX)"
    have c0: "(if c0 < min_capacity then min_capacity else c0) = nc"
      using False by (simp add: c0_def nc grown_capacity_def min_def max_def)
    have b: "(if ?cap \<le> ARRAY_LENGTH_MAX - ?cap div 2 then Inr (?cap + ?cap div 2)
              else if ARRAY_LENGTH_MAX = ?cap then Inl (Panicked PANIC_LIST_TOO_LONG) else Inr ARRAY_LENGTH_MAX) = Inr c0"
      using cap by (simp add: c0_def)
    have "int cells * ?len \<le> int cells * ?cap" using len by (intro mult_left_mono) simp_all
    then have "int (cells * nat ?len) \<le> int (length (arr_members ap))" using len by simp
    then have m: "cells * nat ?len \<le> length (arr_members ap)" by linarith
    have n: "cells * nat ?len \<le> cells * nat nc" using len nc0 by (intro mult_le_mono) auto
    have "copy_members (arr_members ap) (block_new (cells * nat nc)) (cells * nat ?len) =
        Inr (take (cells * nat ?len) (arr_members ap) @ replicate (cells * nat nc - cells * nat ?len) None)"
      using m n by (simp add: copy_members_def block_new_def)
    then show ?thesis
      unfolding bal_array_grow_def Let_def
      by (simp only: False if_False b c0 bindR_simps s1 s2 div [OF len(1)] div [OF less_imp_le [OF nc0(2)]])
  qed
qed

lemma arr_list_eq: "arr_length ap1 = arr_length ap \<Longrightarrow>
    take (nat (arr_length ap)) (arr_members ap1) = take (nat (arr_length ap)) (arr_members ap) \<Longrightarrow> arr_list ap1 = arr_list ap"
  by (simp add: arr_list_def)

lemma bal_array_grow_inv:
  assumes inv: "arr_inv cells ap" and sz: "2 ^ shift = esize * cells" "0 < esize" "0 < cells"
    and cap: "arr_capacity ap < ARRAY_LENGTH_MAX" "min_capacity \<le> ARRAY_LENGTH_MAX"
    and nc: "nc = grown_capacity (arr_capacity ap) min_capacity" and room: "nc * 2 ^ shift \<le> INT64_MAX"
    and g: "bal_array_grow ap min_capacity shift esize s = Inr (ap1, s1)"
  shows "arr_inv cells ap1" "arr_capacity ap1 = nc" "arr_length ap1 = arr_length ap" "arr_list ap1 = arr_list ap"
    "\<exists>n p. bal_alloc n s = Inr (p, s1)"
proof -
  let ?len = "arr_length ap" and ?cap = "arr_capacity ap"
  have i: "0 \<le> ?len" "?len \<le> ?cap" "?cap \<le> ARRAY_LENGTH_MAX" "int cells * ?cap \<le> int (length (arr_members ap))"
      "\<forall>i < nat ?len. arr_members ap ! i \<noteq> None"
    using inv by (simp_all add: arr_inv_def)
  have nb: "?cap \<le> nc" "0 < nc" "nc \<le> ARRAY_LENGTH_MAX"
    using grown_capacity_bounds [of ?cap min_capacity, folded nc] i cap by simp_all
  define ms where "ms = (if ?cap = 0 then block_new (cells * nat nc)
      else take (cells * nat ?len) (arr_members ap) @ replicate (cells * nat nc - cells * nat ?len) None)"
  have r: "ap1 = ap\<lparr>arr_members := ms, arr_capacity := nc\<rparr>" and al: "\<exists>p. bal_alloc (nc * 2 ^ shift) s = Inr (p, s1)"
    using g unfolding bal_array_grow_ok [OF inv sz cap nc room] ms_def by auto
  have "int cells * ?len \<le> int cells * ?cap" using i by (intro mult_left_mono) simp_all
  then have "int (cells * nat ?len) \<le> int (length (arr_members ap))" using i by simp
  then have m: "cells * nat ?len \<le> length (arr_members ap)" by linarith
  have lc: "nat ?len \<le> cells * nat ?len" using sz(3) by simp
  have "cells * nat ?len \<le> cells * nat nc" using i nb by (intro mult_le_mono) auto
  then have lms: "length ms = cells * nat nc" using m by (simp add: ms_def)
  have tk: "take (nat ?len) ms = take (nat ?len) (arr_members ap)"
    using i m lc by (simp add: ms_def min_def)
  show "arr_list ap1 = arr_list ap" using tk by (intro arr_list_eq) (simp_all add: r)
  show "arr_capacity ap1 = nc" "arr_length ap1 = ?len" by (simp_all add: r)
  show "\<exists>n p. bal_alloc n s = Inr (p, s1)" using al by blast
  have "ms ! k \<noteq> None" if "k < nat ?len" for k
    using that i(5) arg_cong [OF tk, of "\<lambda>l. l ! k"] by simp
  then show "arr_inv cells ap1" using i nb lms by (simp add: arr_inv_def r)
qed

lemma bal_array_grow_fault:
  assumes "arr_inv cells ap" "2 ^ shift = esize * cells" "0 < esize" "0 < cells"
    "arr_capacity ap < ARRAY_LENGTH_MAX" "min_capacity \<le> ARRAY_LENGTH_MAX"
    "grown_capacity (arr_capacity ap) min_capacity * 2 ^ shift \<le> INT64_MAX"
    "bal_array_grow ap min_capacity shift esize s = Inl e"
  shows "e = OutOfMemory"
  using assms(8) unfolding bal_array_grow_ok [OF assms(1-6) refl assms(7)]
  by (auto simp: bindR_eq_Inl dest: bal_alloc_fault)

section \<open>Stores into primitive arrays\<close>

text \<open>
  The contract of a store: inside the list it replaces a member, beyond the end it extends the
  list, filling the gap; a negative or too large index is refused and nothing changes.
\<close>

definition list_store :: "'a \<Rightarrow> 'a list \<Rightarrow> int \<Rightarrow> 'a \<Rightarrow> nat \<times> 'a list" where
  "list_store zero xs index val =
     (if index < 0 then (PANIC_INDEX_OUT_OF_BOUNDS, xs)
      else if index < int (length xs) then (0, xs[nat index := val])
      else if index \<ge> ARRAY_LENGTH_MAX then (PANIC_LIST_TOO_LONG, xs)
      else (0, xs @ replicate (nat index - length xs) zero @ [val]))"

lemma arr_inv_set:
  assumes "arr_inv 1 ap" "0 \<le> index" "index < arr_length ap"
  shows "block_set (arr_members ap) index val = Inr ((arr_members ap)[nat index := Some val])"
    "arr_inv 1 (ap\<lparr>arr_members := (arr_members ap)[nat index := Some val]\<rparr>)"
    "arr_list (ap\<lparr>arr_members := (arr_members ap)[nat index := Some val]\<rparr>) = (arr_list ap)[nat index := val]"
proof -
  have i: "nat index < length (arr_members ap)" using assms arr_inv_block [OF assms(1)] arr_invD [OF assms(1)] by linarith
  then show "block_set (arr_members ap) index val = Inr ((arr_members ap)[nat index := Some val])"
    using assms by (intro block_set_ok) auto
  show "arr_inv 1 (ap\<lparr>arr_members := (arr_members ap)[nat index := Some val]\<rparr>)"
    using assms i by (auto simp: arr_inv_def nth_list_update)
  show "arr_list (ap\<lparr>arr_members := (arr_members ap)[nat index := Some val]\<rparr>) = (arr_list ap)[nat index := val]"
    by (simp add: arr_list_def take_update_swap map_update)
qed

text \<open>Writing a run of members just behind the last one.\<close>

lemma arr_inv_extend:
  assumes inv: "arr_inv 1 ap" and ms: "length ms = length (arr_members ap)"
    and tk: "take n ms = take (nat (arr_length ap)) (arr_members ap) @ map Some vs"
    and n: "n = nat (arr_length ap) + length vs" "int n \<le> arr_capacity ap"
  shows "arr_inv 1 (ap\<lparr>arr_members := ms, arr_length := int n\<rparr>)"
    "arr_list (ap\<lparr>arr_members := ms, arr_length := int n\<rparr>) = arr_list ap @ vs"
proof -
  have l: "nat (arr_length ap) \<le> length (arr_members ap)" "n \<le> length ms"
    using arr_inv_block [OF inv] arr_invD(1,2) [OF inv] n ms by linarith+
  have some: "ms ! k \<noteq> None" if "k < n" for k
  proof -
    have "ms ! k = (take (nat (arr_length ap)) (arr_members ap) @ map Some vs) ! k"
      using that tk by (metis nth_take)
    then show ?thesis using that n(1) inv l by (auto simp: nth_append arr_inv_def)
  qed
  then show "arr_inv 1 (ap\<lparr>arr_members := ms, arr_length := int n\<rparr>)"
    using inv n ms by (simp add: arr_inv_def)
  show "arr_list (ap\<lparr>arr_members := ms, arr_length := int n\<rparr>) = arr_list ap @ vs"
    by (simp add: arr_list_def tk comp_def)
qed

lemma arr_list_length1: "arr_inv 1 ap \<Longrightarrow> int (length (arr_list ap)) = arr_length ap"
  using arr_list_length [of 1 ap] arr_invD(1) [of 1 ap] by simp

lemma i64_capacity: "arr_inv cells ap \<Longrightarrow> i64 (arr_capacity ap) \<and> i64 (arr_length ap)"
  using arr_invD [of cells ap] by (simp add: i64_def ARRAY_LENGTH_MAX_eq)

lemma cast_u64_ge_capacity:
  assumes "arr_inv cells ap" "i64 index"
  shows "cast_u64 index \<ge> cast_u64 (arr_capacity ap) \<longleftrightarrow> index < 0 \<or> index \<ge> arr_capacity ap"
    "cast_u64 index < cast_u64 (arr_length ap) \<longleftrightarrow> 0 \<le> index \<and> index < arr_length ap"
  using cast_u64_less [OF assms(2), of "arr_capacity ap"] cast_u64_less [OF assms(2), of "arr_length ap"]
    i64_capacity [OF assms(1)] arr_invD [OF assms(1)] by auto

lemma cast_u64_ge_max: "i64 index \<Longrightarrow> cast_u64 index \<ge> ARRAY_LENGTH_MAX \<longleftrightarrow> index < 0 \<or> index \<ge> ARRAY_LENGTH_MAX"
  using cast_u64_less [of index ARRAY_LENGTH_MAX]
  by (auto simp: i64_def ARRAY_LENGTH_MAX_eq cast_u64_nonneg)

text \<open>The part of a store behind the end of the list, once the capacity suffices.\<close>

lemma extend_members:
  assumes inv: "arr_inv 1 ap" and ix: "arr_length ap \<le> index" "index < arr_capacity ap"
  shows "\<exists>ms. bindR (if index > arr_length ap then fill_members (arr_members ap) (arr_length ap) index zero
                     else Inr (arr_members ap)) (\<lambda>ms. block_set ms index val) = Inr ms \<and>
      length ms = length (arr_members ap) \<and>
      take (nat index + 1) ms = take (nat (arr_length ap)) (arr_members ap) @
         map Some (replicate (nat index - nat (arr_length ap)) zero @ [val])"
proof -
  note d = arr_invD [OF inv] and b = arr_inv_block [OF inv]
  let ?l = "nat (arr_length ap)" and ?i = "nat index"
  have i: "?l \<le> ?i" "?i < length (arr_members ap)" "0 \<le> index" "nat (index - arr_length ap) = ?i - ?l"
    using d b ix by auto
  define ms where "ms = take ?l (arr_members ap) @ replicate (?i - ?l) (Some zero) @ drop ?i (arr_members ap)"
  have f: "(if index > arr_length ap then fill_members (arr_members ap) (arr_length ap) index zero
            else Inr (arr_members ap)) = Inr ms"
    using i d b ix by (cases "index = arr_length ap") (auto simp: fill_members_def ms_def)
  have lm: "length ms = length (arr_members ap)" using i by (simp add: ms_def)
  have "block_set ms index val = Inr (ms[?i := Some val])" using i lm by (intro block_set_ok) auto
  moreover have "take (?i + 1) (ms[?i := Some val]) = take ?i ms @ [Some val]"
    using i lm by (simp add: take_Suc_conv_app_nth)
  moreover have "take ?i ms = take ?l (arr_members ap) @ replicate (?i - ?l) (Some zero)"
    using i by (simp add: ms_def)
  ultimately show ?thesis using f lm by (simp add: map_replicate)
qed

lemma grow_for_index:
  assumes inv: "arr_inv 1 ap" and ix: "i64 index" "0 \<le> index" "index < ARRAY_LENGTH_MAX" and sz: "2 ^ shift = esize" "shift \<le> 3"
  shows "case (if cast_u64 index \<ge> cast_u64 (arr_capacity ap) then bal_array_grow ap (index + 1) shift esize s else Inr (ap, s)) of
      Inl e \<Rightarrow> e = OutOfMemory
    | Inr (ap1, s1) \<Rightarrow> arr_inv 1 ap1 \<and> arr_length ap1 = arr_length ap \<and> arr_list ap1 = arr_list ap \<and>
        index < arr_capacity ap1 \<and> (s1 = s \<or> (\<exists>n p. bal_alloc n s = Inr (p, s1)))"
proof (cases "index < arr_capacity ap")
  case True
  then show ?thesis using inv ix(2) cast_u64_ge_capacity(1) [OF inv ix(1)] by simp
next
  case False
  note d = arr_invD [OF inv] and nb = grown_capacity_bounds [of "arr_capacity ap" "index + 1"]
  have c: "arr_capacity ap < ARRAY_LENGTH_MAX" "index + 1 \<le> ARRAY_LENGTH_MAX" using False ix by auto
  have s1: "2 ^ shift = esize * 1" "0 < esize" using sz by auto
  have "(2 :: int) ^ shift \<le> 2 ^ 3" using sz(2) by (intro power_increasing) auto
  then have "grown_capacity (arr_capacity ap) (index + 1) * 2 ^ shift \<le> ARRAY_LENGTH_MAX * 2 ^ 3"
    using nb d c by (intro mult_mono) auto
  then have room: "grown_capacity (arr_capacity ap) (index + 1) * 2 ^ shift \<le> INT64_MAX"
    by (simp add: ARRAY_LENGTH_MAX_eq)
  have g: "cast_u64 index \<ge> cast_u64 (arr_capacity ap)" using False cast_u64_ge_capacity(1) [OF inv ix(1)] by simp
  show ?thesis
  proof (cases "bal_array_grow ap (index + 1) shift esize s")
    case (Inl e)
    then show ?thesis using bal_array_grow_fault [OF inv s1 zero_less_one c room Inl] g by simp
  next
    case (Inr r)
    obtain ap1 s1' where r: "r = (ap1, s1')" by (cases r)
    note gi = bal_array_grow_inv [OF inv s1 zero_less_one c refl room Inr [unfolded r]]
    have "index < arr_capacity ap1" using gi(2) nb(2) d c by linarith
    then show ?thesis using gi g Inr r by simp
  qed
qed

text \<open>A store beyond the end, below the maximal length.\<close>

lemma plain_array_extend:
  assumes inv: "arr_inv 1 ap" and ix: "i64 index" and sz: "2 ^ shift = esize" "shift \<le> 3"
    and beyond: "arr_length ap \<le> index" "index < ARRAY_LENGTH_MAX"
  shows "case plain_array_set shift esize zero ap index val s of
      Inl e \<Rightarrow> e = OutOfMemory
    | Inr ((code, ap1), s1) \<Rightarrow>
        code = 0 \<and> arr_inv 1 ap1 \<and> arr_list ap1 = arr_list ap @ replicate (nat index - nat (arr_length ap)) zero @ [val] \<and>
        (s1 = s \<or> (\<exists>n p. bal_alloc n s = Inr (p, s1)))"
proof -
  note d = arr_invD [OF inv]
  have ns: "\<not> cast_u64 index < cast_u64 (arr_length ap)"
    "\<not> (cast_u64 index \<ge> cast_u64 (arr_capacity ap) \<and> cast_u64 index \<ge> ARRAY_LENGTH_MAX)"
    using beyond d cast_u64_ge_capacity [OF inv ix] cast_u64_ge_max [OF ix] by auto
  define G where "G = (if cast_u64 index \<ge> cast_u64 (arr_capacity ap) then bal_array_grow ap (index + 1) shift esize s else Inr (ap, s))"
  have pos: "0 \<le> index" using beyond d by simp
  note grow = grow_for_index [OF inv ix pos beyond(2) sz, of s, folded G_def]
  have unf: "plain_array_set shift esize zero ap index val s = bindR G (\<lambda>(ap1, s1).
      bindR (bindR (if index > arr_length ap1 then fill_members (arr_members ap1) (arr_length ap1) index zero
                else Inr (arr_members ap1)) (\<lambda>ms. block_set ms index val))
        (\<lambda>ms2. Inr ((0, ap1\<lparr>arr_members := ms2, arr_length := index + 1\<rparr>), s1)))"
    unfolding plain_array_set_def G_def [symmetric] bindR_assoc using ns by (simp only: if_False)
  show ?thesis
  proof (cases G)
    case (Inl e)
    then show ?thesis using grow unf by simp
  next
    case (Inr g)
    obtain ap1 s1 where g: "g = (ap1, s1)" by (cases g)
    have gr: "arr_inv 1 ap1" "arr_length ap1 = arr_length ap" "arr_list ap1 = arr_list ap"
      "index < arr_capacity ap1" "s1 = s \<or> (\<exists>n p. bal_alloc n s = Inr (p, s1))" using grow Inr g by auto
    have le: "arr_length ap1 \<le> index" using beyond gr(2) by simp
    from extend_members [OF gr(1) le gr(4), of zero val] obtain ms where ms:
      "bindR (if index > arr_length ap1 then fill_members (arr_members ap1) (arr_length ap1) index zero
              else Inr (arr_members ap1)) (\<lambda>ms. block_set ms index val) = Inr ms"
      "length ms = length (arr_members ap1)"
      "take (nat index + 1) ms = take (nat (arr_length ap1)) (arr_members ap1) @
         map Some (replicate (nat index - nat (arr_length ap1)) zero @ [val])" by blast
    have r: "plain_array_set shift esize zero ap index val s = Inr ((0, ap1\<lparr>arr_members := ms, arr_length := index + 1\<rparr>), s1)"
      by (simp only: unf Inr g ms bindR_simps prod.case)
    have "int (nat index + 1) = index + 1" "int (nat index + 1) \<le> arr_capacity ap1"
      "nat index + 1 = nat (arr_length ap1) + length (replicate (nat index - nat (arr_length ap1)) zero @ [val])"
      using pos le gr by auto
    with arr_inv_extend [OF gr(1) ms(2,3) this(3,2)] show ?thesis using gr by (simp add: r add.commute)
  qed
qed

lemma plain_array_set_correct:
  assumes inv: "arr_inv 1 ap" and ix: "i64 index" and sz: "2 ^ shift = esize" "shift \<le> 3"
  shows "case plain_array_set shift esize zero ap index val s of
      Inl e \<Rightarrow> e = OutOfMemory
    | Inr ((code, ap1), s1) \<Rightarrow>
        arr_inv 1 ap1 \<and> (code, arr_list ap1) = list_store zero (arr_list ap) index val \<and>
        (s1 = s \<or> (\<exists>n p. bal_alloc n s = Inr (p, s1)))"
proof -
  note d = arr_invD [OF inv] and casts = cast_u64_ge_capacity [OF inv ix] cast_u64_ge_max [OF ix]
    and len = arr_list_length1 [OF inv]
  consider (inside) "0 \<le> index" "index < arr_length ap" | (negative) "index < 0"
    | (too_long) "ARRAY_LENGTH_MAX \<le> index" "arr_length ap \<le> index"
    | (beyond) "arr_length ap \<le> index" "index < ARRAY_LENGTH_MAX" by linarith
  then show ?thesis
  proof cases
    case inside
    then show ?thesis using arr_inv_set [OF inv inside] len by (simp add: plain_array_set_def casts list_store_def)
  next
    case negative
    then show ?thesis using inv by (simp add: plain_array_set_def casts list_store_def)
  next
    case too_long
    then show ?thesis using inv d len by (simp add: plain_array_set_def casts list_store_def)
  next
    case beyond
    have "list_store zero (arr_list ap) index val = (0, arr_list ap @ replicate (nat index - nat (arr_length ap)) zero @ [val])"
      using beyond d len by (auto simp: list_store_def)
    then show ?thesis using plain_array_extend [OF inv ix sz beyond, of zero val s] by (auto split: sum.splits)
  qed
qed

end
