(* ===== verification/Rt_Table.thy ===== *)
theory Rt_Table
  imports Rt_Strings Rt_Arrays
begin

text \<open>
  The hash table of a mapping, the part of \<open>mapping.c\<close> that "does not look at the fArray": a table
  of \<open>1 << tableLengthShift\<close> slots of \<open>1 << tableElementShift\<close> bytes, each empty (-1) or an index into
  the array of fields, with open addressing and linear probing backwards.

  \<open>mo_table\<close> holds the raw slots: the unsigned values of the three unsigned element types, and the
  values themselves for \<open>int64_t\<close>. The probing loops have a bound on the number of probes: a probe
  that comes back to its start never ends (\<open>Diverges\<close>), and \<open>Rt_Table_Props\<close> shows that this does not
  happen. The C code computes \<open>1 << tableLengthShift\<close> in \<open>int\<close>.
\<close>

section \<open>Slots\<close>

text \<open>The conversion of an \<open>int64_t\<close> to the element type selected by \<open>tableElementShift & 3\<close>.\<close>

definition slot_value :: "nat \<Rightarrow> int \<Rightarrow> int" where
  "slot_value tableElementShift n =
     (case tableElementShift AND 3 of
        0 \<Rightarrow> n mod 2 ^ 8
      | Suc 0 \<Rightarrow> n mod 2 ^ 16
      | Suc (Suc 0) \<Rightarrow> n mod 2 ^ 32
      | _ \<Rightarrow> n)"

definition fetch :: "int list \<Rightarrow> int \<Rightarrow> nat \<Rightarrow> fault + int" where
  "fetch table i tableElementShift =
     bindR (elem_at table i) (\<lambda>v. Inr (if v = slot_value tableElementShift (- 1) then - 1 else v))"

definition put :: "int list \<Rightarrow> int \<Rightarrow> int \<Rightarrow> nat \<Rightarrow> fault + int list" where
  "put table i n tableElementShift =
     (if 0 \<le> i \<and> i < int (length table) then Inr (table[nat i := slot_value tableElementShift n]) else Inl OutOfBounds)"

section \<open>Probing\<close>

text \<open>\<open>1 << n\<close> in the type \<open>int\<close>.\<close>

definition shl_int :: "nat \<Rightarrow> fault + int" where
  "shl_int n = (if n < 31 then Inr (2 ^ n) else Inl IntOverflow)"

text \<open>
  The loop of \<open>lookup\<close>, with at most \<open>fuel\<close> probes; \<open>match\<close> is the comparison with the key of a field.
  The result is the index of the field or \<open>-i - 1\<close> for the empty slot \<open>i\<close>.
\<close>

fun lookup_loop :: "nat \<Rightarrow> (int \<Rightarrow> fault + bool) \<Rightarrow> int list \<Rightarrow> nat \<Rightarrow> int \<Rightarrow> int \<Rightarrow> fault + int" where
  "lookup_loop 0 match table tableElementShift tableIndexMax i = Inl Diverges"
| "lookup_loop (Suc fuel) match table tableElementShift tableIndexMax i =
     bindR (fetch table i tableElementShift) (\<lambda>mapIndex.
       if mapIndex = - 1 then Inr (- i - 1)
       else bindR (match mapIndex) (\<lambda>b.
         if b then Inr mapIndex
         else lookup_loop fuel match table tableElementShift tableIndexMax (if i = 0 then tableIndexMax else i - 1)))"

definition matches :: "mapping_obj \<Rightarrow> tagged \<Rightarrow> rt \<Rightarrow> int \<Rightarrow> fault + bool" where
  "matches m key s mapIndex =
     bindR (block_get (arr_members (mo_fArray m)) mapIndex) (\<lambda>f. taggedStringEqual (mf_key f) key s)"

definition lookup :: "mapping_obj \<Rightarrow> tagged \<Rightarrow> u64 \<Rightarrow> rt \<Rightarrow> fault + int" where
  "lookup m key hash s =
     bindR (shl_int (mo_tableLengthShift m)) (\<lambda>n.
       lookup_loop (length (mo_table m)) (matches m key s) (mo_table m) (mo_tableElementShift m AND 3)
         (n - 1) (uint (hash AND word_of_int (n - 1))))"

text \<open>The loop of \<open>lookupDistinct\<close>, which does not compare.\<close>

definition lookupDistinct :: "mapping_obj \<Rightarrow> u64 \<Rightarrow> fault + int" where
  "lookupDistinct m hash =
     bindR (shl_int (mo_tableLengthShift m)) (\<lambda>n.
       lookup_loop (length (mo_table m)) (\<lambda>mapIndex. Inr False) (mo_table m) (mo_tableElementShift m AND 3)
         (n - 1) (uint (hash AND word_of_int (n - 1))))"

definition table_insert :: "mapping_obj \<Rightarrow> int \<Rightarrow> int \<Rightarrow> fault + mapping_obj" where
  "table_insert m lookupIndex insertMapIndex =
     bindR (put (mo_table m) (- (lookupIndex + 1)) insertMapIndex (mo_tableElementShift m AND 3)) (\<lambda>t.
       Inr (m\<lparr>mo_table := t\<rparr>))"

section \<open>Allocation\<close>

definition allocTable :: "mapping_obj \<Rightarrow> rt \<Rightarrow> fault + mapping_obj \<times> rt" where
  "allocTable m s =
     (let tableSize = 2 ^ (mo_tableLengthShift m + mo_tableElementShift m) :: nat
      in bindR (bal_alloc (int tableSize) s) (\<lambda>(p, s1).
           Inr (m\<lparr>mo_table := replicate (tableSize div 2 ^ mo_tableElementShift m)
                                 (slot_value (mo_tableElementShift m) (- 1))\<rparr>, s1)))"

text \<open>The loop \<open>while (capacity >= (1 << tableLengthShift)) tableLengthShift += 1\<close>.\<close>

function init_length_shift :: "int \<Rightarrow> nat \<Rightarrow> fault + nat" where
  "init_length_shift capacity tableLengthShift =
     (if 31 \<le> tableLengthShift then Inl IntOverflow
      else if capacity \<ge> 2 ^ tableLengthShift then init_length_shift capacity (tableLengthShift + 1)
      else Inr tableLengthShift)"
  by pat_completeness auto
termination
  by (relation "measure (\<lambda>(c, n). 31 - n)") auto

declare init_length_shift.simps [simp del]

text \<open>The loop \<open>while ((8 << tableElementShift) < tableLengthShift) tableElementShift += 1\<close>.\<close>

function init_element_shift :: "nat \<Rightarrow> nat \<Rightarrow> nat" where
  "init_element_shift tableLengthShift tableElementShift =
     (if 8 * 2 ^ tableElementShift < tableLengthShift
      then init_element_shift tableLengthShift (tableElementShift + 1) else tableElementShift)"
  by pat_completeness auto
termination
proof (relation "measure (\<lambda>(n, e). n - e)", simp)
  fix n e :: nat
  assume "8 * 2 ^ e < n"
  moreover have "e < 2 ^ e" by simp
  ultimately have "e < n" by linarith
  then show "((n, e + 1), (n, e)) \<in> measure (\<lambda>(n, e). n - e)" by simp
qed

declare init_element_shift.simps [simp del]

definition initTable :: "mapping_obj \<Rightarrow> int \<Rightarrow> rt \<Rightarrow> fault + mapping_obj \<times> rt" where
  "initTable m capacity s =
     bindR (init_length_shift capacity 2) (\<lambda>tableLengthShift.
       let tableElementShift = init_element_shift tableLengthShift 1
       in allocTable (m\<lparr>mo_tableLengthShift := tableLengthShift + 1, mo_tableElementShift := tableElementShift\<rparr>) s)"

definition growTable :: "mapping_obj \<Rightarrow> rt \<Rightarrow> fault + mapping_obj \<times> rt" where
  "growTable mp s =
     (let tes = (if 8 * 2 ^ mo_tableElementShift mp < mo_tableLengthShift mp
                 then mo_tableElementShift mp + 1 else mo_tableElementShift mp)
      in allocTable (mp\<lparr>mo_tableElementShift := tes, mo_tableLengthShift := mo_tableLengthShift mp + 1\<rparr>) s)"

end
