(* ===== verification/Rt_Mappings.thy ===== *)
theory Rt_Mappings
  imports Rt_Table
begin

text \<open>
  Mappings: the part of \<open>mapping.c\<close> that "does not know about the table", and \<open>mapping_inline.c\<close>. A
  mapping keeps its fields in insertion order in an array and their positions in the hash table.
  A function that changes a mapping in place returns the changed object; the entry points store
  it back at the address of the mapping.
\<close>

section \<open>Fields and table together\<close>

text \<open>The loop of \<open>mappingGrow\<close> that enters the fields \<open>i ..< i + n\<close> into the new table.\<close>

fun mapping_rebuild :: "nat \<Rightarrow> int \<Rightarrow> mapping_obj \<Rightarrow> rt \<Rightarrow> fault + mapping_obj" where
  "mapping_rebuild 0 i m s = Inr m"
| "mapping_rebuild (Suc n) i m s =
     bindR (block_get (arr_members (mo_fArray m)) i) (\<lambda>f.
     bindR (bal_string_hash (mf_key f) s) (\<lambda>h.
     bindR (lookupDistinct m h) (\<lambda>lookupIndex.
     bindR (table_insert m lookupIndex i) (\<lambda>m1. mapping_rebuild n (i + 1) m1 s))))"

definition mappingGrow :: "mapping_obj \<Rightarrow> rt \<Rightarrow> fault + mapping_obj \<times> rt" where
  "mappingGrow m s =
     bindR (growTable m s) (\<lambda>(m1, s1).
     bindR (mapping_rebuild (nat (arr_length (mo_fArray m))) 0 m1 s1) (\<lambda>m2. Inr (m2, s1)))"

definition mappingPush :: "mapping_obj \<Rightarrow> tagged \<Rightarrow> tagged \<Rightarrow> int \<Rightarrow> fault + mapping_obj" where
  "mappingPush mp key value lookupIndex =
     (let len = arr_length (mo_fArray mp)
      in bindR (block_set (arr_members (mo_fArray mp)) len \<lparr>mf_key = key, mf_value = value\<rparr>) (\<lambda>ms.
         bindR (table_insert (mp\<lparr>mo_fArray := (mo_fArray mp)\<lparr>arr_members := ms\<rparr>\<rparr>) lookupIndex len) (\<lambda>mp1.
           Inr (mp1\<lparr>mo_fArray := (mo_fArray mp1)\<lparr>arr_length := len + 1\<rparr>\<rparr>))))"

definition mappingGrowPush :: "mapping_obj \<Rightarrow> tagged \<Rightarrow> tagged \<Rightarrow> int \<Rightarrow> rt \<Rightarrow> fault + mapping_obj \<times> rt" where
  "mappingGrowPush mp key value lookupIndex s =
     (let len = arr_length (mo_fArray mp)
      in bindR (if len \<ge> arr_capacity (mo_fArray mp)
                then bindR (bal_array_grow (mo_fArray mp) 0 MAP_FIELD_SHIFT sizeof_MapField s) (\<lambda>(ap, s1).
                       Inr (mp\<lparr>mo_fArray := ap\<rparr>, s1))
                else Inr (mp, s)) (\<lambda>(mp1, s1).
         bindR (mappingPush mp1 key value lookupIndex) (\<lambda>mp2.
         bindR (shl_int (mo_tableLengthShift mp2 - 1)) (\<lambda>half.
           if len + 1 \<ge> half then mappingGrow mp2 s1 else Inr (mp2, s1)))))"

section \<open>Entry points\<close>

definition bal_mapping_construct :: "u64 \<Rightarrow> int \<Rightarrow> rt \<Rightarrow> fault + tagged \<times> rt" where
  "bal_mapping_construct desc capacity s =
     bindR (bal_alloc 48 s) (\<lambda>(mp, s1).
     bindR (initGenericArray capacity MAP_FIELD_SHIFT sizeof_MapField s1) (\<lambda>(arr, s2).
     bindR (initTable \<lparr>mo_desc = desc, mo_fArray = arr, mo_table = [], mo_tableElementShift = 0, mo_tableLengthShift = 0\<rparr>
              capacity s2) (\<lambda>(m, s3).
       Inr (ptrAddFlags mp (shifted_tag TAG_MAPPING OR EXACT_FLAG), store mp (ObjMapping m) s3))))"

definition bal_mapping_get :: "tagged \<Rightarrow> tagged \<Rightarrow> rt \<Rightarrow> fault + tagged" where
  "bal_mapping_get mapping key s =
     bindR (mapping_at mapping s) (\<lambda>mp.
     bindR (bal_string_hash key s) (\<lambda>h.
     bindR (lookup mp key h s) (\<lambda>i.
       if i < 0 then Inr 0
       else bindR (block_get (arr_members (mo_fArray mp)) i) (\<lambda>f. Inr (mf_value f)))))"

definition bal_mapping_init_member :: "tagged \<Rightarrow> tagged \<Rightarrow> tagged \<Rightarrow> rt \<Rightarrow> fault + rt" where
  "bal_mapping_init_member mapping key value s =
     bindR (mapping_at mapping s) (\<lambda>mp.
     bindR (bal_string_hash key s) (\<lambda>h.
     bindR (lookupDistinct mp h) (\<lambda>lookupIndex.
     bindR (mappingPush mp key value lookupIndex) (\<lambda>mp1.
       Inr (store (taggedToPtr mapping) (ObjMapping mp1) s)))))"

text \<open>\<open>mp->fArray.members[i].value = value\<close>.\<close>

definition set_field_value :: "mapping_obj \<Rightarrow> int \<Rightarrow> tagged \<Rightarrow> fault + mapping_obj" where
  "set_field_value mp i value =
     bindR (block_get (arr_members (mo_fArray mp)) i) (\<lambda>f.
     bindR (block_set (arr_members (mo_fArray mp)) i (f\<lparr>mf_value := value\<rparr>)) (\<lambda>ms.
       Inr (mp\<lparr>mo_fArray := (mo_fArray mp)\<lparr>arr_members := ms\<rparr>\<rparr>)))"

definition bal_mapping_set :: "tagged \<Rightarrow> tagged \<Rightarrow> tagged \<Rightarrow> rt \<Rightarrow> fault + nat \<times> rt" where
  "bal_mapping_set mapping key value s =
     bindR (mapping_at mapping s) (\<lambda>mp.
     bindR (mapping_desc_at (mo_desc mp) s) (\<lambda>mdp.
     bindR (bal_string_hash key s) (\<lambda>h.
     bindR (lookup mp key h s) (\<lambda>i.
       if i \<ge> 0
       then bindR (if i < md_nFields mdp then elem_at (md_fieldTypes mdp) i else Inr (md_restType mdp)) (\<lambda>memberType.
            bindR (memberTypeContainsTagged memberType value s) (\<lambda>ok.
              if \<not> ok then Inr (storePanicCode mapping PANIC_MAPPING_STORE, s)
              else bindR (set_field_value mp i value) (\<lambda>mp1.
                     Inr (0, store (taggedToPtr mapping) (ObjMapping mp1) s))))
       else bindR (memberTypeContainsTagged (md_restType mdp) value s) (\<lambda>ok.
              if \<not> ok then Inr (storePanicCode mapping PANIC_MAPPING_STORE, s)
              else bindR (mappingGrowPush mp key value i s) (\<lambda>(mp1, s1).
                     Inr (0, store (taggedToPtr mapping) (ObjMapping mp1) s1)))))))"

definition bal_mapping_inexact_set :: "tagged \<Rightarrow> tagged \<Rightarrow> tagged \<Rightarrow> rt \<Rightarrow> fault + nat \<times> rt" where
  "bal_mapping_inexact_set mapping key value s =
     bindR (bal_mapping_set mapping key value s) (\<lambda>(code, s1).
       Inr (if code = 0 then 0 else PANIC_MAPPING_STORE, s1))"

definition bal_mapping_indexed_set :: "tagged \<Rightarrow> int \<Rightarrow> tagged \<Rightarrow> rt \<Rightarrow> fault + nat \<times> rt" where
  "bal_mapping_indexed_set mapping i value s =
     bindR (mapping_at mapping s) (\<lambda>mp.
     bindR (mapping_desc_at (mo_desc mp) s) (\<lambda>mdp.
     bindR (elem_at (md_fieldTypes mdp) i) (\<lambda>memberType.
     bindR (memberTypeContainsTagged memberType value s) (\<lambda>ok.
       if \<not> ok then Inr (storePanicCode mapping PANIC_MAPPING_STORE, s)
       else bindR (set_field_value mp i value) (\<lambda>mp1.
              Inr (0, store (taggedToPtr mapping) (ObjMapping mp1) s))))))"

definition bal_mapping_indexed_get :: "tagged \<Rightarrow> int \<Rightarrow> rt \<Rightarrow> fault + tagged" where
  "bal_mapping_indexed_get mapping i s =
     bindR (mapping_at mapping s) (\<lambda>mp.
     bindR (block_get (arr_members (mo_fArray mp)) i) (\<lambda>f. Inr (mf_value f)))"

definition bal_lang_map_length :: "tagged \<Rightarrow> rt \<Rightarrow> fault + int" where
  "bal_lang_map_length p s = bindR (mapping_at p s) (\<lambda>mp. Inr (arr_length (mo_fArray mp)))"

definition bal_mapping_filler_create :: "u64 \<Rightarrow> rt \<Rightarrow> fault + (tagged \<times> bool) \<times> rt" where
  "bal_mapping_filler_create mappingDesc s =
     bindR (bal_mapping_construct mappingDesc 0 s) (\<lambda>(p, s1). Inr ((p, True), s1))"

end
