(* ===== verification/Rt_Table_Props.thy ===== *)
theory Rt_Table_Props
  imports Rt_Table
begin

text \<open>
  Correctness of the hash table: with fewer fields than slots every probe ends, a key that is
  present is found, a key that is absent yields an empty slot, and entering a field there keeps
  the invariant. The invariant speaks of the slots \<open>vs\<close> as \<open>fetch\<close> reads them and of the home slot
  of every field.
\<close>

section \<open>The probe sequence\<close>

definition prev :: "nat \<Rightarrow> nat \<Rightarrow> nat" where
  "prev N i = (if i = 0 then N - 1 else i - 1)"

definition probe :: "nat \<Rightarrow> nat \<Rightarrow> nat \<Rightarrow> nat" where
  "probe N home k = (prev N ^^ k) home"

lemma probe_simps [simp]: "probe N i 0 = i" "probe N i (Suc k) = probe N (prev N i) k"
  by (simp_all add: probe_def funpow_Suc_right del: funpow.simps)

lemma probe_less: "home < N \<Longrightarrow> probe N home k < N"
  by (induction k arbitrary: home) (auto simp: prev_def)

lemma probe_down: "k \<le> i \<Longrightarrow> probe N i k = i - k"
  by (induction k arbitrary: i) (auto simp: prev_def)

lemma probe_surj:
  assumes "home < N" "e < N"
  shows "\<exists>k < N. probe N home k = e"
proof (cases "e \<le> home")
  case True
  then show ?thesis using assms probe_down [of "home - e" home N] by (intro exI [of _ "home - e"]) auto
next
  case False
  have add: "probe N i (k + l) = probe N (probe N i k) l" for i k l by (induction k arbitrary: i) auto
  have "probe N home (Suc home) = N - 1"
    using add [of home home 1] probe_down [of home home N] by (simp add: prev_def)
  then have "probe N home (Suc home + (N - 1 - e)) = N - 1 - (N - 1 - e)"
    unfolding add using probe_down [of "N - 1 - e" "N - 1" N] by simp
  then have "probe N home (Suc home + (N - 1 - e)) = e" using assms by simp
  moreover have "Suc home + (N - 1 - e) < N" using assms False by simp
  ultimately show ?thesis by blast
qed

section \<open>The invariant\<close>

definition table_inv :: "int list \<Rightarrow> nat list \<Rightarrow> bool" where
  "table_inv vs homes \<longleftrightarrow>
     (\<forall>x < length homes. homes ! x < length vs) \<and>
     (\<forall>i < length vs. vs ! i \<noteq> - 1 \<longrightarrow> 0 \<le> vs ! i \<and> vs ! i < int (length homes)) \<and>
     (\<forall>i < length vs. \<forall>j < length vs. vs ! i \<noteq> - 1 \<longrightarrow> vs ! i = vs ! j \<longrightarrow> i = j) \<and>
     (\<forall>x < length homes. \<exists>k < length vs. vs ! probe (length vs) (homes ! x) k = int x \<and>
        (\<forall>k' < k. vs ! probe (length vs) (homes ! x) k' \<noteq> - 1))"

lemma table_inv_empty: "table_inv (replicate N (- 1)) []"
  by (simp add: table_inv_def)

lemma empty_slot_exists:
  assumes "table_inv vs homes" "length homes < length vs"
  shows "\<exists>e < length vs. vs ! e = - 1"
proof (rule ccontr)
  assume full: "\<not> ?thesis"
  have "inj_on (\<lambda>i. nat (vs ! i)) {..<length vs}"
  proof (rule inj_onI)
    fix i j assume ij: "i \<in> {..<length vs}" "j \<in> {..<length vs}" "nat (vs ! i) = nat (vs ! j)"
    then have "0 \<le> vs ! i" "0 \<le> vs ! j" "vs ! i \<noteq> - 1" using assms(1) full by (auto simp: table_inv_def)
    then show "i = j" using assms(1) ij by (auto simp: table_inv_def)
  qed
  moreover have "(\<lambda>i. nat (vs ! i)) ` {..<length vs} \<subseteq> {..<length homes}"
    using assms(1) full by (auto simp: table_inv_def)
  ultimately have "length vs \<le> length homes" using card_inj_on_le [of _ "{..<length vs}" "{..<length homes}"] by simp
  with assms(2) show False by simp
qed

text \<open>Entering field number \<open>length homes\<close> at the first empty slot of its probe sequence.\<close>

lemma table_inv_insert:
  assumes inv: "table_inv vs homes" and home: "home < length vs" and k: "k < length vs"
    and e: "vs ! probe (length vs) home k = - 1" and before: "\<forall>k' < k. vs ! probe (length vs) home k' \<noteq> - 1"
  shows "table_inv (vs[probe (length vs) home k := int (length homes)]) (homes @ [home])"
proof -
  let ?e = "probe (length vs) home k" and ?vs = "vs[probe (length vs) home k := int (length homes)]"
  have el: "?e < length vs" using home by (rule probe_less)
  have nth: "i < length vs \<Longrightarrow> ?vs ! i = (if i = ?e then int (length homes) else vs ! i)" for i
    by (simp add: nth_list_update)
  have old: "i < length vs \<Longrightarrow> vs ! i \<noteq> - 1 \<Longrightarrow> ?vs ! i = vs ! i" for i using e nth by auto
  have c1: "\<forall>x < length (homes @ [home]). (homes @ [home]) ! x < length vs"
    using inv home by (auto simp: table_inv_def nth_append less_Suc_eq)
  have c2: "\<forall>i < length vs. ?vs ! i \<noteq> - 1 \<longrightarrow> 0 \<le> ?vs ! i \<and> ?vs ! i < int (length (homes @ [home]))"
    using inv by (auto simp: table_inv_def nth)
  have less: "i < length vs \<Longrightarrow> vs ! i \<noteq> - 1 \<Longrightarrow> vs ! i < int (length homes)" for i
    using inv by (simp add: table_inv_def)
  have ne: "i < length vs \<Longrightarrow> vs ! i \<noteq> int (length homes)" for i
    using less [of i] by (cases "vs ! i = - 1") auto
  have c3: "\<forall>i < length vs. \<forall>j < length vs. ?vs ! i \<noteq> - 1 \<longrightarrow> ?vs ! i = ?vs ! j \<longrightarrow> i = j"
  proof (intro allI impI)
    fix i j assume ij: "i < length vs" "j < length vs" "?vs ! i \<noteq> - 1" "?vs ! i = ?vs ! j"
    have inj: "vs ! i \<noteq> - 1 \<Longrightarrow> vs ! i = vs ! j \<Longrightarrow> i = j" using inv ij(1,2) by (simp add: table_inv_def)
    show "i = j" using ij inj ne [of i] ne [of j] by (simp add: nth split: if_splits)
  qed
  have c4: "\<exists>k < length vs. ?vs ! probe (length vs) ((homes @ [home]) ! x) k = int x \<and>
        (\<forall>k' < k. ?vs ! probe (length vs) ((homes @ [home]) ! x) k' \<noteq> - 1)" if x: "x < length (homes @ [home])" for x
  proof (cases "x = length homes")
    case True
    have "?vs ! ?e = int x" using True el by simp
    moreover have "?vs ! probe (length vs) home k' \<noteq> - 1" if "k' < k" for k'
      using before that old probe_less [OF home, of k'] by simp
    ultimately show ?thesis using True k by auto
  next
    case False
    then have x: "x < length homes" using x by simp
    then obtain kx where kx: "kx < length vs" "vs ! probe (length vs) (homes ! x) kx = int x"
      "\<forall>k' < kx. vs ! probe (length vs) (homes ! x) k' \<noteq> - 1" using inv by (auto simp: table_inv_def)
    have hx: "homes ! x < length vs" using inv x by (simp add: table_inv_def)
    have "?vs ! probe (length vs) (homes ! x) kx = int x"
      using old [OF probe_less [OF hx], of kx] kx(2) by simp
    moreover have "\<forall>k' < kx. ?vs ! probe (length vs) (homes ! x) k' \<noteq> - 1"
      using old [OF probe_less [OF hx]] kx(3) by simp
    ultimately show ?thesis using x kx(1) by (auto simp: nth_append)
  qed
  show ?thesis unfolding table_inv_def length_list_update using c1 c2 c3 c4 by blast
qed

section \<open>The lookup loop\<close>

text \<open>The slots as \<open>fetch\<close> reads them.\<close>

definition slots :: "nat \<Rightarrow> int list \<Rightarrow> int list" where
  "slots es table = map (\<lambda>v. if v = slot_value es (- 1) then - 1 else v) table"

lemma length_slots [simp]: "length (slots es table) = length table"
  by (simp add: slots_def)

lemma fetch_slots: "i < length table \<Longrightarrow> fetch table (int i) es = Inr (slots es table ! i)"
  by (simp add: fetch_def elem_at_def slots_def)

text \<open>The loop stops at the first slot of the probe sequence that is empty or matches.\<close>

lemma lookup_loop_stop:
  assumes "k < fuel" "home < length table"
    and "\<And>v. v \<in> set (slots es table) \<Longrightarrow> v \<noteq> - 1 \<Longrightarrow> match v = Inr (mm v)"
    and "\<forall>k' < k. slots es table ! probe (length table) home k' \<noteq> - 1 \<and> \<not> mm (slots es table ! probe (length table) home k')"
    and "v = slots es table ! probe (length table) home k" "v = - 1 \<or> mm v"
  shows "lookup_loop fuel match table es (int (length table) - 1) (int home) =
           Inr (if v = - 1 then - int (probe (length table) home k) - 1 else v)"
  using assms(1,2,4,5)
proof (induction k arbitrary: fuel home)
  case 0
  then obtain f where fuel: "fuel = Suc f" by (cases fuel) auto
  have "slots es table ! home \<in> set (slots es table)" using 0 by simp
  then show ?case using 0 assms(3) [of v] assms(6) by (cases "v = - 1") (simp_all add: fuel fetch_slots)
next
  case (Suc k)
  then obtain f where fuel: "fuel = Suc f" "k < f" by (cases fuel) auto
  let ?v0 = "slots es table ! home"
  have v0: "?v0 \<noteq> - 1" "\<not> mm ?v0" using Suc.prems(3) by (auto dest: spec [of _ 0])
  have "?v0 \<in> set (slots es table)" using Suc.prems(2) by simp
  then have m: "match ?v0 = Inr False" using v0 assms(3) by simp
  have p: "prev (length table) home < length table" using Suc.prems(2) by (auto simp: prev_def)
  have step: "(if int home = 0 then int (length table) - 1 else int home - 1) = int (prev (length table) home)"
    using Suc.prems(2) by (auto simp: prev_def)
  have "\<forall>k' < k. slots es table ! probe (length table) (prev (length table) home) k' \<noteq> - 1 \<and>
      \<not> mm (slots es table ! probe (length table) (prev (length table) home) k')"
    using Suc.prems(3) by (auto dest: spec [of _ "Suc _"])
  from Suc.IH [OF fuel(2) p this] show ?case
    using Suc.prems(2,4) v0 m unfolding fuel(1) lookup_loop.simps step by (simp add: fetch_slots)
qed

lemma first_stop:
  assumes "\<exists>k < (N :: nat). P k"
  obtains k where "k < N" "P k" "\<forall>k' < k. \<not> P k'"
  using exists_least_iff [of P] assms by (metis less_trans linorder_neqE_nat)

text \<open>A key that is present is found.\<close>

lemma lookup_loop_found:
  assumes inv: "table_inv (slots es table) homes" and x: "x < length homes" "mm (int x)"
    and uniq: "\<And>v. 0 \<le> v \<Longrightarrow> v < int (length homes) \<Longrightarrow> mm v \<Longrightarrow> v = int x"
    and m: "\<And>v. 0 \<le> v \<Longrightarrow> v < int (length homes) \<Longrightarrow> match v = Inr (mm v)"
  shows "lookup_loop (length table) match table es (int (length table) - 1) (int (homes ! x)) = Inr (int x)"
proof -
  let ?vs = "slots es table" and ?p = "probe (length table) (homes ! x)"
  have h: "homes ! x < length table" using inv x(1) by (simp add: table_inv_def)
  have range: "v \<in> set ?vs \<Longrightarrow> v \<noteq> - 1 \<Longrightarrow> 0 \<le> v \<and> v < int (length homes)" for v
    using inv unfolding table_inv_def in_set_conv_nth by blast
  obtain kx where kx: "kx < length table" "?vs ! ?p kx = int x" "\<forall>k' < kx. ?vs ! ?p k' \<noteq> - 1"
    using inv x(1) by (auto simp: table_inv_def)
  then have "\<exists>k < length table. ?vs ! ?p k = - 1 \<or> mm (?vs ! ?p k)" using x(2) by auto
  then obtain k where k: "k < length table" "?vs ! ?p k = - 1 \<or> mm (?vs ! ?p k)"
    "\<forall>k' < k. \<not> (?vs ! ?p k' = - 1 \<or> mm (?vs ! ?p k'))" by (rule first_stop)
  have "k \<le> kx" using k(3) kx(2) x(2) by (metis not_le_imp_less)
  then have ne: "?vs ! ?p k \<noteq> - 1" using kx by (cases "k = kx") auto
  moreover have "?vs ! ?p k \<in> set ?vs" using probe_less [OF h, of k] by simp
  ultimately have "?vs ! ?p k = int x" using k(2) range uniq by blast
  then have v: "int x = ?vs ! ?p k" by simp
  have mv: "v \<in> set ?vs \<Longrightarrow> v \<noteq> - 1 \<Longrightarrow> match v = Inr (mm v)" for v using m range by blast
  have "lookup_loop (length table) match table es (int (length table) - 1) (int (homes ! x)) =
      Inr (if int x = - 1 then - int (?p k) - 1 else int x)"
    by (rule lookup_loop_stop [OF k(1) h mv _ v]) (use k(3) x(2) in simp_all)
  then show ?thesis by simp
qed

text \<open>A key that is absent leads to the first empty slot of its probe sequence.\<close>

lemma lookup_loop_absent:
  assumes inv: "table_inv (slots es table) homes" and room: "length homes < length table" and h: "home < length table"
    and m: "\<And>v. 0 \<le> v \<Longrightarrow> v < int (length homes) \<Longrightarrow> match v = Inr False"
  shows "\<exists>k < length table. slots es table ! probe (length table) home k = - 1 \<and>
      (\<forall>k' < k. slots es table ! probe (length table) home k' \<noteq> - 1) \<and>
      lookup_loop (length table) match table es (int (length table) - 1) (int home) = Inr (- int (probe (length table) home k) - 1)"
proof -
  let ?vs = "slots es table" and ?p = "probe (length table) home"
  have range: "v \<in> set ?vs \<Longrightarrow> v \<noteq> - 1 \<Longrightarrow> 0 \<le> v \<and> v < int (length homes)" for v
    using inv unfolding table_inv_def in_set_conv_nth by blast
  obtain e where e: "e < length table" "?vs ! e = - 1" using empty_slot_exists [OF inv] room by auto
  then have "\<exists>k < length table. ?vs ! ?p k = - 1" using probe_surj [OF h e(1)] by auto
  then obtain k where k: "k < length table" "?vs ! ?p k = - 1" "\<forall>k' < k. ?vs ! ?p k' \<noteq> - 1" by (rule first_stop)
  have mv: "v \<in> set ?vs \<Longrightarrow> v \<noteq> - 1 \<Longrightarrow> match v = Inr False" for v using m range by blast
  have "lookup_loop (length table) match table es (int (length table) - 1) (int home) =
      Inr (if (- 1 :: int) = - 1 then - int (?p k) - 1 else - 1)"
    by (rule lookup_loop_stop [OF k(1) h mv]) (use k in simp_all)
  then show ?thesis using k by (intro exI [of _ k]) simp
qed

end
