(* ===== verification/Rt_Utf8.thy ===== *)
theory Rt_Utf8
  imports Rt_Words
begin

text \<open>
  The contents of strings: well-formed UTF-8 byte sequences and their number of code points, used
  by the specification of the string operations.
\<close>

definition is_cont :: "byte \<Rightarrow> bool" where
  "is_cont b \<longleftrightarrow> 0x80 \<le> b \<and> b < 0xC0"

definition utf8_len :: "byte \<Rightarrow> nat" where
  "utf8_len a =
     (if a < 0x80 then 1 else if a < 0xC0 then 0 else if a < 0xE0 then 2
      else if a < 0xF0 then 3 else if a < 0xF8 then 4 else 0)"

function utf8 :: "byte list \<Rightarrow> bool" where
  "utf8 [] = True"
| "utf8 (a # bs) =
     (let n = utf8_len a
      in 0 < n \<and> n - 1 \<le> length bs \<and> list_all is_cont (take (n - 1) bs) \<and> utf8 (drop (n - 1) bs))"
  by pat_completeness auto
termination
  by (relation "measure length") auto

definition code_points :: "byte list \<Rightarrow> nat" where
  "code_points bs = length (filter (\<lambda>b. \<not> is_cont b) bs)"

lemma code_points_simps [simp]:
  "code_points [] = 0"
  "code_points (b # bs) = (if is_cont b then code_points bs else Suc (code_points bs))"
  "code_points (as @ bs) = code_points as + code_points bs"
  by (simp_all add: code_points_def)

lemma code_points_conts: "list_all is_cont bs \<Longrightarrow> code_points bs = 0"
  by (induction bs) simp_all

lemma code_points_le: "code_points bs \<le> length bs"
  by (simp add: code_points_def)

lemma utf8_len_lead: "0 < utf8_len a \<Longrightarrow> \<not> is_cont a \<and> a < 0xF8"
  by (auto simp: utf8_len_def is_cont_def word_less_nat_alt word_le_nat_alt split: if_splits)

lemma utf8_Cons_split:
  assumes "utf8 (a # bs)"
  obtains cs ds where "bs = cs @ ds" "length cs = utf8_len a - 1" "list_all is_cont cs" "utf8 ds" "0 < utf8_len a"
proof
  let ?n = "utf8_len a - 1"
  show "bs = take ?n bs @ drop ?n bs" by simp
  show "length (take ?n bs) = utf8_len a - 1" "list_all is_cont (take ?n bs)" "utf8 (drop ?n bs)" "0 < utf8_len a"
    using assms by (simp_all add: Let_def)
qed

declare utf8.simps(2) [simp del]

lemma utf8_byte_bound: "utf8 bs \<Longrightarrow> b \<in> set bs \<Longrightarrow> b < 0xF8"
proof (induction bs rule: utf8.induct)
  case 1
  then show ?case by simp
next
  case (2 a bs)
  from "2.prems"(1) obtain cs ds where split: "bs = cs @ ds" "length cs = utf8_len a - 1"
    "list_all is_cont cs" "utf8 ds" "0 < utf8_len a" by (rule utf8_Cons_split)
  have d: "drop (utf8_len a - 1) bs = ds" using split by simp
  from split(3) have c: "\<forall>x \<in> set cs. x < 0xC0" by (auto simp: is_cont_def list_all_iff)
  consider "b = a" | "b \<in> set cs" | "b \<in> set ds" using "2.prems"(2) split(1) by auto
  then show ?case
  proof cases
    case 1
    then show ?thesis using utf8_len_lead [OF split(5)] by simp
  next
    case 2
    then have "b < 0xC0" using c by blast
    also have "(0xC0 :: byte) < 0xF8" by simp
    finally show ?thesis .
  next
    case 3
    then show ?thesis using "2.IH" [OF refl] split(4) d by simp
  qed
qed

lemma utf8_no_pad: "utf8 bs \<Longrightarrow> (0xFF :: byte) \<notin> set bs"
  using utf8_byte_bound [of bs "0xFF"] by auto

lemma utf8_nonempty_cp: "utf8 (a # bs) \<Longrightarrow> 0 < code_points (a # bs)"
  using utf8_len_lead [of a] by (auto simp: utf8.simps(2) Let_def)

lemma utf8_one_code_point:
  assumes "utf8 bs" "code_points bs = 1"
  shows "bs \<noteq> [] \<and> length bs = utf8_len (hd bs)"
proof (cases bs)
  case Nil
  then show ?thesis using assms(2) by simp
next
  case (Cons a r)
  with assms(1) have "utf8 (a # r)" by simp
  then obtain cs ds where split: "r = cs @ ds" "length cs = utf8_len a - 1"
    "list_all is_cont cs" "utf8 ds" "0 < utf8_len a" by (rule utf8_Cons_split)
  have "code_points ds = 0"
    using assms(2) Cons split(1) code_points_conts [OF split(3)] utf8_len_lead [OF split(5)] by simp
  then have "ds = []" using split(4) utf8_nonempty_cp by (cases ds) (fastforce simp del: code_points_simps(2))+
  with split Cons show ?thesis by simp
qed

lemma utf8_ascii:
  assumes "utf8 bs" "code_points bs = length bs"
  shows "\<forall>b \<in> set bs. b < 0x80"
  using assms
proof (induction bs rule: utf8.induct)
  case 1
  then show ?case by simp
next
  case (2 a bs)
  from "2.prems"(1) obtain cs ds where split: "bs = cs @ ds" "length cs = utf8_len a - 1"
    "list_all is_cont cs" "utf8 ds" "0 < utf8_len a" by (rule utf8_Cons_split)
  have d: "drop (utf8_len a - 1) bs = ds" using split by simp
  have cp: "code_points (a # bs) = Suc (code_points ds)"
    using utf8_len_lead [OF split(5)] code_points_conts [OF split(3)] split(1) by simp
  have "length cs + length ds = code_points ds" using "2.prems"(2) split(1) cp by simp
  then have "cs = [] \<and> code_points ds = length ds"
    using code_points_le [of ds] by (cases cs) simp_all
  with split have "utf8_len a = 1" "\<forall>b \<in> set ds. b < 0x80" using "2.IH" [OF refl] d by auto
  moreover from this(1) have "a < 0x80" by (auto simp: utf8_len_def split: if_splits)
  ultimately show ?case using split(1) \<open>cs = [] \<and> _\<close> by simp
qed

lemma code_points_ascii: "\<forall>b \<in> set bs. b < 0x80 \<Longrightarrow> code_points bs = length bs"
proof (induction bs)
  case Nil
  then show ?case by simp
next
  case (Cons b bs)
  then have "\<not> is_cont b" by (auto simp: is_cont_def)
  with Cons show ?case by simp
qed

lemma utf8_append: "utf8 as \<Longrightarrow> utf8 bs \<Longrightarrow> utf8 (as @ bs)"
proof (induction as rule: utf8.induct)
  case 1
  then show ?case by simp
next
  case (2 a as)
  have len: "utf8_len a - Suc 0 \<le> length as" using "2.prems"(1) by (simp add: utf8.simps(2) Let_def)
  then have z: "utf8_len a - Suc (length as) = 0" by simp
  from "2.prems"(1) show ?case
    using "2.IH" [OF refl] "2.prems"(2) len by (simp add: utf8.simps(2) Let_def z)
qed

text \<open>What the first byte of a multi-byte character says about its length.\<close>

lemma clz_lead_table:
  "list_all (\<lambda>k. clz (ucast (NOT (word_of_nat k :: byte)) :: u32) = 24 + utf8_len (word_of_nat k)) [192..<248]"
  by code_simp

lemma clz_lead:
  assumes "0xC0 \<le> a" "a < 0xF8"
  shows "clz (ucast (NOT a) :: u32) = 24 + utf8_len a"
proof -
  have "unat a \<in> set [192..<248]"
    using assms by (simp add: word_le_nat_alt word_less_nat_alt del: upt_rec_numeral)
  with clz_lead_table
  have "clz (ucast (NOT (word_of_nat (unat a) :: byte)) :: u32) = 24 + utf8_len (word_of_nat (unat a))"
    unfolding list_all_iff by (rule bspec)
  then show ?thesis by simp
qed

end
