(* ===== verification/Rt_String_Props.thy ===== *)
theory Rt_String_Props
  imports Rt_Strings Rt_Utf8
begin

text \<open>
  Correctness of the string operations. \<open>str_rep s tp bs\<close> states that the tagged pointer \<open>tp\<close>
  represents the byte sequence \<open>bs\<close> in the state \<open>s\<close>: it fixes the representation as a function of
  the contents, padding included, which is what equality, comparison and hashing rely on.
\<close>

section \<open>The representation of a byte sequence\<close>

definition pad8 :: "nat \<Rightarrow> nat" where
  "pad8 n = (8 - n mod 8) mod 8"

lemma pad8_dvd: "8 * ((n + 7) div 8) = n + pad8 n"
proof -
  define q r where "q = n div 8" and "r = n mod 8"
  have n: "n = 8 * q + r" and r: "r < 8" by (simp_all add: q_def r_def)
  have "(n + 7) div 8 = q + (r + 7) div 8" by (simp add: n)
  moreover have "8 * ((r + 7) div 8) = r + (8 - r) mod 8"
    using r by (cases "r = 0") simp_all
  ultimately show ?thesis using r by (simp add: pad8_def n)
qed

definition immediate_rep :: "byte list \<Rightarrow> bool" where
  "immediate_rep bs \<longleftrightarrow> code_points bs = 1 \<or> (code_points bs = length bs \<and> length bs \<le> 7)"

definition immediate_bits :: "byte list \<Rightarrow> tagged" where
  "immediate_bits bs = bytes_word (bs @ replicate (7 - length bs) 0xFF @ [0x25])"

definition medium_header :: "byte list \<Rightarrow> byte list" where
  "medium_header bs = take 4 (word_bytes (word_of_nat (length bs) OR push_bit 16 (word_of_nat (code_points bs))))"

definition large_header :: "byte list \<Rightarrow> byte list" where
  "large_header bs = word_bytes (word_of_nat (length bs)) @ word_bytes (word_of_nat (code_points bs))"

definition medium_words :: "byte list \<Rightarrow> u64 list" where
  "medium_words bs = bytes_mem (medium_header bs @ bs @ replicate (pad8 (length bs + 4)) 0)"

definition large_words :: "byte list \<Rightarrow> u64 list" where
  "large_words bs = bytes_mem (large_header bs @ bs @ replicate (pad8 (length bs)) 0)"

definition str_rep :: "rt \<Rightarrow> tagged \<Rightarrow> byte list \<Rightarrow> bool" where
  "str_rep s tp bs \<longleftrightarrow> utf8 bs \<and> length bs < 2 ^ 62 \<and>
     (if immediate_rep bs then tp = immediate_bits bs
      else if length bs \<le> 0xFFFF
      then (\<exists>p. heap_addr p \<and> tp = ptrAddFlags p (shifted_tag TAG_STRING) \<and> heap s p = Some (ObjString (medium_words bs)))
      else (\<exists>p. heap_addr p \<and> tp = ptrAddFlags p (shifted_tag TAG_STRING OR STRING_LARGE_FLAG) \<and>
              heap s p = Some (ObjString (large_words bs))))"

lemma length_medium_header [simp]: "length (medium_header bs) = 4"
  by (simp add: medium_header_def)

lemma length_large_header [simp]: "length (large_header bs) = 16"
  by (simp add: large_header_def)

lemma medium_total: "\<exists>k. length (medium_header bs @ bs @ replicate (pad8 (length bs + 4)) 0) = 8 * k \<and> k = (length bs + 11) div 8"
  using pad8_dvd [of "length bs + 4"] by (simp add: add.commute)

lemma large_total: "\<exists>k. length (large_header bs @ bs @ replicate (pad8 (length bs)) 0) = 8 * k \<and> k = (length bs + 23) div 8"
proof -
  have "(length bs + 23) div 8 = (length bs + 7) div 8 + 2" by simp
  then show ?thesis using pad8_dvd [of "length bs"] by simp
qed

lemma mem_medium_words [simp]:
  "mem_bytes (medium_words bs) = medium_header bs @ bs @ replicate (pad8 (length bs + 4)) 0"
  unfolding medium_words_def using medium_total [of bs] mem_bytes_mem by blast

lemma mem_large_words [simp]:
  "mem_bytes (large_words bs) = large_header bs @ bs @ replicate (pad8 (length bs)) 0"
  unfolding large_words_def using large_total [of bs] mem_bytes_mem by blast

lemma length_medium_words: "length (medium_words bs) = (length bs + 11) div 8"
  unfolding medium_words_def using medium_total [of bs] length_bytes_mem by blast

lemma length_large_words: "length (large_words bs) = (length bs + 23) div 8"
  unfolding large_words_def using large_total [of bs] length_bytes_mem by blast

section \<open>Sizes\<close>

lemma and_not_7: "(n :: int) AND NOT 7 = 8 * (n div 8)"
proof -
  have m: "(7 :: int) = mask 3" by (simp add: mask_eq_exp_minus_1)
  have "n AND NOT 7 = push_bit 3 (drop_bit 3 n)"
    unfolding m by (rule bit_eqI) (auto simp: bit_simps)
  then show ?thesis by (simp add: push_bit_eq_mult drop_bit_eq_div)
qed

lemma and_not_7_word: "(w :: u64) AND NOT 7 = word_of_int (8 * (uint w div 8))"
proof -
  have m: "(7 :: u64) = mask 3" by (simp add: mask_eq_exp_minus_1)
  have "w AND NOT 7 = push_bit 3 (drop_bit 3 w)"
    unfolding m by (rule bit_word_eqI) (auto simp: bit_simps)
  also have "\<dots> = word_of_int (push_bit 3 (drop_bit 3 (uint w)))"
    by (rule bit_word_eqI) (auto simp: bit_simps)
  finally show ?thesis by (simp add: push_bit_eq_mult drop_bit_eq_div mult.commute)
qed

lemma mediumStringSize_eq: "mediumStringSize n = 8 * ((n + 11) div 8)"
proof -
  have "n + 4 + 7 = n + 11" by simp
  then show ?thesis by (simp only: mediumStringSize_def roundUpInt_def and_not_7)
qed

lemma medium_nInts: "mediumStringSize (int n) div 8 = int ((n + 11) div 8)"
  by (simp add: mediumStringSize_eq zdiv_int)

lemma uint_largeStringSize:
  assumes "0 \<le> n" "n < 2 ^ 63"
  shows "uint (largeStringSize n) = 8 * ((n + 23) div 8)"
proof -
  have u: "uint (word_of_int n + 16 + 7 :: u64) = n + 23"
    using assms by (simp add: uint_word_of_int uint_word_ariths)
  have "8 * ((n + 23) div 8) < 2 ^ 64" "0 \<le> 8 * ((n + 23) div 8)" using assms by simp_all
  then show ?thesis
    by (simp only: largeStringSize_def roundUpUint64_def and_not_7_word u uint_word_of_int)
       simp
qed

lemma large_nInts:
  assumes "n < 2 ^ 62"
  shows "uint (largeStringSize (int n)) div 8 = int ((n + 23) div 8)"
proof -
  have "int n < 2 ^ 63" using assms by simp
  then show ?thesis by (simp add: uint_largeStringSize zdiv_int)
qed

section \<open>Immediate strings\<close>

lemma word_byte_0: "ucast (w AND 0xFF) = word_byte w 0"
proof -
  have m: "(0xFF :: u64) = mask 8" by (simp add: mask_eq_exp_minus_1)
  show ?thesis unfolding m by (rule bit_word_eqI) (auto simp: bit_simps bit_word_byte)
qed

lemma byte_and_FF: "w AND 0xFF = (ucast (word_byte w 0) :: u64)"
proof -
  have m: "(0xFF :: u64) = mask 8" by (simp add: mask_eq_exp_minus_1)
  show ?thesis unfolding m by (rule bit_word_eqI) (auto simp: bit_simps bit_word_byte)
qed

lemma drop_byte_and_FF: "drop_bit (8 * i) w AND 0xFF = (ucast (word_byte w i) :: u64)"
proof -
  have m: "(0xFF :: u64) = mask 8" by (simp add: mask_eq_exp_minus_1)
  show ?thesis unfolding m by (rule bit_word_eqI) (auto simp: bit_simps bit_word_byte)
qed

lemma ucast_byte_eq_iff: "(ucast (a :: byte) :: u64) = ucast b \<longleftrightarrow> a = b"
proof
  assume e: "(ucast a :: u64) = ucast b"
  show "a = b"
  proof (rule bit_word_eqI)
    fix n assume "n < LENGTH(8)"
    then show "bit a n = bit b n" using arg_cong [OF e, of "\<lambda>w. bit w n"] by (simp add: bit_simps)
  qed
qed simp

lemma ucast_byte_less_iff: "(ucast (a :: byte) :: u64) < ucast b \<longleftrightarrow> a < b"
proof -
  have "unat (ucast a :: u64) = unat a" for a :: byte
    using less_trans [OF unat_byte_less [of a], of "2 ^ 64"] by (simp add: unsigned_ucast_eq take_bit_nat_eq_self_iff)
  then show ?thesis by (simp add: word_less_nat_alt)
qed

lemma ucast_FF: "(ucast (b :: byte) :: u64) = 0xFF \<longleftrightarrow> b = 0xFF"
  using ucast_byte_eq_iff [of b "0xFF"] by simp

lemma byte_bit_7: "bit b 7 \<longleftrightarrow> 0x80 \<le> (b :: byte)"
proof -
  have "bit b 7 \<longleftrightarrow> bit (unat b) 7" by (simp add: bit_unsigned_iff)
  also have "\<dots> \<longleftrightarrow> odd (unat b div 128)" by (simp add: bit_iff_odd)
  also have "\<dots> \<longleftrightarrow> 128 \<le> unat b"
  proof (cases "128 \<le> unat b")
    case True
    then have "unat b div 128 = 1" using unat_byte_less [of b] by (intro div_nat_eqI) simp_all
    with True show ?thesis by simp
  qed simp
  finally show ?thesis by (simp add: word_le_nat_alt)
qed

lemma byte_high_bit: "b AND 0x80 \<noteq> 0 \<longleftrightarrow> 0x80 \<le> (b :: byte)"
proof -
  have "(b AND 0x80) = (if bit b 7 then 0x80 else 0)"
    by (rule bit_word_eqI) (auto simp: bit_simps less_Suc_eq numeral_eq_Suc)
  then show ?thesis using byte_bit_7 [of b] by simp
qed

lemma bit_FF: "bit (0xFF :: byte) n \<longleftrightarrow> n < 8"
proof -
  have m: "(0xFF :: byte) = mask 8" by (simp add: mask_eq_exp_minus_1)
  show ?thesis unfolding m by (auto simp: bit_simps)
qed

lemma immediate_length: "utf8 bs \<Longrightarrow> immediate_rep bs \<Longrightarrow> length bs \<le> 7"
  using utf8_one_code_point [of bs] by (auto simp: immediate_rep_def utf8_len_def split: if_splits)

lemma word_bytes_immediate:
  assumes "length bs \<le> 7"
  shows "word_bytes (immediate_bits bs) = bs @ replicate (7 - length bs) 0xFF @ [0x25]"
  unfolding immediate_bits_def using assms by (intro bytes_word_bytes) simp

lemma word_byte_immediate:
  assumes "length bs \<le> 7" "i < 8"
  shows "word_byte (immediate_bits bs) i = (bs @ replicate (7 - length bs) 0xFF @ [0x25]) ! i"
  using word_bytes_immediate [OF assms(1)] nth_word_bytes [OF assms(2), of "immediate_bits bs"] by simp

lemma immediate_bits_flag:
  assumes "length bs \<le> 7"
  shows "immediate_bits bs AND IMMEDIATE_FLAG \<noteq> 0"
proof -
  have "word_byte (immediate_bits bs) 7 = 0x25"
    using assms by (simp add: word_byte_immediate nth_append)
  then have "bit (word_byte (immediate_bits bs) 7) 5" by simp
  then have "bit (immediate_bits bs) 61" by (simp add: bit_word_byte)
  then show ?thesis using is_immediate_bit [of "immediate_bits bs"] by (simp add: is_immediate_def)
qed

lemma immediate_lo_byte:
  assumes "length bs \<le> 7"
  shows "word_byte (immediate_bits bs) 0 = (case bs of [] \<Rightarrow> 0xFF | b # _ \<Rightarrow> b)"
  using assms by (cases bs) (simp_all add: word_byte_immediate nth_append)

lemma ascii_complement_clz:
  assumes len: "length bs \<le> 7" "bs \<noteq> []" and ascii: "\<forall>b \<in> set bs. b < 0x80"
  shows "clz (NOT (immediate_bits bs) AND (push_bit 56 1 - 1)) = 8 * (8 - length bs)"
proof -
  have m: "(push_bit 56 1 - 1 :: u64) = mask 56" by (simp add: mask_eq_exp_minus_1)
  define k where "k = 8 * length bs - 1"
  have k: "k < 56" "k div 8 = length bs - 1" "k mod 8 = 7"
    using len by (cases "length bs"; simp add: k_def)+
  have bits: "bit (NOT (immediate_bits bs) AND mask 56) n \<longleftrightarrow>
      n < 56 \<and> \<not> bit ((bs @ replicate (7 - length bs) 0xFF) ! (n div 8)) (n mod 8)" for n
  proof -
    have "n < 56 \<Longrightarrow> n div 8 < 7" by simp
    then show ?thesis using len(1) by (auto simp: bit_simps immediate_bits_def bit_bytes_word nth_append)
  qed
  have "bs ! (length bs - 1) < 0x80" using ascii len(2) by simp
  then have "\<not> bit (bs ! (length bs - 1)) 7"
    using byte_bit_7 [of "bs ! (length bs - 1)"] by (simp add: not_le)
  then have "bit (NOT (immediate_bits bs) AND mask 56) k"
    using k len by (simp add: bits nth_append)
  moreover have "\<not> bit (NOT (immediate_bits bs) AND mask 56) i" if "k < i" for i
  proof (cases "i < 56")
    case True
    have "length bs \<le> i div 8" using that len(2) by (cases bs) (auto simp: k_def)
    moreover have "i div 8 < 7" using True by simp
    ultimately have "(bs @ replicate (7 - length bs) 0xFF) ! (i div 8) = (0xFF :: byte)"
      by (simp add: nth_append)
    moreover have "bit (0xFF :: byte) (i mod 8)" unfolding bit_FF by simp
    ultimately show ?thesis by (simp add: bits)
  next
    case False
    then show ?thesis by (simp add: bits)
  qed
  ultimately have "clz (NOT (immediate_bits bs) AND mask 56) = 63 - k"
    using clz_eqI [of "NOT (immediate_bits bs) AND mask 56" k] by simp
  then show ?thesis unfolding m using len by (cases "length bs") (auto simp: k_def)
qed

lemma ucast_and_80: "(ucast (b :: byte) :: u64) AND 0x80 \<noteq> 0 \<longleftrightarrow> 0x80 \<le> b"
proof -
  have "(ucast b :: u64) AND 0x80 = ucast (b AND 0x80)"
    by (rule bit_word_eqI) (auto simp: bit_simps dest: bit_byte_ge)
  then show ?thesis using ucast_byte_eq_iff [of "b AND 0x80" 0] byte_high_bit [of b] by simp
qed

lemma immediate_rep_cases:
  assumes "utf8 bs" "immediate_rep bs"
  obtains (empty) "bs = []"
    | (ascii) "bs \<noteq> []" "\<forall>b \<in> set bs. b < 0x80" "code_points bs = length bs" "length bs \<le> 7"
    | (char) a r where "bs = a # r" "0xC0 \<le> a" "a < 0xF8" "length bs = utf8_len a" "code_points bs = 1"
proof (cases "bs = [] \<or> code_points bs = length bs")
  case True
  then show thesis using empty ascii utf8_ascii [OF assms(1)] immediate_length [OF assms] by blast
next
  case False
  then have cp: "code_points bs = 1" "bs \<noteq> []" using assms(2) by (auto simp: immediate_rep_def)
  then obtain a r where bs: "bs = a # r" by (cases bs) auto
  have len: "length bs = utf8_len a" using utf8_one_code_point [OF assms(1) cp(1)] bs by simp
  then have "utf8_len a \<noteq> 1" "utf8_len a \<noteq> 0" using False cp bs by auto
  then have "0xC0 \<le> a" "a < 0xF8" using utf8_len_lead [of a] by (auto simp: utf8_len_def split: if_splits)
  with bs len cp show thesis using char by blast
qed

lemma immediateStringLength_rep:
  assumes "utf8 bs" "immediate_rep bs"
  shows "immediateStringLength (immediate_bits bs) = \<lparr>nBytes = int (length bs), nCodePoints = int (code_points bs)\<rparr>"
  using assms
proof (cases rule: immediate_rep_cases)
  case empty
  then show ?thesis
    using immediate_lo_byte [of "[]"] by (simp add: immediateStringLength_def byte_and_FF Let_def)
next
  case ascii
  then obtain b r where bs: "bs = b # r" by (cases bs) auto
  have b: "b < 0x80" using ascii(2) bs by simp
  then have nb: "\<not> 0x80 \<le> b" by (simp add: not_le)
  from b have "b \<noteq> 0xFF" by auto
  moreover have lo: "word_byte (immediate_bits bs) 0 = b" using immediate_lo_byte ascii(4) bs by simp
  moreover have "(8 * (8 - length bs)) div 8 = 8 - length bs" by simp
  ultimately show ?thesis
    using nb ascii_complement_clz [OF ascii(4,1,2)] ascii(3,4) ucast_and_80 [of b]
    by (simp add: immediateStringLength_def byte_and_FF lo ucast_FF Let_def del: push_bit_numeral)
next
  case (char a r)
  have "length bs \<le> 7" using char(4) by (simp add: utf8_len_def split: if_splits)
  then have lo: "word_byte (immediate_bits bs) 0 = a" using immediate_lo_byte char(1) by simp
  have "0x80 \<le> a" using char(2) by (simp add: word_le_nat_alt)
  moreover have "a \<noteq> 0xFF" using char(3) by auto
  moreover have "(ucast (ucast a :: u64) :: byte) = a"
    by (rule bit_word_eqI) (simp add: bit_simps)
  ultimately show ?thesis
    using ucast_and_80 [of a] clz_lead [OF char(2,3)] char(4,5)
    by (simp add: immediateStringLength_def byte_and_FF lo ucast_FF Let_def)
qed

lemma all_ones_iff: "(w OR (NOT POINTER_MASK OR 0xFF) = (- 1 :: u64)) \<longleftrightarrow> (\<forall>i. 1 \<le> i \<and> i < 7 \<longrightarrow> word_byte w i = 0xFF)"
proof -
  have m: "(0xFF :: u64) = mask 8" by (simp add: mask_eq_exp_minus_1)
  have b: "bit (w OR (NOT POINTER_MASK OR 0xFF)) n \<longleftrightarrow> n < 64 \<and> (n < 8 \<or> 56 \<le> n \<or> bit w n)" for n
    unfolding m by (auto simp: bit_simps dest: bit_u64_ge)
  show ?thesis
  proof
    assume e: "w OR (NOT POINTER_MASK OR 0xFF) = - 1"
    have w: "8 \<le> n \<Longrightarrow> n < 56 \<Longrightarrow> bit w n" for n
      using arg_cong [OF e, of "\<lambda>v. bit v n"] unfolding b by simp
    show "\<forall>i. 1 \<le> i \<and> i < 7 \<longrightarrow> word_byte w i = 0xFF"
    proof (intro allI impI)
      fix i :: nat assume i: "1 \<le> i \<and> i < 7"
      show "word_byte w i = 0xFF"
      proof (rule bit_word_eqI)
        fix n assume "n < LENGTH(8)"
        then have n: "n < 8" by simp
        then have "bit w (8 * i + n)" using i by (intro w) simp_all
        with n show "bit (word_byte w i) n = bit (0xFF :: byte) n" unfolding bit_FF by (simp add: bit_word_byte)
      qed
    qed
  next
    assume r: "\<forall>i. 1 \<le> i \<and> i < 7 \<longrightarrow> word_byte w i = 0xFF"
    show "w OR (NOT POINTER_MASK OR 0xFF) = - 1"
    proof (rule bit_word_eqI)
      fix n assume n: "n < LENGTH(64)"
      have "bit w n" if "8 \<le> n" "n < 56"
      proof -
        have "1 \<le> n div 8 \<and> n div 8 < 7" using that by arith
        then have "word_byte w (n div 8) = 0xFF" using r by blast
        moreover have "bit (0xFF :: byte) (n mod 8)" unfolding bit_FF by simp
        ultimately have "bit w (8 * (n div 8) + n mod 8)" by (metis bit_word_byte)
        then show ?thesis by simp
      qed
      then show "bit (w OR (NOT POINTER_MASK OR 0xFF)) n = bit (- 1 :: u64) n"
        unfolding b using n by (cases "n < 56"; cases "n < 8") auto
    qed
  qed
qed

lemma taggedStringIsChar_immediate:
  assumes "utf8 bs" "immediate_rep bs"
  shows "taggedStringIsChar (immediate_bits bs) \<longleftrightarrow> code_points bs = 1"
  using assms
proof (cases rule: immediate_rep_cases)
  case empty
  then show ?thesis using immediate_lo_byte [of "[]"] immediate_bits_flag [of "[]"]
    by (simp add: taggedStringIsChar_def byte_and_FF Let_def)
next
  case ascii
  then obtain b r where bs: "bs = b # r" by (cases bs) auto
  have "b < 0x80" using ascii(2) bs by simp
  then have nb: "\<not> 0x80 \<le> b" by (simp add: not_le)
  have lo: "word_byte (immediate_bits bs) 0 = b" using immediate_lo_byte ascii(4) bs by simp
  have "(\<forall>i. 1 \<le> i \<and> i < 7 \<longrightarrow> word_byte (immediate_bits bs) i = 0xFF) \<longleftrightarrow> r = []"
  proof
    assume h: "\<forall>i. 1 \<le> i \<and> i < 7 \<longrightarrow> word_byte (immediate_bits bs) i = 0xFF"
    show "r = []"
    proof (rule ccontr)
      assume "r \<noteq> []"
      then have "word_byte (immediate_bits bs) 1 = r ! 0" "r ! 0 \<in> set bs"
        using word_byte_immediate [OF ascii(4), of 1] bs by (auto simp: nth_append)
      moreover have "word_byte (immediate_bits bs) 1 = 0xFF" using h by simp
      ultimately show False using utf8_no_pad [OF assms(1)] by simp
    qed
  next
    assume r: "r = []"
    show "\<forall>i. 1 \<le> i \<and> i < 7 \<longrightarrow> word_byte (immediate_bits bs) i = 0xFF"
      using word_byte_immediate [OF ascii(4)] by (auto simp: bs r nth_append nth_Cons split: nat.splits)
  qed
  moreover have "length bs = Suc (length r)" using bs by simp
  ultimately show ?thesis using nb ucast_and_80 [of b] immediate_bits_flag [OF ascii(4)] ascii(3)
    by (simp add: taggedStringIsChar_def byte_and_FF lo Let_def all_ones_iff)
next
  case (char a r)
  have l: "length bs \<le> 7" using char(4) by (simp add: utf8_len_def split: if_splits)
  then have lo: "word_byte (immediate_bits bs) 0 = a" using immediate_lo_byte char(1) by simp
  have "0x80 \<le> a" using char(2) by (simp add: word_le_nat_alt)
  moreover have "a \<noteq> 0xFF" using char(3) by auto
  ultimately show ?thesis using ucast_and_80 [of a] immediate_bits_flag [OF l] char(5)
    by (simp add: taggedStringIsChar_def byte_and_FF lo ucast_FF Let_def)
qed

section \<open>Heap strings\<close>

lemma take_word_bytes_bit:
  assumes "take k (word_bytes v) = take k (word_bytes w)" "n < 8 * k" "n < 64"
  shows "bit v n = bit w n"
proof -
  have i: "n div 8 < k" "n div 8 < 8" using assms(2,3) by (simp_all add: less_mult_imp_div_less mult.commute)
  then have "word_bytes v ! (n div 8) = word_bytes w ! (n div 8)"
    using assms(1) by (metis nth_take)
  then have "word_byte v (n div 8) = word_byte w (n div 8)" using i by simp
  then have "bit (word_byte v (n div 8)) (n mod 8) = bit (word_byte w (n div 8)) (n mod 8)" by simp
  then show ?thesis by (simp add: bit_word_byte)
qed

lemma length_small: "\<not> immediate_rep bs \<Longrightarrow> bs \<noteq> []"
  by (auto simp: immediate_rep_def)

lemma medium_words_nonempty [simp]: "0 < length (medium_words bs)" "medium_words bs \<noteq> []"
  using length_medium_words [of bs] by (auto simp: div_greater_zero_iff)

lemma word_bytes_medium_0: "word_bytes (medium_words bs ! 0) = medium_header bs @ take 4 (bs @ replicate (pad8 (length bs + 4)) 0)"
  using nth_mem_word [of 0 "medium_words bs"] medium_words_nonempty(1) [of bs] by simp

lemma bit_medium_word_0:
  assumes "n < 32"
  shows "bit (medium_words bs ! 0) n = bit (word_of_nat (length bs) OR push_bit 16 (word_of_nat (code_points bs)) :: u64) n"
proof (rule take_word_bytes_bit)
  show "take 4 (word_bytes (medium_words bs ! 0)) =
        take 4 (word_bytes (word_of_nat (length bs) OR push_bit 16 (word_of_nat (code_points bs))))"
    unfolding word_bytes_medium_0 medium_header_def by simp
qed (use assms in simp_all)

lemma uint_and_mask16: "uint (w AND 0xFFFF :: u64) = uint w mod 65536"
proof -
  have m: "(0xFFFF :: u64) = mask 16" by (simp add: mask_eq_exp_minus_1)
  show ?thesis unfolding m take_bit_eq_mask [symmetric] unsigned_take_bit_eq by (simp add: take_bit_eq_mod)
qed

lemma bit_of_nat_small: "(n :: nat) < 2 ^ k \<Longrightarrow> bit n i \<Longrightarrow> i < k"
  using bit_take_bit_iff [of k n i] take_bit_nat_eq_self_iff [of k n] by auto

lemma medium_word_0_length:
  assumes "length bs \<le> 0xFFFF"
  shows "medium_words bs ! 0 AND 0xFFFF = word_of_nat (length bs)"
proof (rule bit_word_eqI)
  fix n assume n: "n < LENGTH(64)"
  have m: "(0xFFFF :: u64) = mask 16" by (simp add: mask_eq_exp_minus_1)
  have l: "bit (length bs) n \<Longrightarrow> n < 16" by (rule bit_of_nat_small [of "length bs" 16]) (use assms in simp_all)
  show "bit (medium_words bs ! 0 AND 0xFFFF) n = bit (word_of_nat (length bs) :: u64) n"
    unfolding m using n l bit_medium_word_0 [of n bs] by (auto simp: bit_simps)
qed

lemma medium_word_0_cp:
  assumes "length bs \<le> 0xFFFF"
  shows "drop_bit 16 (medium_words bs ! 0) AND 0xFFFF = word_of_nat (code_points bs)"
proof (rule bit_word_eqI)
  fix n assume n: "n < LENGTH(64)"
  have m: "(0xFFFF :: u64) = mask 16" by (simp add: mask_eq_exp_minus_1)
  have l: "bit (length bs) i \<Longrightarrow> i < 16" for i by (rule bit_of_nat_small [of "length bs" 16]) (use assms in simp_all)
  have c: "bit (code_points bs) n \<Longrightarrow> n < 16"
    by (rule bit_of_nat_small [of "code_points bs" 16]) (use assms code_points_le [of bs] in simp_all)
  show "bit (drop_bit 16 (medium_words bs ! 0) AND 0xFFFF) n = bit (word_of_nat (code_points bs) :: u64) n"
    unfolding m using n c l [of "16 + n"] bit_medium_word_0 [of "16 + n" bs] by (auto simp: bit_simps)
qed

lemma uint_small: "n < 2 ^ 63 \<Longrightarrow> uint (word_of_nat n :: u64) = int n" "n < 2 ^ 63 \<Longrightarrow> sint (word_of_nat n :: u64) = int n"
proof -
  assume n: "n < 2 ^ 63"
  then have i: "int n < 2 ^ 63" by (simp add: zless_nat_eq_int_zless flip: of_nat_power)
  show "uint (word_of_nat n :: u64) = int n" using i by (simp add: unsigned_of_nat take_bit_nat_eq_self_iff n)
  have "sint (word_of_int (int n) :: u64) = int n"
    using i by (simp only: sint_sbintrunc') (simp add: signed_take_bit_int_eq_self)
  then show "sint (word_of_nat n :: u64) = int n" by simp
qed

lemma large_words_length [simp]: "Suc 0 < length (large_words bs)" "large_words bs \<noteq> []"
  using length_large_words [of bs] by auto

lemma large_words_hdr:
  "large_words bs ! 0 = word_of_nat (length bs)" "large_words bs ! 1 = word_of_nat (code_points bs)"
  using nth_mem_word [of 0 "large_words bs"] nth_mem_word [of 1 "large_words bs"] large_words_length (1) [of bs]
  by (simp_all add: large_header_def word_bytes_inj)

lemma and_1_bit: "(w :: u64) AND 1 = 0 \<longleftrightarrow> \<not> bit w 0"
  by (simp add: and_one_eq bit_0 odd_iff_mod_2_eq_one even_iff_mod_2_eq_zero)

lemma string_tag_flags:
  assumes "heap_addr p"
  shows "ptrAddFlags p (shifted_tag TAG_STRING) AND IMMEDIATE_FLAG = 0"
    "ptrAddFlags p (shifted_tag TAG_STRING OR STRING_LARGE_FLAG) AND IMMEDIATE_FLAG = 0"
    "ptrAddFlags p (shifted_tag TAG_STRING) AND STRING_LARGE_FLAG = 0"
    "ptrAddFlags p (shifted_tag TAG_STRING OR STRING_LARGE_FLAG) AND STRING_LARGE_FLAG \<noteq> 0"
    "taggedToPtr (ptrAddFlags p (shifted_tag TAG_STRING)) = p"
    "taggedToPtr (ptrAddFlags p (shifted_tag TAG_STRING OR STRING_LARGE_FLAG)) = p"
proof -
  have z: "shifted_tag TAG_STRING = shifted_tag TAG_STRING OR 0" by simp
  note imm = immediate_ptrAddFlags [OF assms, of _ TAG_STRING] and ptr = taggedToPtr_ptrAddFlags [OF assms, of _ TAG_STRING]
  show "ptrAddFlags p (shifted_tag TAG_STRING) AND IMMEDIATE_FLAG = 0"
    using imm [of 0] by (simp add: is_immediate_def)
  show "ptrAddFlags p (shifted_tag TAG_STRING OR STRING_LARGE_FLAG) AND IMMEDIATE_FLAG = 0"
    using imm [of 1] by (simp add: is_immediate_def STRING_LARGE_FLAG_def)
  show "taggedToPtr (ptrAddFlags p (shifted_tag TAG_STRING)) = p" using ptr [of 0] by simp
  show "taggedToPtr (ptrAddFlags p (shifted_tag TAG_STRING OR STRING_LARGE_FLAG)) = p"
    using ptr [of 1] by (simp add: STRING_LARGE_FLAG_def)
  show "ptrAddFlags p (shifted_tag TAG_STRING) AND STRING_LARGE_FLAG = 0"
    using heap_addr_bit [OF assms, of 0]
    by (auto simp: STRING_LARGE_FLAG_def and_1_bit ptrAddFlags_def bit_or_iff bit_shifted_tag)
  show "ptrAddFlags p (shifted_tag TAG_STRING OR STRING_LARGE_FLAG) AND STRING_LARGE_FLAG \<noteq> 0"
    by (simp add: STRING_LARGE_FLAG_def and_1_bit ptrAddFlags_def bit_or_iff)
qed

lemma str_rep_cases:
  assumes "str_rep s tp bs"
  obtains (immediate) "immediate_rep bs" "tp = immediate_bits bs" "tp AND IMMEDIATE_FLAG \<noteq> 0"
    | (medium) "\<not> immediate_rep bs" "length bs \<le> 0xFFFF" "tp AND IMMEDIATE_FLAG = 0" "tp AND STRING_LARGE_FLAG = 0"
        "heap_words (taggedToPtr tp) s = Inr (medium_words bs)"
    | (large) "\<not> immediate_rep bs" "0xFFFF < length bs" "tp AND IMMEDIATE_FLAG = 0" "tp AND STRING_LARGE_FLAG \<noteq> 0"
        "heap_words (taggedToPtr tp) s = Inr (large_words bs)"
proof (cases "immediate_rep bs")
  case True
  moreover have "tp = immediate_bits bs" "utf8 bs" using assms True by (simp_all add: str_rep_def)
  ultimately show thesis using immediate immediate_bits_flag immediate_length by blast
next
  case False
  show thesis
  proof (cases "length bs \<le> 0xFFFF")
    case True
    with False assms obtain p where p: "heap_addr p" "tp = ptrAddFlags p (shifted_tag TAG_STRING)"
      "heap s p = Some (ObjString (medium_words bs))" by (auto simp: str_rep_def)
    show thesis
      using False True string_tag_flags [OF p(1)] p(3) by (intro medium) (simp_all add: p(2) heap_words_def)
  next
    case lg: False
    with False assms obtain p where p: "heap_addr p" "tp = ptrAddFlags p (shifted_tag TAG_STRING OR STRING_LARGE_FLAG)"
      "heap s p = Some (ObjString (large_words bs))" by (auto simp: str_rep_def)
    show thesis
      using False lg string_tag_flags [OF p(1)] p(3) by (intro large) (simp_all add: p(2) heap_words_def)
  qed
qed

lemma str_repD: "str_rep s tp bs \<Longrightarrow> utf8 bs" "str_rep s tp bs \<Longrightarrow> length bs < 2 ^ 62"
  by (simp_all add: str_rep_def)

lemma taggedStringLength_rep:
  assumes "str_rep s tp bs"
  shows "taggedStringLength tp s = Inr \<lparr>nBytes = int (length bs), nCodePoints = int (code_points bs)\<rparr>"
  using assms
proof (cases rule: str_rep_cases)
  case immediate
  then show ?thesis
    using immediateStringLength_rep str_repD(1) [OF assms] by (simp add: taggedStringLength_def)
next
  case medium
  have "int (length bs) < 2 ^ 63" "int (code_points bs) < 2 ^ 63"
    using medium(2) code_points_le [of bs] by simp_all
  then show ?thesis
    using medium medium_word_0_length [OF medium(2)] medium_word_0_cp [OF medium(2)] uint_small(1)
    by (simp add: taggedStringLength_def word_at_def mediumLengthInBytes_def mediumLengthInCodePoints_def)
next
  case large
  have "length bs < 2 ^ 63" "code_points bs < 2 ^ 63"
    using str_repD(2) [OF assms] code_points_le [of bs] by simp_all
  then show ?thesis
    using large large_words_hdr [of bs] uint_small(2) by (simp add: taggedStringLength_def word_at_def)
qed

lemma taggedStringBytes_rep:
  assumes "str_rep s tp bs"
  shows "\<exists>rest. taggedStringBytes tp s = Inr (bs @ rest)"
  using assms
proof (cases rule: str_rep_cases)
  case immediate
  then show ?thesis
    using word_bytes_immediate immediate_length [OF str_repD(1) [OF assms]] by (auto simp: taggedStringBytes_def)
qed (simp_all add: taggedStringBytes_def)

lemma taggedStringBytes_at:
  assumes "str_rep s tp bs" "n \<le> length bs"
  shows "bindR (taggedStringBytes tp s) (\<lambda>b. bytes_at b (int n)) = Inr (take n bs)"
  using taggedStringBytes_rep [OF assms(1)] assms(2) by (auto simp: bytes_at_def)

lemma taggedStringIsChar_rep:
  assumes "str_rep s tp bs"
  shows "taggedStringIsChar tp \<longleftrightarrow> code_points bs = 1"
  using assms
proof (cases rule: str_rep_cases)
  case immediate
  then show ?thesis using taggedStringIsChar_immediate str_repD(1) [OF assms] by simp
next
  case medium
  then show ?thesis by (auto simp: taggedStringIsChar_def immediate_rep_def)
next
  case large
  then show ?thesis by (auto simp: taggedStringIsChar_def immediate_rep_def)
qed

section \<open>Allocating and filling a string\<close>

text \<open>The idiom \<open>memcpy(_bal_string_alloc(n, c, &result), bytes, n)\<close>.\<close>

definition make_string :: "byte list \<Rightarrow> rt \<Rightarrow> fault + tagged \<times> rt" where
  "make_string bs s =
     bindR (bal_string_alloc (int (length bs)) (int (code_points bs)) s) (\<lambda>(tp, s1). string_memcpy 0 bs tp s1)"

lemma word_bytes_0: "word_bytes 0 = replicate 8 0"
  by (rule nth_equalityI) (auto simp: word_byte_def)

lemma drop_last_zero:
  assumes "ws \<noteq> []" "last ws = 0" "8 * (length ws - 1) \<le> k"
  shows "drop k (mem_bytes ws) = replicate (8 * length ws - k) 0"
proof -
  obtain vs where ws: "ws = vs @ [0]" using assms(1,2) by (metis append_butlast_last_id)
  then have "mem_bytes ws = mem_bytes vs @ replicate 8 0" by (simp add: word_bytes_0)
  with assms(3) ws show ?thesis by simp
qed

lemma fresh_words_simps [simp]:
  "length (fresh_words n s) = n"
  "0 < n \<Longrightarrow> last (fresh_words n s) = 0"
  "0 < n \<Longrightarrow> fresh_words n s \<noteq> []"
  by (auto simp: fresh_words_def last_conv_nth)

lemma word_of_int_int: "word_of_int (int n) = (word_of_nat n :: u64)"
  by simp

lemma medium_fresh_bytes:
  fixes bs :: "byte list" and s :: rt
  defines "n \<equiv> (length bs + 11) div 8"
  defines "h \<equiv> (fresh_words n s ! 0 AND NOT 0xFFFFFFFF) OR (word_of_int (int (length bs)) AND 0xFFFF) OR
                  push_bit 16 (word_of_int (int (code_points bs)) AND 0xFFFF)"
  assumes len: "length bs \<le> 0xFFFF"
  shows "take 4 (mem_bytes ((fresh_words n s)[0 := h])) = medium_header bs"
    and "drop (4 + length bs) (mem_bytes ((fresh_words n s)[0 := h])) = replicate (pad8 (length bs + 4)) 0"
    and "length (mem_bytes ((fresh_words n s)[0 := h])) = 4 + length bs + pad8 (length bs + 4)"
proof -
  let ?ws = "(fresh_words n s)[0 := h]"
  let ?hw = "word_of_nat (length bs) OR push_bit 16 (word_of_nat (code_points bs)) :: u64"
  have n0: "0 < n" by (simp add: n_def div_greater_zero_iff)
  have tot: "8 * n = 4 + length bs + pad8 (length bs + 4)"
    using pad8_dvd [of "length bs + 4"] by (simp add: n_def add.commute)
  have m: "(0xFFFF :: u64) = mask 16" "(0xFFFFFFFF :: u64) = mask 32" by (simp_all add: mask_eq_exp_minus_1)
  have l: "bit (length bs) i \<Longrightarrow> i < 16" for i by (rule bit_of_nat_small [of "length bs" 16]) (use len in simp_all)
  have c: "bit (code_points bs) i \<Longrightarrow> i < 16" for i
    by (rule bit_of_nat_small [of "code_points bs" 16]) (use len code_points_le [of bs] in simp_all)
  have hb: "bit h i \<longleftrightarrow> (if i < 32 then bit ?hw i else bit (fresh_words n s ! 0) i)" for i
    unfolding h_def m word_of_int_int using l [of i] c [of "i - 16"] by (auto simp: bit_simps dest: bit_u64_ge)
  have wb: "mem_bytes ?ws = word_bytes h @ mem_bytes (tl (fresh_words n s))"
    using n0 by (cases "fresh_words n s") (auto simp: fresh_words_simps(3))
  have "take 4 (word_bytes h) = take 4 (word_bytes ?hw)"
  proof (rule nth_equalityI)
    fix i assume "i < length (take 4 (word_bytes h))"
    then have i: "i < 4" by simp
    have "word_byte h i = word_byte ?hw i"
      using i by (intro bit_word_eqI) (simp add: bit_word_byte hb)
    with i show "take 4 (word_bytes h) ! i = take 4 (word_bytes ?hw) ! i" by simp
  qed simp
  then show "take 4 (mem_bytes ?ws) = medium_header bs" by (simp add: wb medium_header_def)
  show tb: "length (mem_bytes ?ws) = 4 + length bs + pad8 (length bs + 4)" using tot by simp
  show "drop (4 + length bs) (mem_bytes ?ws) = replicate (pad8 (length bs + 4)) 0"
  proof (cases "n = 1")
    case True
    then have f: "fresh_words n s = [0]" by (simp add: fresh_words_def)
    have "drop 4 (word_bytes h) = replicate 4 0"
    proof (rule nth_equalityI)
      fix i assume "i < length (drop 4 (word_bytes h))"
      then have i: "i < 4" by simp
      have "word_byte h (4 + i) = 0" by (rule bit_word_eqI) (simp add: bit_word_byte hb f)
      with i show "drop 4 (word_bytes h) ! i = replicate 4 0 ! i" by simp
    qed simp
    then have "drop (length bs) (drop 4 (mem_bytes ?ws)) = drop (length bs) (replicate 4 0)" by (simp add: wb f)
    then show ?thesis using tot True by (simp add: add.commute)
  next
    case False
    then have "last ?ws = 0" "?ws \<noteq> []"
      using n0 fresh_words_simps(2) [OF n0, of s] by (auto simp: last_list_update)
    moreover have "8 * (n - 1) \<le> 4 + length bs" using tot n0 by (simp add: pad8_def)
    ultimately show ?thesis using drop_last_zero [of ?ws "4 + length bs"] tot by simp
  qed
qed

lemma large_fresh_bytes:
  fixes bs :: "byte list" and s :: rt
  defines "n \<equiv> (length bs + 23) div 8"
  defines "ws \<equiv> (fresh_words n s)[0 := word_of_int (int (length bs)), 1 := word_of_int (int (code_points bs))]"
  assumes len: "bs \<noteq> []"
  shows "take 16 (mem_bytes ws) = large_header bs"
    and "drop (16 + length bs) (mem_bytes ws) = replicate (pad8 (length bs)) 0"
    and "length (mem_bytes ws) = 16 + length bs + pad8 (length bs)"
proof -
  have n2: "2 < n"
  proof -
    have "24 \<le> length bs + 23" using len by (cases bs) simp_all
    then have "24 div 8 \<le> (length bs + 23) div 8" by (rule div_le_mono)
    then show ?thesis by (simp add: n_def)
  qed
  have "(length bs + 23) div 8 = (length bs + 7) div 8 + 2" by simp
  then have tot: "8 * n = 16 + length bs + pad8 (length bs)"
    using pad8_dvd [of "length bs"] by (simp add: n_def)
  have fl: "length (fresh_words n s) = n" by simp
  then obtain a b r where f: "fresh_words n s = a # b # r"
    using n2 by (cases "fresh_words n s"; cases "tl (fresh_words n s)") auto
  have wb: "mem_bytes ws = large_header bs @ mem_bytes r"
    by (simp add: ws_def f large_header_def)
  show "take 16 (mem_bytes ws) = large_header bs" by (simp add: wb)
  show "length (mem_bytes ws) = 16 + length bs + pad8 (length bs)" using tot by (simp add: ws_def)
  have "length r + 2 = n" using fl by (simp add: f)
  then have "r \<noteq> []" using n2 by auto
  then have "last ws = 0" "ws \<noteq> []" "length ws = n"
    using fresh_words_simps(2) [of n s] n2 fl by (simp_all add: ws_def f)
  moreover have "8 * (n - 1) \<le> 16 + length bs" using tot n2 by (simp add: pad8_def)
  ultimately show "drop (16 + length bs) (mem_bytes ws) = replicate (pad8 (length bs)) 0"
    using drop_last_zero [of ws "16 + length bs"] tot by simp
qed

lemma empty_string_bits: "IMMEDIATE_FLAG OR shifted_tag TAG_STRING OR (push_bit (7 * 8) 1 - 1) = immediate_bits []"
proof -
  have "immediate_bits [] = 0x25FFFFFFFFFFFFFF"
    by code_simp
  then show ?thesis by (simp add: IMMEDIATE_FLAG_def shifted_tag_def)
qed

lemma make_string_immediate:
  assumes "utf8 bs" "immediate_rep bs"
  shows "make_string bs s = Inr (immediate_bits bs, s)"
proof -
  have len: "length bs \<le> 7" using assms by (rule immediate_length)
  have a: "bal_string_alloc (int (length bs)) (int (code_points bs)) s = Inr (immediate_bits [], s)"
    using assms(2) unfolding bal_string_alloc_def immediate_rep_def empty_string_bits by auto
  have "drop (length bs) (replicate 7 0xFF @ [0x25 :: byte]) = replicate (7 - length bs) 0xFF @ [0x25]"
    using len by simp
  then have "splice 0 bs (word_bytes (immediate_bits [])) = Inr (bs @ replicate (7 - length bs) 0xFF @ [0x25])"
    using len word_bytes_immediate [of "[]"] by (simp add: splice_def)
  then show ?thesis using immediate_bits_flag [of "[]"]
    by (simp add: make_string_def a string_memcpy_def immediate_bits_def [of bs])
qed

lemma make_string_medium:
  assumes "\<not> immediate_rep bs" "length bs \<le> 0xFFFF" "wf_rt s" "pool s = p # ps" "p \<noteq> 0"
  shows "make_string bs s = Inr (ptrAddFlags p (shifted_tag TAG_STRING),
           store p (ObjString (medium_words bs)) (s\<lparr>pool := ps\<rparr>))"
proof -
  have p: "heap_addr p" using assms(3-5) by (simp add: wf_rt_def)
  define n where "n = (length bs + 11) div 8"
  have sz: "nat (mediumStringSize (int (length bs)) div 8) = n"
    by (simp add: medium_nInts n_def)
  define h where "h = (fresh_words n s ! 0 AND NOT 0xFFFFFFFF) OR (word_of_int (int (length bs)) AND 0xFFFF) OR
                  push_bit 16 (word_of_int (int (code_points bs)) AND 0xFFFF)"
  note fb = medium_fresh_bytes [OF assms(2), of s, folded n_def, folded h_def]
  let ?ws = "(fresh_words n s)[0 := h]"
  have a: "bal_string_alloc (int (length bs)) (int (code_points bs)) s =
      Inr (ptrAddFlags p (shifted_tag TAG_STRING), store p (ObjString ?ws) (s\<lparr>pool := ps\<rparr>))"
    using assms(1,2) alloc_obj_succeeds [OF assms(4,5)]
    by (simp only: bal_string_alloc_def immediate_rep_def sz Let_def h_def) auto
  have "splice 4 bs (mem_bytes ?ws) = Inr (medium_header bs @ bs @ replicate (pad8 (length bs + 4)) 0)"
    using fb by (simp add: splice_def)
  then have "string_memcpy 0 bs (ptrAddFlags p (shifted_tag TAG_STRING)) (store p (ObjString ?ws) (s\<lparr>pool := ps\<rparr>)) =
     Inr (ptrAddFlags p (shifted_tag TAG_STRING),
          store p (ObjString (medium_words bs)) (store p (ObjString ?ws) (s\<lparr>pool := ps\<rparr>)))"
    by (simp add: string_memcpy_def string_tag_flags [OF p, unfolded TAG_STRING_def] heap_words_def medium_words_def)
  then show ?thesis by (simp add: make_string_def a store_def)
qed

lemma make_string_large:
  assumes "\<not> immediate_rep bs" "0xFFFF < length bs" "length bs < 2 ^ 62" "wf_rt s" "pool s = p # ps" "p \<noteq> 0"
  shows "make_string bs s = Inr (ptrAddFlags p (shifted_tag TAG_STRING OR STRING_LARGE_FLAG),
           store p (ObjString (large_words bs)) (s\<lparr>pool := ps\<rparr>))"
proof -
  have p: "heap_addr p" using assms(4-6) by (simp add: wf_rt_def)
  define n where "n = (length bs + 23) div 8"
  have sz: "nat (uint (largeStringSize (int (length bs))) div 8) = n"
    using assms(3) by (simp add: large_nInts n_def)
  define ws where "ws = (fresh_words n s)[0 := word_of_int (int (length bs)), 1 := word_of_int (int (code_points bs))]"
  have "bs \<noteq> []" using assms(2) by auto
  note fb = large_fresh_bytes [OF this, of s, folded n_def, folded ws_def]
  have l: "\<not> int (length bs) \<le> 65535" "\<not> INT64_MAX < int (length bs)" using assms(2,3) by simp_all
  have a: "bal_string_alloc (int (length bs)) (int (code_points bs)) s =
      Inr (ptrAddFlags p (shifted_tag TAG_STRING OR STRING_LARGE_FLAG), store p (ObjString ws) (s\<lparr>pool := ps\<rparr>))"
    using assms(1) l alloc_obj_succeeds [OF assms(5,6)]
    by (simp only: bal_string_alloc_def immediate_rep_def sz Let_def ws_def) auto
  have "splice 16 bs (mem_bytes ws) = Inr (large_header bs @ bs @ replicate (pad8 (length bs)) 0)"
    using fb by (simp add: splice_def)
  then have "string_memcpy 0 bs (ptrAddFlags p (shifted_tag TAG_STRING OR STRING_LARGE_FLAG)) (store p (ObjString ws) (s\<lparr>pool := ps\<rparr>)) =
     Inr (ptrAddFlags p (shifted_tag TAG_STRING OR STRING_LARGE_FLAG),
          store p (ObjString (large_words bs)) (store p (ObjString ws) (s\<lparr>pool := ps\<rparr>)))"
    by (simp add: string_memcpy_def string_tag_flags [OF p, unfolded TAG_STRING_def] heap_words_def large_words_def)
  then show ?thesis by (simp add: make_string_def a store_def)
qed

lemma str_rep_immediateI: "utf8 bs \<Longrightarrow> immediate_rep bs \<Longrightarrow> str_rep s (immediate_bits bs) bs"
  using immediate_length [of bs] by (simp add: str_rep_def)

lemma store_fresh_wf:
  assumes "wf_rt s" "pool s = p # ps" "p \<noteq> 0"
  shows "wf_rt (store p x (s\<lparr>pool := ps\<rparr>))" "heap_addr p" "heap s p = None"
  using alloc_obj_ok [OF assms(1) alloc_obj_succeeds [OF assms(2,3)]] by simp_all

text \<open>
  Making a string either runs out of memory or produces the representation of its bytes, without
  touching what the heap held before.
\<close>

lemma make_string_rep:
  assumes "wf_rt s" "utf8 bs" "length bs < 2 ^ 62"
  shows "case make_string bs s of
           Inl e \<Rightarrow> e = OutOfMemory \<and> (pool s = [] \<or> hd (pool s) = 0)
         | Inr (tp, s1) \<Rightarrow> str_rep s1 tp bs \<and> wf_rt s1 \<and> heap s \<subseteq>\<^sub>m heap s1 \<and> img s1 = img s"
proof (cases "immediate_rep bs")
  case True
  then show ?thesis using assms make_string_immediate str_rep_immediateI by simp
next
  case False
  show ?thesis
  proof (cases "\<exists>p ps. pool s = p # ps \<and> p \<noteq> 0")
    case True
    then obtain p ps where pool: "pool s = p # ps" "p \<noteq> 0" by blast
    note st = store_fresh_wf [OF assms(1) pool]
    show ?thesis
    proof (cases "length bs \<le> 0xFFFF")
      case True
      then show ?thesis
        using False make_string_medium [OF False True assms(1) pool] st assms(2,3)
        by (auto simp: str_rep_def map_le_def)
    next
      case lg: False
      then show ?thesis
        using False make_string_large [OF False _ assms(3,1) pool] st assms(2,3)
        by (auto simp: str_rep_def map_le_def)
    qed
  next
    case np: False
    then have "bal_alloc n s = Inl OutOfMemory" for n
      by (auto simp: bal_alloc_def split: list.splits)
    moreover have "\<not> INT64_MAX < int (length bs)" using assms(3) by simp
    ultimately have "make_string bs s = Inl OutOfMemory"
      using False by (auto simp: make_string_def bal_string_alloc_def alloc_obj_def immediate_rep_def Let_def)
    then show ?thesis using np by (cases "pool s") auto
  qed
qed

section \<open>Equality\<close>

lemma words_eq_full: "length xs = n \<Longrightarrow> length ys = n \<Longrightarrow> words_eq xs ys n = Inr (xs = ys)"
proof (induction n arbitrary: xs ys)
  case 0
  then show ?case by simp
next
  case (Suc n)
  then obtain x xs' y ys' where "xs = x # xs'" "ys = y # ys'" by (metis length_Suc_conv)
  with Suc show ?case by auto
qed

lemma str_rep_unique:
  assumes "str_rep s tp bs1" "str_rep s tp bs2"
  shows "bs1 = bs2"
proof -
  have len: "length bs1 = length bs2"
    using taggedStringLength_rep [OF assms(1)] taggedStringLength_rep [OF assms(2)] by simp
  obtain r1 r2 where r: "taggedStringBytes tp s = Inr (bs1 @ r1)" "taggedStringBytes tp s = Inr (bs2 @ r2)"
    using taggedStringBytes_rep [OF assms(1)] taggedStringBytes_rep [OF assms(2)] by blast
  then have "bs1 @ r1 = bs2 @ r2" by simp
  with len show ?thesis by simp
qed

lemma medium_words_inj: "length bs1 = length bs2 \<Longrightarrow> medium_words bs1 = medium_words bs2 \<longleftrightarrow> bs1 = bs2"
  using mem_medium_words [of bs1] mem_medium_words [of bs2] by (metis append_eq_append_conv length_medium_header)

lemma large_words_inj: "length bs1 = length bs2 \<Longrightarrow> large_words bs1 = large_words bs2 \<longleftrightarrow> bs1 = bs2"
  using mem_large_words [of bs1] mem_large_words [of bs2] by (metis append_eq_append_conv length_large_header)

lemma drop1_eq: "xs \<noteq> [] \<Longrightarrow> ys \<noteq> [] \<Longrightarrow> xs ! 0 = ys ! 0 \<Longrightarrow> drop 1 xs = drop 1 ys \<longleftrightarrow> xs = ys"
  by (cases xs; cases ys) auto

lemma word_of_nat_inj: "m < 2 ^ 62 \<Longrightarrow> n < 2 ^ 62 \<Longrightarrow> (word_of_nat m :: u64) = word_of_nat n \<longleftrightarrow> m = n"
proof
  assume mn: "m < 2 ^ 62" "n < 2 ^ 62" and e: "(word_of_nat m :: u64) = word_of_nat n"
  have "m < 2 ^ 63" "n < 2 ^ 63" using mn by simp_all
  note u = uint_small(1) [OF this(1)] uint_small(1) [OF this(2)]
  have "uint (word_of_nat m :: u64) = uint (word_of_nat n :: u64)" using e by (rule arg_cong)
  then show "m = n" unfolding u by simp
qed simp

lemma heap_eq_medium:
  assumes "length bs1 \<le> 0xFFFF" "length bs2 \<le> 0xFFFF"
    and "heap_words (taggedToPtr tp1) s = Inr (medium_words bs1)" "tp1 AND STRING_LARGE_FLAG = 0"
    and "heap_words (taggedToPtr tp2) s = Inr (medium_words bs2)" "tp2 AND STRING_LARGE_FLAG = 0"
  shows "bal_string_heap_eq tp1 tp2 s = Inr (bs1 = bs2)"
proof (cases "medium_words bs1 ! 0 = medium_words bs2 ! 0")
  case True
  then have "(word_of_nat (length bs1) :: u64) = word_of_nat (length bs2)"
    using medium_word_0_length [OF assms(1)] medium_word_0_length [OF assms(2)] by simp
  then have len: "length bs1 = length bs2" using assms(1,2) word_of_nat_inj by simp
  have l: "mediumLengthInBytes (medium_words bs2 ! 0) = int (length bs1)"
    using medium_word_0_length [OF assms(2)] uint_small(1) [of "length bs2"] assms(2) len
    by (simp add: mediumLengthInBytes_def)
  have "words_eq (drop 1 (medium_words bs1)) (drop 1 (medium_words bs2)) ((length bs1 + 11) div 8 - 1) =
        Inr (drop 1 (medium_words bs1) = drop 1 (medium_words bs2))"
    by (rule words_eq_full) (simp_all add: length_medium_words len)
  then show ?thesis
    using assms(3-6) True len medium_words_inj [OF len] drop1_eq [of "medium_words bs1" "medium_words bs2"]
    by (simp add: bal_string_heap_eq_def word_at_def l medium_nInts)
next
  case False
  with assms(3,5) show ?thesis by (auto simp: bal_string_heap_eq_def word_at_def)
qed

lemma heap_eq_large:
  assumes "length bs1 < 2 ^ 62" "length bs2 < 2 ^ 62"
    and "heap_words (taggedToPtr tp1) s = Inr (large_words bs1)" "tp1 AND STRING_LARGE_FLAG \<noteq> 0"
    and "heap_words (taggedToPtr tp2) s = Inr (large_words bs2)" "tp2 AND STRING_LARGE_FLAG \<noteq> 0"
  shows "bal_string_heap_eq tp1 tp2 s = Inr (bs1 = bs2)"
proof (cases "large_words bs1 ! 0 = large_words bs2 ! 0")
  case True
  then have len: "length bs1 = length bs2"
    using large_words_hdr(1) [of bs1] large_words_hdr(1) [of bs2] assms(1,2) word_of_nat_inj by simp
  have l: "sint (large_words bs2 ! 0) = int (length bs1)"
    using large_words_hdr(1) [of bs2] uint_small(2) [of "length bs2"] assms(2) len by simp
  have "words_eq (drop 1 (large_words bs1)) (drop 1 (large_words bs2)) ((length bs1 + 23) div 8 - 1) =
        Inr (drop 1 (large_words bs1) = drop 1 (large_words bs2))"
    by (rule words_eq_full) (simp_all add: length_large_words len)
  then show ?thesis
    using assms(3-6) True len large_words_inj [OF len] drop1_eq [of "large_words bs1" "large_words bs2"]
    by (simp add: bal_string_heap_eq_def word_at_def l large_nInts [OF assms(2)])
next
  case False
  with assms(3,5) show ?thesis by (auto simp: bal_string_heap_eq_def word_at_def)
qed

lemma taggedStringEqual_rep:
  assumes r1: "str_rep s tp1 bs1" and r2: "str_rep s tp2 bs2"
  shows "taggedStringEqual tp1 tp2 s = Inr (bs1 = bs2)"
proof (cases "tp1 = tp2")
  case True
  then show ?thesis using str_rep_unique r1 r2 by (auto simp: taggedStringEqual_def)
next
  case ne: False
  note len = str_repD(2) [OF r1] str_repD(2) [OF r2]
  show ?thesis
    using r1
  proof (cases rule: str_rep_cases)
    case immediate
    have "bs1 \<noteq> bs2" using ne r2 immediate by (auto simp: str_rep_def)
    then show ?thesis using ne immediate by (simp add: taggedStringEqual_def)
  next
    case m1: medium
    from r2 show ?thesis
    proof (cases rule: str_rep_cases)
      case immediate
      then show ?thesis using ne m1 by (auto simp: taggedStringEqual_def)
    next
      case medium
      then show ?thesis using ne m1 heap_eq_medium by (auto simp: taggedStringEqual_def)
    next
      case large
      then show ?thesis using ne m1 by (auto simp: taggedStringEqual_def bal_string_heap_eq_def word_at_def)
    qed
  next
    case l1: large
    from r2 show ?thesis
    proof (cases rule: str_rep_cases)
      case immediate
      then show ?thesis using ne l1 by (auto simp: taggedStringEqual_def)
    next
      case medium
      then show ?thesis using ne l1 by (auto simp: taggedStringEqual_def bal_string_heap_eq_def word_at_def)
    next
      case large
      then show ?thesis using ne l1 heap_eq_large [OF len] by (auto simp: taggedStringEqual_def)
    qed
  qed
qed

section \<open>Comparison\<close>

text \<open>
  Immediate strings: the first byte in which two words differ decides, and a 0xFF byte is the end
  of a string.
\<close>

lemma first_difference:
  assumes "length as = length bs" "as \<noteq> bs"
  obtains i where "i < length as" "take i as = take i bs" "as ! i \<noteq> bs ! i"
proof -
  have "\<exists>i. i < length as \<and> as ! i \<noteq> bs ! i" using assms by (metis nth_equalityI)
  then have L: "(LEAST i. i < length as \<and> as ! i \<noteq> bs ! i) < length as \<and>
      as ! (LEAST i. i < length as \<and> as ! i \<noteq> bs ! i) \<noteq> bs ! (LEAST i. i < length as \<and> as ! i \<noteq> bs ! i)"
    (is "?i < _ \<and> _") by (rule LeastI_ex)
  have "take ?i as = take ?i bs"
    using L assms(1) not_less_Least by (intro nth_equalityI) (fastforce simp del: not_less_Least)+
  with L show thesis using that by blast
qed

lemma xor_zero_byte: "(a :: byte) XOR b = 0 \<Longrightarrow> a = b"
  by (rule bit_word_eqI) (metis bit_xor_iff bit_0_eq bot_apply bot_bool_def)

lemma byte_le_FF: "(b :: byte) \<le> 0xFF"
  using unat_byte_less [of b] by (simp add: word_le_nat_alt del: unat_byte_less)

lemma ctz_first_byte:
  assumes "i < 8" "take i (word_bytes v) = take i (word_bytes w)" "word_byte v i \<noteq> word_byte w i"
  shows "int (ctz (v XOR w)) AND NOT 7 = 8 * int i"
proof -
  have "word_byte v i XOR word_byte w i \<noteq> 0" using assms(3) xor_zero_byte by blast
  then obtain k where k: "bit (word_byte v i XOR word_byte w i) k" "\<And>j. j < k \<Longrightarrow> \<not> bit (word_byte v i XOR word_byte w i) j"
    by (rule ex_lowest_bit) blast
  have k8: "k < 8" using bit_byte_ge [OF k(1)] .
  have "ctz (v XOR w) = 8 * i + k"
  proof (rule ctz_eqI)
    show "bit (v XOR w) (8 * i + k)" using k(1) k8 by (simp add: bit_xor_iff bit_word_byte)
  next
    fix j assume j: "j < 8 * i + k"
    show "\<not> bit (v XOR w) j"
    proof (cases "j < 8 * i")
      case True
      then show ?thesis using take_word_bytes_bit [OF assms(2), of j] assms(1) by (simp add: bit_xor_iff)
    next
      case False
      then have "j - 8 * i < k" using j by simp
      from k(2) [OF this] k8 False j show ?thesis by (auto simp: bit_xor_iff bit_word_byte)
    qed
  qed
  then show ?thesis unfolding and_not_7 using k8 by simp
qed

lemma stringCmpImmediate_bytes:
  assumes "i < 8" "take i (word_bytes v) = take i (word_bytes w)" "word_byte v i \<noteq> word_byte w i"
  shows "stringCmpImmediate v w =
     (if word_byte v i < word_byte w i then (if word_byte w i = 0xFF then 1 else - 1)
      else (if word_byte v i = 0xFF then - 1 else 1))"
proof -
  have sh: "nat (int (ctz (v XOR w)) AND NOT 7) = 8 * i"
    unfolding ctz_first_byte [OF assms] by simp
  show ?thesis
    unfolding stringCmpImmediate_def Let_def sh drop_byte_and_FF ucast_byte_less_iff ucast_FF ..
qed

lemma lex_cmp_pad:
  assumes "length as \<le> n" "length bs \<le> n" "0xFF \<notin> set as" "0xFF \<notin> set bs"
    and "i < n" "take i (as @ replicate (n - length as) 0xFF) = take i (bs @ replicate (n - length bs) 0xFF)"
    and "x = (as @ replicate (n - length as) 0xFF) ! i" "y = (bs @ replicate (n - length bs) 0xFF) ! i" "x \<noteq> y"
  shows "lex_cmp as bs = (if x < y then (if y = 0xFF then 1 else - 1) else (if x = 0xFF then - 1 else 1))"
  using assms
proof (induction as arbitrary: bs n i)
  case Nil
  then show ?case
  proof (cases bs)
    case Nil
    then show ?thesis using Nil.prems by simp
  next
    case (Cons b bs')
    have m: "y \<le> 0xFF" by (rule byte_le_FF)
    have "i = 0"
    proof (rule ccontr)
      assume "i \<noteq> 0"
      then have "take 1 (take i (replicate n 0xFF)) = take 1 (take i (b # bs' @ replicate (n - length bs) (0xFF :: byte)))"
        using Nil.prems(6) Cons by simp
      then have "b = 0xFF" using \<open>i \<noteq> 0\<close> Nil.prems(5) by (cases i; cases n) simp_all
      then show False using Nil.prems(4) Cons by simp
    qed
    then have "x = 0xFF" "y = b" using Nil.prems Cons by simp_all
    moreover have "b \<noteq> 0xFF" using Nil.prems(4) Cons by auto
    ultimately show ?thesis using Cons m by (simp add: not_less)
  qed
next
  case (Cons a as)
  have a: "a \<noteq> 0xFF" using Cons.prems(3) by auto
  show ?case
  proof (cases bs)
    case Nil
    have m: "x \<le> 0xFF" by (rule byte_le_FF)
    have "i = 0"
    proof (rule ccontr)
      assume "i \<noteq> 0"
      then have "take 1 (take i (a # as @ replicate (n - length (a # as)) 0xFF)) = take 1 (take i (replicate n (0xFF :: byte)))"
        using Cons.prems(6) Nil by simp
      then have "a = 0xFF" using \<open>i \<noteq> 0\<close> Cons.prems(5) by (cases i; cases n) simp_all
      then show False using a by simp
    qed
    then have "y = 0xFF" "x = a" using Cons.prems Nil by simp_all
    then show ?thesis using Nil a m by (simp add: order.strict_iff_order)
  next
    case (Cons b bs')
    show ?thesis
    proof (cases i)
      case 0
      then have "x = a" "y = b" using Cons.prems(7,8) Cons by simp_all
      moreover have "b \<noteq> 0xFF" using Cons.prems(4) Cons by auto
      ultimately show ?thesis using a Cons Cons.prems(9) by auto
    next
      case (Suc j)
      have "a = b" using Cons.prems(6) Cons Suc by simp
      moreover have "lex_cmp as bs' = (if x < y then (if y = 0xFF then 1 else - 1) else (if x = 0xFF then - 1 else 1))"
        using Cons.prems Cons Suc by (intro Cons.IH [of "n - 1" bs' j]) simp_all
      ultimately show ?thesis using Cons by simp
    qed
  qed
qed

lemma stringCmpImmediate_rep:
  assumes "utf8 as" "utf8 bs" "immediate_rep as" "immediate_rep bs" "immediate_bits as \<noteq> immediate_bits bs"
  shows "stringCmpImmediate (immediate_bits as) (immediate_bits bs) = lex_cmp as bs"
proof -
  have la: "length as \<le> 7" and lb: "length bs \<le> 7" using assms(1-4) immediate_length by blast+
  let ?pa = "as @ replicate (7 - length as) 0xFF" and ?pb = "bs @ replicate (7 - length bs) 0xFF"
  have wa: "word_bytes (immediate_bits as) = ?pa @ [0x25]" and wb: "word_bytes (immediate_bits bs) = ?pb @ [0x25]"
    using la lb by (simp_all add: word_bytes_immediate)
  then have "?pa \<noteq> ?pb" using assms(5) word_bytes_inj [of "immediate_bits as" "immediate_bits bs"] by auto
  moreover have "length ?pa = length ?pb" using la lb by simp
  ultimately obtain i where i: "i < length ?pa" "take i ?pa = take i ?pb" "?pa ! i \<noteq> ?pb ! i"
    using first_difference [of ?pa ?pb] by blast
  have i7: "i < 7" using i(1) la by simp
  have ba: "word_byte (immediate_bits as) i = ?pa ! i" and bb: "word_byte (immediate_bits bs) i = ?pb ! i"
    using i7 la lb nth_word_bytes [of i "immediate_bits as"] nth_word_bytes [of i "immediate_bits bs"]
    unfolding wa wb by (simp_all only: nth_append) simp_all
  have "stringCmpImmediate (immediate_bits as) (immediate_bits bs) =
     (if ?pa ! i < ?pb ! i then (if ?pb ! i = 0xFF then 1 else - 1) else (if ?pa ! i = 0xFF then - 1 else 1))"
    using stringCmpImmediate_bytes [of i "immediate_bits as" "immediate_bits bs"] i i7 la lb
    unfolding wa wb ba bb by simp
  also have "\<dots> = lex_cmp as bs"
    using lex_cmp_pad [OF la lb utf8_no_pad [OF assms(1)] utf8_no_pad [OF assms(2)] i7 i(2) refl refl i(3)] by simp
  finally show ?thesis .
qed

text \<open>Heap strings: zero padding does not disturb the order.\<close>

lemma memcmp8_lex:
  assumes "n \<le> length xs" "n \<le> length ys"
  shows "memcmp8 xs ys n = Inr (lex_cmp (mem_bytes (take n xs)) (mem_bytes (take n ys)))"
  using assms
proof (induction n arbitrary: xs ys)
  case 0
  then show ?case by simp
next
  case (Suc n)
  then obtain x xs' y ys' where xy: "xs = x # xs'" "ys = y # ys'" by (metis Suc_le_length_iff)
  show ?case
  proof (cases "x = y")
    case True
    then show ?thesis using Suc xy by simp
  next
    case False
    then have "word_bytes x \<noteq> word_bytes y" by (simp add: word_bytes_inj)
    then show ?thesis using False xy bswap_less [of x y] lex_cmp_cases [of "word_bytes x" "word_bytes y"]
      by (auto simp: lex_cmp_append lex_cmp_0_iff)
  qed
qed

lemma lex_cmp_zeros: "lex_cmp (replicate (length cs) 0) cs \<in> {- 1, 0}"
  by (induction cs) (auto simp: word_gt_0)

lemma lex_cmp_prefix: "lex_cmp as (as @ cs) = (if cs = [] then 0 else - 1)"
  using lex_cmp_same_prefix [of as "[]" cs] by (cases cs) simp_all

lemma lex_cmp_take: "length as \<le> length bs \<Longrightarrow> as \<noteq> take (length as) bs \<Longrightarrow> lex_cmp as bs = lex_cmp as (take (length as) bs)"
  using lex_cmp_append [of as "take (length as) bs" "[]" "drop (length as) bs"] by simp

text \<open>
  Comparing the zero-padded forms up to the padded length of the shorter one decides the order,
  or leaves the shorter one a prefix of the other.
\<close>

lemma lex_cmp_zero_pad:
  assumes le: "length as \<le> length bs" and k: "length as + k \<le> length bs + j"
  defines "r \<equiv> lex_cmp (as @ replicate k 0) (take (length as + k) (bs @ replicate j 0))"
  shows "lex_cmp as bs = (if r \<noteq> 0 then r else sgn (int (length as) - int (length bs)))"
proof -
  let ?t = "take (length as) bs"
  let ?rest = "take k (drop (length as) (bs @ replicate j 0))"
  have sp: "take (length as + k) (bs @ replicate j 0) = ?t @ ?rest" using le by (simp add: take_add)
  have len: "length as = length ?t" using le by simp
  have lk: "length ?rest = k" using k le by simp
  show ?thesis
  proof (cases "as = ?t")
    case True
    then have r: "r = lex_cmp (replicate k 0) ?rest" using len unfolding r_def sp by (simp add: lex_cmp_append)
    have bs: "lex_cmp as bs = (if drop (length as) bs = [] then 0 else - 1)"
      using lex_cmp_prefix [of as "drop (length as) bs"] True by (metis append_take_drop_id)
    show ?thesis
    proof (cases "length as = length bs")
      case eq: True
      then have "?rest = replicate k 0" using k by simp
      then show ?thesis using r bs eq by simp
    next
      case False
      then have "lex_cmp as bs = - 1" using bs le by simp
      moreover have "r \<in> {- 1, 0}" using r lex_cmp_zeros [of ?rest] lk by simp
      ultimately show ?thesis using False le by auto
    qed
  next
    case False
    have "r = lex_cmp as ?t" unfolding r_def sp using len False by (simp add: lex_cmp_append)
    moreover have "lex_cmp as bs = lex_cmp as ?t" using lex_cmp_take [OF le False] .
    moreover have "lex_cmp as ?t \<noteq> 0" using False by (simp add: lex_cmp_0_iff)
    ultimately show ?thesis by simp
  qed
qed

lemma sgn_lex_cmp [simp]: "sgn (lex_cmp as bs) = lex_cmp as bs"
  using lex_cmp_cases [of as bs] by auto

lemma lex_cmp_padded:
  fixes as bs :: "byte list"
  defines "m \<equiv> min (length as) (length bs)"
  assumes K: "m + k \<le> length as + i" "m + k \<le> length bs + j"
    and ai: "length as \<le> length bs \<Longrightarrow> i = k" and bj: "length bs \<le> length as \<Longrightarrow> j = k"
  defines "r \<equiv> lex_cmp (take (m + k) (as @ replicate i 0)) (take (m + k) (bs @ replicate j 0))"
  shows "lex_cmp as bs = (if r \<noteq> 0 then r else sgn (int (length as) - int (length bs)))"
proof (cases "length as \<le> length bs")
  case True
  then have "m = length as" "i = k" by (simp_all add: m_def ai)
  then show ?thesis using lex_cmp_zero_pad [OF True, of k j] K by (simp add: r_def)
next
  case False
  then have m: "m = length bs" "j = k" by (simp_all add: m_def bj)
  have "lex_cmp bs as = (if - r \<noteq> 0 then - r else sgn (int (length bs) - int (length as)))"
    using lex_cmp_zero_pad [of bs as k i] K False m
      lex_cmp_antisym [of "take (m + k) (as @ replicate i 0)" "take (m + k) (bs @ replicate j 0)"]
    by (simp add: r_def)
  then show ?thesis using lex_cmp_antisym [of as bs] False by (auto simp: sgn_if)
qed

lemma mem_bytes_take: "mem_bytes (take n ws) = take (8 * n) (mem_bytes ws)"
proof (induction ws arbitrary: n)
  case Nil
  then show ?case by simp
next
  case (Cons w ws)
  then show ?case by (cases n) simp_all
qed

lemma mem_bytes_drop: "mem_bytes (drop n ws) = drop (8 * n) (mem_bytes ws)"
proof (induction ws arbitrary: n)
  case Nil
  then show ?case by simp
next
  case (Cons w ws)
  then show ?case by (cases n) simp_all
qed

lemma pad8_mono: "m \<le> n \<Longrightarrow> m + pad8 m \<le> n + pad8 n"
  using div_le_mono [of "m + 7" "n + 7" 8] pad8_dvd [of m] pad8_dvd [of n] by linarith

lemma stringCmpLarge_rep:
  assumes "length as < 2 ^ 62" "length bs < 2 ^ 62"
  shows "\<exists>c. stringCmpLarge (large_words as) (large_words bs) = Inr c \<and> sgn c = lex_cmp as bs"
proof -
  define m where "m = min (length as) (length bs)"
  define n where "n = (m + 7) div 8"
  have n8: "8 * n = m + pad8 m" using pad8_dvd [of m] by (simp add: n_def)
  have m: "m < 2 ^ 62" using assms by (simp add: m_def)
  have s1: "sint (large_words as ! 0) = int (length as)" and s2: "sint (large_words bs ! 0) = int (length bs)"
    using assms uint_small(2) large_words_hdr(1) by simp_all
  have mi: "(if length as \<le> length bs then int (length as) else int (length bs)) = int m"
    by (simp add: m_def min_def)
  have "(m + 23) div 8 = n + 2" by (simp add: n_def)
  then have ni: "nat (uint (largeStringSize (int m)) div 8 - 2) = n" using large_nInts [OF m] by simp
  have l1: "n \<le> length (drop 2 (large_words as))" and l2: "n \<le> length (drop 2 (large_words bs))"
    unfolding length_drop length_large_words n_def m_def by (simp_all add: div_le_mono)
  define r where "r = lex_cmp (take (m + pad8 m) (as @ replicate (pad8 (length as)) 0)) (take (m + pad8 m) (bs @ replicate (pad8 (length bs)) 0))"
  have mc: "memcmp8 (drop 2 (large_words as)) (drop 2 (large_words bs)) n = Inr r"
    unfolding memcmp8_lex [OF l1 l2] mem_bytes_take mem_bytes_drop n8 r_def by simp
  have "lex_cmp as bs = (if r \<noteq> 0 then r else sgn (int (length as) - int (length bs)))"
    unfolding r_def m_def using pad8_mono [of m "length as"] pad8_mono [of m "length bs"]
    by (intro lex_cmp_padded) (auto simp: m_def min_def)
  moreover have "stringCmpLarge (large_words as) (large_words bs) =
      Inr (if r \<noteq> 0 then r else int (length as) - int (length bs))"
    by (simp add: stringCmpLarge_def word_at_def s1 s2 mi ni mc)
  ultimately show ?thesis using sgn_lex_cmp [of as bs] by (cases "r = 0") auto
qed

lemma bswap_low: "uint (bswap w AND (push_bit 32 1 - 1)) = int (le_val (rev (drop 4 (word_bytes w))))"
proof -
  let ?t = "rev (drop 4 (word_bytes w))" and ?u = "rev (take 4 (word_bytes w))"
  have m: "(push_bit 32 1 - 1 :: u64) = mask 32" by (simp add: mask_eq_exp_minus_1)
  have b: "bswap w = bytes_word (?t @ ?u)"
    unfolding bswap_def rev_append [symmetric] append_take_drop_id ..
  have "bytes_word (?t @ ?u) AND mask 32 = bytes_word ?t"
  proof (rule bit_word_eqI)
    fix n assume "n < LENGTH(64)"
    have "n < 32 \<longleftrightarrow> n div 8 < 4" by auto
    then show "bit (bytes_word (?t @ ?u) AND mask 32) n = bit (bytes_word ?t) n"
      by (auto simp: bit_simps bit_bytes_word nth_append)
  qed
  then have "bswap w AND (push_bit 32 1 - 1) = bytes_word ?t" unfolding m b .
  then have "uint (bswap w AND (push_bit 32 1 - 1)) = int (unat (bytes_word ?t))" by (simp only: uint_nat)
  then show ?thesis by (simp add: unat_bytes_word)
qed

lemma pad8_ge: "4 \<le> n + pad8 (n + 4)"
proof -
  obtain q where q: "n + 4 + pad8 (n + 4) = 8 * q" using pad8_dvd [of "n + 4"] by metis
  then have "1 \<le> q" by (cases q) simp_all
  with q show ?thesis by linarith
qed

lemma stringCmpMedium_rep:
  assumes "length as \<le> 0xFFFF" "length bs \<le> 0xFFFF"
  shows "\<exists>c. stringCmpMedium (medium_words as) (medium_words bs) = Inr c \<and> sgn c = lex_cmp as bs"
proof -
  define A where "A = as @ replicate (pad8 (length as + 4)) 0"
  define B where "B = bs @ replicate (pad8 (length bs + 4)) 0"
  have lA: "4 \<le> length A" and lB: "4 \<le> length B"
    using pad8_ge [of "length as"] pad8_ge [of "length bs"] by (simp_all add: A_def B_def)
  define m where "m = min (length as) (length bs)"
  define n where "n = (m + 11) div 8 - 1"
  define k where "k = pad8 (m + 4)"
  have "(m + 4 + 7) div 8 = Suc n" using div_le_mono [of 8 "m + 11" 8] by (simp add: n_def)
  then have n8: "8 * n + 4 = m + k" using pad8_dvd [of "m + 4"] by (simp add: k_def)
  have h1: "uint (medium_words as ! 0 AND 0xFFFF) = int (length as)"
   and h2: "uint (medium_words bs ! 0 AND 0xFFFF) = int (length bs)"
    using medium_word_0_length [OF assms(1)] medium_word_0_length [OF assms(2)] uint_small(1) assms by simp_all
  have b1: "uint (bswap (medium_words as ! 0) AND (push_bit 32 1 - 1)) = int (le_val (rev (take 4 A)))"
   and b2: "uint (bswap (medium_words bs ! 0) AND (push_bit 32 1 - 1)) = int (le_val (rev (take 4 B)))"
    unfolding bswap_low word_bytes_medium_0 A_def B_def by simp_all
  have mi: "(if length as \<le> length bs then int (length as) else int (length bs)) = int m"
    by (simp add: m_def min_def)
  have ni: "nat (mediumStringSize (int m) div 8 - 1) = n" unfolding medium_nInts n_def by simp
  have l1: "n \<le> length (drop 1 (medium_words as))" and l2: "n \<le> length (drop 1 (medium_words bs))"
    unfolding length_drop length_medium_words n_def m_def by (simp_all add: div_le_mono diff_le_mono)
  define q where "q = lex_cmp (take (8 * n) (drop 4 A)) (take (8 * n) (drop 4 B))"
  have mc: "memcmp8 (drop 1 (medium_words as)) (drop 1 (medium_words bs)) n = Inr q"
    unfolding memcmp8_lex [OF l1 l2] mem_bytes_take mem_bytes_drop q_def A_def B_def by simp
  define r where "r = lex_cmp (take (m + k) A) (take (m + k) B)"
  have tA: "take (m + k) A = take 4 A @ take (8 * n) (drop 4 A)"
   and tB: "take (m + k) B = take 4 B @ take (8 * n) (drop 4 B)"
    unfolding n8 [symmetric] by (simp_all add: take_add add.commute)
  have r: "r = (if take 4 A = take 4 B then q else lex_cmp (take 4 A) (take 4 B))"
    unfolding r_def tA tB q_def using lA lB by (simp add: lex_cmp_append)
  have lex: "lex_cmp as bs = (if r \<noteq> 0 then r else sgn (int (length as) - int (length bs)))"
    unfolding r_def A_def B_def m_def k_def
    using pad8_mono [of "m + 4" "length as + 4"] pad8_mono [of "m + 4" "length bs + 4"]
    by (intro lex_cmp_padded) (auto simp: m_def min_def)
  let ?d = "int (le_val (rev (take 4 A))) - int (le_val (rev (take 4 B)))"
  have lt: "length (take 4 A) = length (take 4 B)" using lA lB by simp
  have d: "sgn ?d = lex_cmp (take 4 A) (take 4 B)"
    using lex_cmp_rev_le_val [OF lt] lex_cmp_rev_le_val [OF lt [symmetric]]
      lex_cmp_antisym [of "take 4 A" "take 4 B"] lex_cmp_cases [of "take 4 A" "take 4 B"]
    by (auto simp: sgn_if)
  have d0: "?d = 0 \<longleftrightarrow> take 4 A = take 4 B" using d by (metis lex_cmp_0_iff sgn_0_0)
  have "stringCmpMedium (medium_words as) (medium_words bs) =
      Inr (if ?d \<noteq> 0 then ?d else if q \<noteq> 0 then q else int (length as) - int (length bs))"
    by (simp only: stringCmpMedium_def word_at_def Let_def medium_words_nonempty if_True bindR_simps
        h1 h2 b1 b2 of_nat_le_iff mi ni mc) simp
  moreover have "sgn (if ?d \<noteq> 0 then ?d else if q \<noteq> 0 then q else int (length as) - int (length bs)) = lex_cmp as bs"
    using d d0 r lex sgn_lex_cmp [of as bs] lex_cmp_0_iff [of "take 4 A" "take 4 B"]
    by (cases "take 4 A = take 4 B") auto
  ultimately show ?thesis by blast
qed

lemma stringCmpGeneric_rep:
  assumes "str_rep s tp1 as" "str_rep s tp2 bs"
  shows "\<exists>c. stringCmpGeneric tp1 tp2 s = Inr c \<and> sgn c = lex_cmp as bs"
proof -
  define m where "m = min (length as) (length bs)"
  have mi: "(if length as \<le> length bs then int (length as) else int (length bs)) = int m"
    by (simp add: m_def min_def)
  have ml: "m \<le> length as" "m \<le> length bs" by (simp_all add: m_def)
  define r where "r = lex_cmp (take m as) (take m bs)"
  have "lex_cmp as bs = (if r \<noteq> 0 then r else sgn (int (length as) - int (length bs)))"
    using lex_cmp_padded [of as bs 0 0 0] by (simp add: r_def m_def)
  moreover have "stringCmpGeneric tp1 tp2 s = Inr (if r \<noteq> 0 then r else int (length as) - int (length bs))"
    by (simp only: stringCmpGeneric_def taggedStringLength_rep [OF assms(1)] taggedStringLength_rep [OF assms(2)]
        bindR_simps string_length.simps Let_def of_nat_le_iff mi
        taggedStringBytes_at [OF assms(1) ml(1)] taggedStringBytes_at [OF assms(2) ml(2)] r_def [symmetric]) simp
  ultimately show ?thesis using sgn_lex_cmp [of as bs] by (cases "r = 0") auto
qed

lemma flag_and_iff: "w AND IMMEDIATE_FLAG \<noteq> 0 \<longleftrightarrow> bit w 61" "w AND STRING_LARGE_FLAG \<noteq> 0 \<longleftrightarrow> bit w 0"
  using is_immediate_bit [of w] and_1_bit [of w] by (simp_all add: is_immediate_def STRING_LARGE_FLAG_def)

lemma flag_and_zero: "w AND IMMEDIATE_FLAG = 0 \<longleftrightarrow> \<not> bit w 61" "w AND STRING_LARGE_FLAG = 0 \<longleftrightarrow> \<not> bit w 0"
  using flag_and_iff [of w] by blast+

lemma both_flags_iff:
  "v AND w AND IMMEDIATE_FLAG \<noteq> 0 \<longleftrightarrow> bit v 61 \<and> bit w 61"
  "(v XOR w) AND (IMMEDIATE_FLAG OR STRING_LARGE_FLAG) \<noteq> 0 \<longleftrightarrow> bit v 61 \<noteq> bit w 61 \<or> bit v 0 \<noteq> bit w 0"
proof -
  show "v AND w AND IMMEDIATE_FLAG \<noteq> 0 \<longleftrightarrow> bit v 61 \<and> bit w 61"
    using flag_and_iff(1) [of "v AND w"] by (simp add: bit_and_iff and.assoc)
  have b: "bit ((v XOR w) AND (IMMEDIATE_FLAG OR STRING_LARGE_FLAG)) n \<longleftrightarrow> (n = 61 \<or> n = 0) \<and> bit v n \<noteq> bit w n" for n
    by (auto simp: bit_simps STRING_LARGE_FLAG_def)
  have "(v XOR w) AND (IMMEDIATE_FLAG OR STRING_LARGE_FLAG) \<noteq> 0 \<longleftrightarrow>
        (\<exists>n. bit ((v XOR w) AND (IMMEDIATE_FLAG OR STRING_LARGE_FLAG)) n)"
    by (metis bit_word_eqI bit_0_eq bot_apply bot_bool_def)
  then show "(v XOR w) AND (IMMEDIATE_FLAG OR STRING_LARGE_FLAG) \<noteq> 0 \<longleftrightarrow> bit v 61 \<noteq> bit w 61 \<or> bit v 0 \<noteq> bit w 0"
    unfolding b by auto
qed

lemma bal_string_cmp_rep:
  assumes r1: "str_rep s tp1 as" and r2: "str_rep s tp2 bs"
  shows "\<exists>c. bal_string_cmp tp1 tp2 s = Inr c \<and> sgn c = lex_cmp as bs"
proof (cases "tp1 = tp2")
  case True
  then have "as = bs" using str_rep_unique r1 r2 by blast
  with True show ?thesis by (simp add: bal_string_cmp_def)
next
  case ne: False
  note len = str_repD(2) [OF r1] str_repD(2) [OF r2] and gen = stringCmpGeneric_rep [OF r1 r2]
  show ?thesis
    using r1
  proof (cases rule: str_rep_cases)
    case i1: immediate
    from r2 show ?thesis
    proof (cases rule: str_rep_cases)
      case immediate
      then show ?thesis
        using i1 ne stringCmpImmediate_rep [of as bs] str_repD(1) [OF r1] str_repD(1) [OF r2]
        by (simp add: bal_string_cmp_def both_flags_iff flag_and_iff flag_and_zero)
    qed (use i1 ne gen in \<open>simp_all add: bal_string_cmp_def both_flags_iff flag_and_iff flag_and_zero\<close>)
  next
    case m1: medium
    from r2 show ?thesis
    proof (cases rule: str_rep_cases)
      case medium
      then show ?thesis
        using m1 ne stringCmpMedium_rep [OF m1(2) medium(2)]
        by (simp add: bal_string_cmp_def both_flags_iff flag_and_iff flag_and_zero)
    qed (use m1 ne gen in \<open>simp_all add: bal_string_cmp_def both_flags_iff flag_and_iff flag_and_zero\<close>)
  next
    case l1: large
    from r2 show ?thesis
    proof (cases rule: str_rep_cases)
      case large
      then show ?thesis
        using l1 ne stringCmpLarge_rep [OF len]
        by (simp add: bal_string_cmp_def both_flags_iff flag_and_iff flag_and_zero)
    qed (use l1 ne gen in \<open>simp_all add: bal_string_cmp_def both_flags_iff flag_and_iff flag_and_zero\<close>)
  qed
qed

end
