(* ===== verification/Rt_String_Hash.thy ===== *)
theory Rt_String_Hash
  imports Rt_String_Props Rt_Search
begin

text \<open>
  Correctness of the remaining string operations: hashing agrees with a reference hash of the
  content (so strings with equal content have equal hashes), concatenation yields the
  concatenated content, and the binary search of string subtypes decides membership.
\<close>

section \<open>Hashing\<close>

text \<open>
  The reference hash of a byte sequence: the 8-byte chunks, the last one possibly shorter, are
  mixed one after the other. The code of \<open>mediumStringHash\<close> arrives at it without moving the bytes:
  it hashes the words after the first one and then the four bytes that share the first word with
  the header.
\<close>

definition hash_chunks :: "u64 \<Rightarrow> byte list \<Rightarrow> u64" where
  "hash_chunks h bs = foldl hashUpdate h (bytes_mem bs)"

definition hash_content :: "u64 \<Rightarrow> byte list \<Rightarrow> u64" where
  "hash_content h bs =
     (if immediate_rep bs then hashUpdate h (bytes_word bs)
      else if length bs \<le> 0xFFFF then hash_chunks h (drop 4 bs @ take 4 bs)
      else hash_chunks h bs)"

lemma hash_chunks_word: "bs \<noteq> [] \<Longrightarrow> hash_chunks h bs = hash_chunks (hashUpdate h (bytes_word (take 8 bs))) (drop 8 bs)"
  by (cases bs) (simp_all add: hash_chunks_def bytes_mem.simps(2))

lemma hash_chunks_Nil [simp]: "hash_chunks h [] = h"
  by (simp add: hash_chunks_def)

lemma hash_chunks_short: "bs \<noteq> [] \<Longrightarrow> length bs \<le> 8 \<Longrightarrow> hash_chunks h bs = hashUpdate h (bytes_word bs)"
  using hash_chunks_word [of bs h] by simp

lemma hash_chunks_mem: "hash_chunks h (mem_bytes ws @ bs) = hash_chunks (foldl hashUpdate h ws) bs"
  by (induction ws arbitrary: h) (simp_all add: hash_chunks_def bytes_mem_append)

lemma bytes_word_or:
  "length xs \<le> 8 \<Longrightarrow> bytes_word xs OR push_bit (8 * length xs) (bytes_word ys) = bytes_word (xs @ ys)"
proof (rule bit_word_eqI)
  fix n assume n: "n < LENGTH(64)" and l: "length xs \<le> 8"
  have "8 * length xs \<le> n \<longleftrightarrow> \<not> n div 8 < length xs" by auto
  moreover have "8 * length xs \<le> n \<Longrightarrow> (n - 8 * length xs) div 8 = n div 8 - length xs \<and> (n - 8 * length xs) mod 8 = n mod 8"
    by (auto dest!: le_Suc_ex)
  ultimately show "bit (bytes_word xs OR push_bit (8 * length xs) (bytes_word ys)) n = bit (bytes_word (xs @ ys)) n"
    using n by (auto simp: bit_simps bit_bytes_word nth_append)
qed

lemma bytes_word_take8: "bytes_word (take 8 bs) = bytes_word bs"
  by (rule bit_word_eqI) (auto simp: bit_bytes_word)

lemma hash_chunks_two:
  assumes "bs \<noteq> []" "length bs \<le> 16"
  shows "hash_chunks h bs = (if length bs \<le> 8 then hashUpdate h (bytes_word bs)
           else hashUpdate (hashUpdate h (bytes_word bs)) (bytes_word (drop 8 bs)))"
  using assms hash_chunks_word [of bs h] hash_chunks_short by (auto simp: bytes_word_take8)

lemma bytes_word_zeros: "bytes_word (bs @ replicate k 0) = bytes_word bs"
  by (rule bit_word_eqI) (auto simp: bit_bytes_word nth_append)

lemma drop_bytes_word: "r \<le> 8 \<Longrightarrow> length ys \<le> 8 \<Longrightarrow> drop_bit (8 * r) (bytes_word ys) = bytes_word (drop r ys)"
proof (rule bit_word_eqI)
  fix n assume n: "n < LENGTH(64)" and l: "r \<le> 8" "length ys \<le> 8"
  have "(8 * r + n) div 8 = r + n div 8" "(8 * r + n) mod 8 = n mod 8" by simp_all
  moreover have "n div 8 < length ys - r \<Longrightarrow> 8 * r + n < 64" using l by auto
  ultimately show "bit (drop_bit (8 * r) (bytes_word ys)) n = bit (bytes_word (drop r ys)) n"
    using n l by (auto simp: bit_simps bit_bytes_word)
qed

lemma medium_start:
  "drop_bit 32 (medium_words bs ! 0) = bytes_word (take 4 bs)"
proof -
  have "medium_words bs ! 0 = bytes_word (medium_header bs @ take 4 (bs @ replicate (pad8 (length bs + 4)) 0))"
    by (metis word_bytes_word word_bytes_medium_0)
  also have "drop_bit (8 * 4) \<dots> = bytes_word (take 4 (bs @ replicate (pad8 (length bs + 4)) 0))"
    by (subst drop_bytes_word) simp_all
  also have "\<dots> = bytes_word (take 4 bs)"
    by (simp add: take_replicate bytes_word_zeros)
  finally show ?thesis by simp
qed

text \<open>The words of a medium string after the first, when the last of them is incomplete.\<close>

lemma medium_tail:
  assumes "4 < length bs" and N: "N = (length bs + 11) div 8" and "8 * N \<noteq> length bs + 4"
  defines "T \<equiv> drop (8 * (N - 2)) (drop 4 bs)"
  shows "drop 4 bs = mem_bytes (take (N - 2) (drop 1 (medium_words bs))) @ T"
    and "medium_words bs ! (N - 1) = bytes_word T" and "length T = length bs + 12 - 8 * N" and "length T < 8"
proof -
  have N2: "2 \<le> N" "8 * (N - 2) + 4 \<le> length bs" using assms(1,3) by (simp_all add: N)
  have m: "mem_bytes (drop 1 (medium_words bs)) = drop 4 bs @ replicate (pad8 (length bs + 4)) 0"
    using assms(1) unfolding mem_bytes_drop by simp
  have "mem_bytes (take (N - 2) (drop 1 (medium_words bs))) = take (8 * (N - 2)) (drop 4 bs)"
    unfolding mem_bytes_take m using N2 by simp
  then show "drop 4 bs = mem_bytes (take (N - 2) (drop 1 (medium_words bs))) @ T"
    unfolding T_def by (simp only: append_take_drop_id)
  show lT: "length T = length bs + 12 - 8 * N" using N2 by (simp add: T_def)
  show "length T < 8" using N2 assms(3) unfolding lT by (simp add: N)
  have "word_bytes (medium_words bs ! (N - 1)) = take 8 (drop (8 * (N - 1)) (mem_bytes (medium_words bs)))"
    using N2 by (intro nth_mem_word) (simp add: length_medium_words N)
  also have "8 * (N - 1) = 8 + 8 * (N - 2)" using N2 by simp
  also have "drop (8 + 8 * (N - 2)) (mem_bytes (medium_words bs)) = T @ replicate (pad8 (length bs + 4)) 0"
  proof -
    have "drop (8 + 8 * (N - 2)) (mem_bytes (medium_words bs)) = drop (8 * (N - 2)) (drop 8 (mem_bytes (medium_words bs)))"
      by (simp only: drop_drop add.commute)
    also have "drop 8 (mem_bytes (medium_words bs)) = drop 4 bs @ replicate (pad8 (length bs + 4)) 0"
      using assms(1) by simp
    finally show ?thesis using N2 by (simp add: T_def)
  qed
  finally have "bytes_word (word_bytes (medium_words bs ! (N - 1))) = bytes_word (take 8 (T @ replicate (pad8 (length bs + 4)) 0))"
    by (rule arg_cong)
  then show "medium_words bs ! (N - 1) = bytes_word T"
    by (simp only: bytes_word_take8 bytes_word_zeros word_bytes_word)
qed

lemma medium_len: "length bs \<le> 0xFFFF \<Longrightarrow> uint (medium_words bs ! 0 AND 0xFFFF) = int (length bs)"
  using medium_word_0_length [of bs] uint_small(1) [of "length bs"] by simp

lemma mediumStringHash_rep:
  assumes "0 < length bs" "length bs \<le> 0xFFFF"
  shows "mediumStringHash h (medium_words bs) = Inr (hash_chunks h (drop 4 bs @ take 4 bs))"
proof (cases "length bs \<le> 4")
  case True
  with assms show ?thesis
    by (simp add: mediumStringHash_def word_at_def medium_start medium_len hashUpdatePartial_def hash_chunks_short)
next
  case False
  define N where "N = (length bs + 11) div 8"
  have ws: "length (medium_words bs) = N" by (simp add: N_def length_medium_words)
  have size: "mediumStringSize (int (length bs)) = 8 * int N" by (simp add: mediumStringSize_eq N_def zdiv_int)
  have len: "uint (medium_words bs ! 0 AND 0xFFFF) = int (length bs)" by (rule medium_len [OF assms(2)])
  have N8: "length bs + 4 \<le> 8 * N" "8 * N \<le> length bs + 11" "2 \<le> N" using False by (simp_all add: N_def)
  show ?thesis
  proof (cases "8 * N = length bs + 4")
    case True
    have m: "mem_bytes (drop 1 (medium_words bs)) = drop 4 bs"
      using False by (simp add: mem_bytes_drop [of 1, simplified] pad8_def True [symmetric])
    have "mediumStringHash h (medium_words bs) =
        Inr (hashUpdate (foldl hashUpdate h (take (N - 1) (drop 1 (medium_words bs)))) (bytes_word (take 4 bs)))"
      using False True N8
      by (simp add: mediumStringHash_def word_at_def medium_start len size hashWords_def ws hashUpdatePartial_def)
    also have "take (N - 1) (drop 1 (medium_words bs)) = drop 1 (medium_words bs)" by (simp add: ws)
    also have "hashUpdate (foldl hashUpdate h (drop 1 (medium_words bs))) (bytes_word (take 4 bs)) =
        hash_chunks h (drop 4 bs @ take 4 bs)"
      using False unfolding m [symmetric] hash_chunks_mem by (subst hash_chunks_short) auto
    finally show ?thesis .
  next
    case part: False
    note T = medium_tail [OF False [unfolded not_le] N_def part]
    define T where "T = drop (8 * (N - 2)) (drop 4 bs)"
    note T = T [folded T_def]
    define h1 where "h1 = foldl hashUpdate h (take (N - 2) (drop 1 (medium_words bs)))"
    have hw: "hashWords h (medium_words bs) 1 (N - 1) = Inr h1"
      using N8 by (simp add: hashWords_def ws h1_def numeral_2_eq_2)
    have pad: "8 * int N - (int (length bs) + 4) = 8 - int (length T)" using N8 T(3) by simp
    have pad0: "8 - int (length T) \<noteq> 0" and sh8: "nat (8 * (8 - (8 - int (length T)))) = 8 * length T"
      and cond: "4 < 8 - int (length T) \<longleftrightarrow> 4 < 8 - length T" "8 - int (length T) = 4 \<longleftrightarrow> 8 - length T = 4"
      using T(4) by auto
    have last: "word_at (medium_words bs) (N - 1) = Inr (bytes_word T)"
      using T(2) N8 by (simp add: word_at_def ws)
    have first: "word_at (medium_words bs) 0 = Inr (medium_words bs ! 0)" by (simp add: word_at_def)
    have gt: "\<not> int (length bs) \<le> 4" and cmpl: "nat (8 * int N div 8 - 1) = N - 1" using False by simp_all
    have or: "bytes_word T OR push_bit (8 * length T) (bytes_word (take 4 bs)) = bytes_word (T @ take 4 bs)"
      using T(4) by (intro bytes_word_or) simp
    have sh: "drop_bit (64 - 8 * length T) (bytes_word (take 4 bs)) = bytes_word (drop (8 - length T) (take 4 bs))"
      using drop_bytes_word [of "8 - length T" "take 4 bs"] T(4) by (simp add: diff_mult_distrib2)
    have "mediumStringHash h (medium_words bs) =
      Inr (if 4 < 8 - length T then hashUpdate h1 (bytes_word (T @ take 4 bs))
           else if 8 - length T = 4 then hashUpdate h1 (bytes_word (T @ take 4 bs))
           else hashUpdate (hashUpdate h1 (bytes_word (T @ take 4 bs))) (bytes_word (drop (8 - length T) (take 4 bs))))"
      by (simp only: mediumStringHash_def first bindR_simps Let_def len gt if_False size pad pad0 not_False_eq_True if_True
          cmpl hw last sh8 medium_start or sh cond hashUpdatePartial_def if_distrib [of Inr])
    also have "\<dots> = Inr (hash_chunks h1 (T @ take 4 bs))"
    proof -
      have "T @ take 4 bs \<noteq> []" "length (T @ take 4 bs) = length T + 4" "drop 8 (T @ take 4 bs) = drop (8 - length T) (take 4 bs)"
        using False T(4) by auto
      then show ?thesis using hash_chunks_two [of "T @ take 4 bs" h1] T(4) by auto
    qed
    also have "hash_chunks h1 (T @ take 4 bs) = hash_chunks h (drop 4 bs @ take 4 bs)"
      unfolding T(1) h1_def by (simp add: hash_chunks_mem)
    finally show ?thesis .
  qed
qed

lemma largeStringHash_rep:
  assumes "length bs < 2 ^ 62"
  shows "largeStringHash h (large_words bs) = Inr (hash_chunks h bs)"
proof -
  define N where "N = (length bs + 23) div 8"
  have ws: "length (large_words bs) = N" by (simp add: N_def length_large_words)
  have len: "sint (large_words bs ! 0) = int (length bs)"
    using large_words_hdr uint_small(2) assms by simp
  have size: "uint (largeStringSize (int (length bs))) = 8 * int N"
    using assms by (simp add: uint_largeStringSize N_def zdiv_int)
  have N8: "length bs + 16 \<le> 8 * N" "8 * N \<le> length bs + 23" "2 \<le> N" by (simp_all add: N_def)
  have first: "word_at (large_words bs) 0 = Inr (large_words bs ! 0)" by (simp add: word_at_def)
  have m: "mem_bytes (drop 2 (large_words bs)) = bs @ replicate (pad8 (length bs)) 0"
    by (simp add: mem_bytes_drop)
  show ?thesis
  proof (cases "8 * N = length bs + 16")
    case True
    then have "pad8 (length bs) = 0" by (simp add: pad8_def) presburger
    with m have m': "mem_bytes (drop 2 (large_words bs)) = bs" by simp
    have "largeStringHash h (large_words bs) = Inr (foldl hashUpdate h (drop 2 (large_words bs)))"
      using True N8 by (simp add: largeStringHash_def first len size hashWords_def ws)
    then show ?thesis using hash_chunks_mem [of h "drop 2 (large_words bs)" "[]"] m' by simp
  next
    case part: False
    define T where "T = drop (8 * (N - 3)) bs"
    have lT: "0 < length T" "length T < 8" using part N8 by (simp_all add: T_def)
    have N3: "3 \<le> N" "8 * (N - 3) \<le> length bs" using part N8 by simp_all
    define h1 where "h1 = foldl hashUpdate h (take (N - 3) (drop 2 (large_words bs)))"
    have "mem_bytes (take (N - 3) (drop 2 (large_words bs))) = take (8 * (N - 3)) bs"
      unfolding mem_bytes_take m using N3 by simp
    then have bs: "bs = mem_bytes (take (N - 3) (drop 2 (large_words bs))) @ T"
      unfolding T_def by (simp only: append_take_drop_id)
    have "word_bytes (large_words bs ! (N - 1)) = take 8 (drop (8 * (N - 1)) (mem_bytes (large_words bs)))"
      using N8 by (intro nth_mem_word) (simp add: ws)
    also have "drop (8 * (N - 1)) (mem_bytes (large_words bs)) = T @ replicate (pad8 (length bs)) 0"
    proof -
      have "8 * (N - 1) = 8 * (N - 3) + 16" using N3 by simp
      then have "drop (8 * (N - 1)) (mem_bytes (large_words bs)) = drop (8 * (N - 3)) (drop 16 (mem_bytes (large_words bs)))"
        by (simp only: drop_drop)
      also have "drop 16 (mem_bytes (large_words bs)) = bs @ replicate (pad8 (length bs)) 0" by simp
      finally show ?thesis using N3 by (simp add: T_def)
    qed
    finally have "bytes_word (word_bytes (large_words bs ! (N - 1))) = bytes_word (take 8 (T @ replicate (pad8 (length bs)) 0))"
      by (rule arg_cong)
    then have last: "word_at (large_words bs) (N - 1) = Inr (bytes_word T)"
      using N3 by (simp only: bytes_word_take8 bytes_word_zeros word_bytes_word) (simp add: word_at_def ws)
    have hw: "hashWords h (large_words bs) 2 (N - 1) = Inr h1"
      using N3 by (simp add: hashWords_def ws h1_def numeral_3_eq_3)
    have pad0: "8 * int N - (int (length bs) + 16) \<noteq> 0" and cmpl: "nat (8 * int N div 8 - 1) = N - 1"
      using part by simp_all
    have "largeStringHash h (large_words bs) = Inr (hashUpdate h1 (bytes_word T))"
      by (simp only: largeStringHash_def first bindR_simps Let_def len size pad0 cmpl hw last
          not_False_eq_True if_True hashUpdatePartial_def)
    also have "hashUpdate h1 (bytes_word T) = hash_chunks h1 T"
      using lT by (intro hash_chunks_short [symmetric]) auto
    also have "\<dots> = hash_chunks h (mem_bytes (take (N - 3) (drop 2 (large_words bs))) @ T)"
      unfolding h1_def by (simp only: hash_chunks_mem)
    finally show ?thesis unfolding bs [symmetric] .
  qed
qed

lemma immediateStringHash_rep:
  assumes "utf8 bs" "immediate_rep bs"
  shows "immediateStringHash h (immediate_bits bs) = hashUpdate h (bytes_word bs)"
proof -
  have l: "length bs \<le> 7" by (rule immediate_length [OF assms])
  have b: "bytes_word (word_bytes (immediate_bits bs)) = immediate_bits bs" by simp
  have "immediate_bits bs AND (push_bit (8 * length bs) 1 - 1) = bytes_word bs"
  proof (rule bit_word_eqI)
    fix n assume n: "n < LENGTH(64)"
    have m: "(push_bit (8 * length bs) 1 - 1 :: u64) = mask (8 * length bs)"
      by (simp add: mask_eq_exp_minus_1 push_bit_of_1)
    have i: "n < 8 * length bs \<longleftrightarrow> n div 8 < length bs" by auto
    show "bit (immediate_bits bs AND (push_bit (8 * length bs) 1 - 1)) n = bit (bytes_word bs) n"
      unfolding m bit_and_iff bit_mask_iff bit_bytes_word i
      using n l by (subst b [symmetric], subst bit_bytes_word) (auto simp: word_bytes_immediate [OF l] nth_append simp del: word_bytes_word)
  qed
  then show ?thesis
    using immediateStringLength_rep [OF assms] by (simp add: immediateStringHash_def hashUpdatePartial_def)
qed

lemma bal_string_hash_rep:
  assumes "str_rep s tp bs"
  shows "bal_string_hash tp s = Inr (hashFinish (hash_content (hashInit s) bs) s)"
  using assms
proof (cases rule: str_rep_cases)
  case immediate
  then show ?thesis
    using immediateStringHash_rep [OF str_repD(1) [OF assms]] by (simp add: bal_string_hash_def hash_content_def)
next
  case medium
  then have "0 < length bs" using length_small by blast
  with medium show ?thesis
    using mediumStringHash_rep [of bs] by (simp add: bal_string_hash_def hash_content_def)
next
  case large
  then show ?thesis
    using largeStringHash_rep [OF str_repD(2) [OF assms]] by (simp add: bal_string_hash_def hash_content_def)
qed

section \<open>Concatenation\<close>

lemma str_rep_mono: "str_rep s tp bs \<Longrightarrow> heap s \<subseteq>\<^sub>m heap s' \<Longrightarrow> str_rep s' tp bs"
  unfolding str_rep_def by (auto simp: map_le_def dom_def split: if_splits)

lemma splice_append:
  assumes "splice off (as @ bs) mem = Inr m"
  shows "\<exists>m1. splice off as mem = Inr m1 \<and> splice (off + length as) bs m1 = Inr m \<and> length m1 = length mem \<and>
           (\<forall>i. off + length as \<le> i \<longrightarrow> i < length mem \<longrightarrow> m1 ! i = mem ! i)"
proof -
  have l: "off + length as + length bs \<le> length mem" and m: "m = take off mem @ (as @ bs) @ drop (off + length (as @ bs)) mem"
    using assms by (auto simp: splice_def split: if_splits)
  let ?m1 = "take off mem @ as @ drop (off + length as) mem"
  have "splice off as mem = Inr ?m1" "length ?m1 = length mem" using l by (simp_all add: splice_def)
  moreover have "splice (off + length as) bs ?m1 = Inr m" using l by (simp add: splice_def m ac_simps)
  moreover have "\<forall>i. off + length as \<le> i \<longrightarrow> i < length mem \<longrightarrow> ?m1 ! i = mem ! i"
    using l by (auto simp: nth_append)
  ultimately show ?thesis by blast
qed

lemma flag_of_bytes: "length m = 8 \<Longrightarrow> bytes_word m AND IMMEDIATE_FLAG \<noteq> 0 \<longleftrightarrow> bit (m ! 7) 5"
  by (simp add: flag_and_iff bit_bytes_word)

text \<open>Two adjacent copies into a string are one copy.\<close>

lemma string_memcpy_append:
  assumes c: "string_memcpy 0 (as @ bs) tp s = Inr (tp', s')"
    and imm: "tp AND IMMEDIATE_FLAG \<noteq> 0 \<Longrightarrow> length as \<le> 7"
  shows "\<exists>tp2 s2. string_memcpy 0 as tp s = Inr (tp2, s2) \<and> string_memcpy (length as) bs tp2 s2 = Inr (tp', s') \<and>
           (\<forall>q. q \<noteq> taggedToPtr tp \<or> tp AND IMMEDIATE_FLAG \<noteq> 0 \<longrightarrow> heap s2 q = heap s q)"
proof (cases "tp AND IMMEDIATE_FLAG = 0")
  case True
  let ?p = "taggedToPtr tp"
  define hdr :: nat where "hdr = (if tp AND STRING_LARGE_FLAG = 0 then 4 else 16)"
  from c True obtain ws m where ws: "heap_words ?p s = Inr ws" "splice hdr (as @ bs) (mem_bytes ws) = Inr m"
    and r: "tp' = tp" "s' = store ?p (ObjString (bytes_mem m)) s"
    by (auto simp: string_memcpy_def Let_def hdr_def)
  from splice_append [OF ws(2)] obtain m1
    where m1: "splice hdr as (mem_bytes ws) = Inr m1" "splice (hdr + length as) bs m1 = Inr m" "length m1 = 8 * length ws"
    by auto
  let ?s2 = "store ?p (ObjString (bytes_mem m1)) s"
  have w2: "heap_words ?p ?s2 = Inr (bytes_mem m1)" by (simp add: heap_words_def)
  have "string_memcpy 0 as tp s = Inr (tp, ?s2)"
    using True ws(1) m1(1) by (simp add: string_memcpy_def Let_def hdr_def)
  moreover have "string_memcpy (length as) bs tp ?s2 = Inr (tp', s')"
    using True w2 m1(2,3) r by (simp add: string_memcpy_def Let_def hdr_def store_def)
  ultimately show ?thesis using True by auto
next
  case False
  from c False obtain m where m: "splice 0 (as @ bs) (word_bytes tp) = Inr m" "tp' = bytes_word m" "s' = s"
    by (auto simp: string_memcpy_def)
  from splice_append [OF m(1)] obtain m1
    where m1: "splice 0 as (word_bytes tp) = Inr m1" "splice (length as) bs m1 = Inr m" "length m1 = 8"
      "m1 ! 7 = word_bytes tp ! 7" using imm [OF False] by auto
  have "bytes_word m1 AND IMMEDIATE_FLAG \<noteq> 0"
    using flag_of_bytes [OF m1(3)] flag_of_bytes [of "word_bytes tp"] m1(4) False by simp
  then have "string_memcpy (length as) bs (bytes_word m1) s = Inr (tp', s')"
    using m m1 by (simp add: string_memcpy_def)
  moreover have "string_memcpy 0 as tp s = Inr (bytes_word m1, s)" using False m1(1) by (simp add: string_memcpy_def)
  ultimately show ?thesis by auto
qed

lemma bal_string_alloc_ok:
  assumes "bal_string_alloc n c s = Inr (tp, s1)" "wf_rt s"
  shows "(tp AND IMMEDIATE_FLAG \<noteq> 0 \<and> s1 = s \<and> (c = 1 \<or> c = n \<and> n \<le> 7)) \<or>
         (tp AND IMMEDIATE_FLAG = 0 \<and> heap s (taggedToPtr tp) = None \<and> (\<exists>x. heap s1 = (heap s)(taggedToPtr tp \<mapsto> x)))"
proof (cases "c = 1 \<or> (c = n \<and> n \<le> 7)")
  case True
  then show ?thesis using assms(1) immediate_bits_flag [of "[]"]
    by (auto simp: bal_string_alloc_def empty_string_bits [unfolded TAG_STRING_def, simplified])
next
  case False
  then obtain sz x p where p: "alloc_obj sz x s = Inr (p, s1)"
    and tp: "tp = ptrAddFlags p (shifted_tag TAG_STRING) \<or> tp = ptrAddFlags p (shifted_tag TAG_STRING OR STRING_LARGE_FLAG)"
    using assms(1) by (auto simp: bal_string_alloc_def Let_def split: if_splits)
  note ok = alloc_obj_ok [OF assms(2) p]
  show ?thesis using ok tp string_tag_flags [OF ok(2)] by auto
qed

lemma string_memcpy_fault: "string_memcpy off src tp s = Inl e \<Longrightarrow> e \<noteq> OutOfMemory"
  by (auto simp: string_memcpy_def splice_def heap_words_def bindR_eq_Inl Let_def split: if_splits option.splits obj.splits)

lemma cast_u64_add:
  "m + n < 2 ^ 62 \<Longrightarrow> (cast_u64 (int m) + cast_u64 (int n)) mod 2 ^ 64 = int (m + n)"
  by (simp add: cast_u64_def)

lemma code_points_append: "code_points (as @ bs) = code_points as + code_points bs"
  by (simp add: code_points_def)

lemma bal_string_concat_make:
  assumes wf: "wf_rt s" and r1: "str_rep s tp1 as" and r2: "str_rep s tp2 bs" and len: "length as + length bs < 2 ^ 62"
  shows "bal_string_concat tp1 tp2 s = make_string (as @ bs) s"
proof -
  have utf: "utf8 (as @ bs)" using str_repD(1) [OF r1] str_repD(1) [OF r2] by (rule utf8_append)
  have cp: "code_points as + code_points bs < 2 ^ 62" using len code_points_le [of as] code_points_le [of bs] by linarith
  note lens = taggedStringLength_rep [OF r1] taggedStringLength_rep [OF r2]
  define A where "A = bal_string_alloc (int (length as + length bs)) (int (code_points as + code_points bs)) s"
  have concat: "bal_string_concat tp1 tp2 s = bindR A (\<lambda>(result, s1).
        bindR (bindR (taggedStringBytes tp1 s1) (\<lambda>b. bytes_at b (int (length as)))) (\<lambda>b1.
        bindR (string_memcpy 0 b1 result s1) (\<lambda>(result2, s2).
        bindR (bindR (taggedStringBytes tp2 s2) (\<lambda>b. bytes_at b (int (length bs)))) (\<lambda>b2.
        string_memcpy (length as) b2 result2 s2))))"
    by (simp only: bal_string_concat_def lens bindR_simps string_length.simps cast_u64_add [OF len] cast_u64_add [OF cp]
        Let_def A_def nat_int)
  have make: "make_string (as @ bs) s = bindR A (\<lambda>(tp, s1). string_memcpy 0 (as @ bs) tp s1)"
    by (simp only: make_string_def A_def length_append code_points_append)
  show ?thesis
  proof (cases A)
    case (Inl e)
    then show ?thesis by (simp add: concat make)
  next
    case (Inr a)
    obtain tp s1 where a: "a = (tp, s1)" by (cases a)
    note al = bal_string_alloc_ok [OF Inr [unfolded A_def a] wf]
    have mk: "make_string (as @ bs) s = string_memcpy 0 (as @ bs) tp s1" by (simp add: make Inr a)
    then obtain tp' s' where c: "string_memcpy 0 (as @ bs) tp s1 = Inr (tp', s')"
      using make_string_rep [OF wf utf] len string_memcpy_fault [of 0 "as @ bs" tp s1] by (auto split: sum.splits)
    have "tp AND IMMEDIATE_FLAG \<noteq> 0 \<Longrightarrow> length as \<le> 7"
      using al immediate_length [OF utf] by (auto simp: immediate_rep_def code_points_append)
    from string_memcpy_append [OF c this] obtain rs s2
      where m1: "string_memcpy 0 as tp s1 = Inr (rs, s2)" "string_memcpy (length as) bs rs s2 = Inr (tp', s')"
        and h: "\<forall>q. q \<noteq> taggedToPtr tp \<or> tp AND IMMEDIATE_FLAG \<noteq> 0 \<longrightarrow> heap s2 q = heap s1 q" by blast
    have le: "heap s \<subseteq>\<^sub>m heap s1" "heap s \<subseteq>\<^sub>m heap s2" using al h by (auto simp: map_le_def) (metis option.distinct(1))
    note b1 = taggedStringBytes_at [OF str_rep_mono [OF r1 le(1)] order_refl]
      and b2 = taggedStringBytes_at [OF str_rep_mono [OF r2 le(2)] order_refl]
    show ?thesis
      unfolding mk c by (simp only: concat Inr a bindR_simps prod.case b1 b2 m1 take_all order_refl)
  qed
qed

lemma bal_string_concat_rep:
  assumes "wf_rt s" "str_rep s tp1 as" "str_rep s tp2 bs" "length as + length bs < 2 ^ 62"
  shows "case bal_string_concat tp1 tp2 s of
           Inl e \<Rightarrow> e = OutOfMemory \<and> (pool s = [] \<or> hd (pool s) = 0)
         | Inr (tp, s1) \<Rightarrow> str_rep s1 tp (as @ bs) \<and> wf_rt s1 \<and> heap s \<subseteq>\<^sub>m heap s1 \<and> img s1 = img s"
  unfolding bal_string_concat_make [OF assms] using assms str_repD(1)
  by (intro make_string_rep) (auto intro: utf8_append)

section \<open>Membership in a string subtype\<close>

lemma lex_cmp_trans: "lex_cmp as bs \<le> 0 \<Longrightarrow> lex_cmp bs cs < 0 \<Longrightarrow> lex_cmp as cs < 0"
proof (induction as bs arbitrary: cs rule: lex_cmp.induct)
  case (4 a as b bs)
  then obtain c cs' where "cs = c # cs'" by (cases cs) auto
  with 4 show ?case by (auto split: if_splits)
next
  case (2 b bs)
  then show ?case by (cases cs) auto
qed auto

definition string_cmp_value :: "tagged \<times> rt \<Rightarrow> tagged \<Rightarrow> int" where
  "string_cmp_value k m = (case bal_string_cmp (fst k) m (snd k) of Inr c \<Rightarrow> c | Inl _ \<Rightarrow> 0)"

interpretation string_search: binary_search
  "\<lambda>strs i j k. stringListContains strs i j (fst k) (snd k)" string_cmp_value
  "\<lambda>k m. \<exists>c. bal_string_cmp (fst k) m (snd k) = Inr c"
proof unfold_locales
  fix i j :: nat and xs k
  show "\<not> i < j \<Longrightarrow> stringListContains xs i j (fst k) (snd k) = Inr False"
    by (subst stringListContains.simps) simp
  fix m
  assume ij: "i < j" "j \<le> length xs" and m: "m = i + (j - i) div 2"
    and v: "\<exists>c. bal_string_cmp (fst k) (xs ! m) (snd k) = Inr c"
  then obtain c where c: "bal_string_cmp (fst k) (xs ! m) (snd k) = Inr c" by blast
  have "m < length xs" using ij m by simp
  then show "stringListContains xs i j (fst k) (snd k) =
      (if string_cmp_value k (xs ! m) = 0 then Inr True
       else if string_cmp_value k (xs ! m) < 0 then stringListContains xs i m (fst k) (snd k)
       else stringListContains xs (m + 1) j (fst k) (snd k))"
    using ij(1) c
    by (subst stringListContains.simps) (simp only: if_True Let_def m [symmetric] bindR_simps string_cmp_value_def sum.case)
qed

lemma string_cmp_value_rep:
  "str_rep s tp as \<Longrightarrow> str_rep s m bs \<Longrightarrow> sgn (string_cmp_value (tp, s) m) = lex_cmp as bs"
  using bal_string_cmp_rep [of s tp as m bs] by (auto simp: string_cmp_value_def)

lemma stringListContains_rep:
  assumes k: "str_rep s tp bs" and tbl: "list_all2 (str_rep s) strs bss"
    and sorted: "\<forall>i j. i < j \<longrightarrow> j < length bss \<longrightarrow> lex_cmp (bss ! i) (bss ! j) < 0"
  shows "stringListContains strs 0 (length strs) tp s = Inr (bs \<in> set bss)"
proof -
  have len: "length strs = length bss" using tbl by (rule list_all2_lengthD)
  have nth: "i < length bss \<Longrightarrow> str_rep s (strs ! i) (bss ! i)" for i using tbl len by (simp add: list_all2_nthD)
  have sg: "i < length bss \<Longrightarrow> sgn (string_cmp_value (tp, s) (strs ! i)) = lex_cmp bs (bss ! i)" for i
    using k nth by (simp add: string_cmp_value_rep)
  then have z: "i < length bss \<Longrightarrow> string_cmp_value (tp, s) (strs ! i) = 0 \<longleftrightarrow> lex_cmp bs (bss ! i) = 0" for i
    by (metis sgn_0_0)
  have "string_search.sorted_for (tp, s) strs"
    unfolding string_search.sorted_for_def
  proof (intro conjI ballI allI impI)
    fix x assume "x \<in> set strs"
    then show "\<exists>c. bal_string_cmp (fst (tp, s)) x (snd (tp, s)) = Inr c"
      using nth bal_string_cmp_rep [OF k] len by (fastforce simp: in_set_conv_nth)
  next
    fix i j assume ij: "i < j" "j < length strs" "string_cmp_value (tp, s) (strs ! i) \<le> 0"
    then have "lex_cmp bs (bss ! i) \<le> 0" using sg [of i] len by (simp add: sgn_if split: if_splits)
    then have "lex_cmp bs (bss ! j) < 0" using sorted ij len lex_cmp_trans by auto
    then show "string_cmp_value (tp, s) (strs ! j) < 0" using sg [of j] ij len by (simp add: sgn_if split: if_splits)
  qed
  then have "stringListContains strs 0 (length strs) tp s = Inr (\<exists>x \<in> set strs. string_cmp_value (tp, s) x = 0)"
    using string_search.search_decides [of "(tp, s)" strs] by simp
  also have "(\<exists>x \<in> set strs. string_cmp_value (tp, s) x = 0) \<longleftrightarrow> (\<exists>i < length bss. lex_cmp bs (bss ! i) = 0)"
    unfolding set_conv_nth len using z by blast
  also have "\<dots> \<longleftrightarrow> bs \<in> set bss" by (auto simp: lex_cmp_0_iff in_set_conv_nth)
  finally show ?thesis .
qed

lemma bal_string_subtype_contains_rep:
  assumes "str_rep s tp bs" "list_all2 (str_rep s) strs bss"
    and "\<forall>i j. i < j \<longrightarrow> j < length bss \<longrightarrow> lex_cmp (bss ! i) (bss ! j) < 0"
  shows "bal_string_subtype_contains charIncl nonCharIncl strs tp s =
     Inr ((bs \<in> set bss) = (if code_points bs = 1 then charIncl else nonCharIncl))"
  using stringListContains_rep [OF assms] taggedStringIsChar_rep [OF assms(1)]
  by (simp add: bal_string_subtype_contains_def)

end
