(* ===== verification/Rt_Mapping_Props.thy ===== *)
theory Rt_Mapping_Props
  imports Rt_Mappings Rt_Table_Props Rt_String_Hash
begin

text \<open>
  Correctness of mappings. A mapping refines an association list in insertion order, with distinct
  keys: \<open>map_rep\<close> relates the object to the list, and the operations are shown to implement the
  update and the lookup of that list.
\<close>

section \<open>What a mapping needs of its keys\<close>

text \<open>
  The table relies on two laws: equality decides whether two keys have the same content, and the
  hash is a function of the content.
\<close>

locale hashed_keys =
  fixes rep :: "rt \<Rightarrow> tagged \<Rightarrow> 'c \<Rightarrow> bool"
    and key_eq :: "tagged \<Rightarrow> tagged \<Rightarrow> rt \<Rightarrow> fault + bool"
    and key_hash :: "tagged \<Rightarrow> rt \<Rightarrow> fault + u64"
    and content_hash :: "rt \<Rightarrow> 'c \<Rightarrow> u64"
  assumes eq_rep: "rep s a x \<Longrightarrow> rep s b y \<Longrightarrow> key_eq a b s = Inr (x = y)"
    and hash_rep: "rep s a x \<Longrightarrow> key_hash a s = Inr (content_hash s x)"
begin

definition homes :: "rt \<Rightarrow> nat \<Rightarrow> 'c list \<Rightarrow> nat list" where
  "homes s N cs = map (\<lambda>c. unat (content_hash s c) mod N) cs"

lemma length_homes [simp]: "length (homes s N cs) = length cs"
  by (simp add: homes_def)

lemma homes_nth [simp]: "x < length cs \<Longrightarrow> homes s N cs ! x = unat (content_hash s (cs ! x)) mod N"
  by (simp add: homes_def)

lemma match_rep:
  assumes "list_all2 (rep s) keys cs" "rep s key c" "0 \<le> v" "v < int (length cs)"
  shows "key_eq (keys ! nat v) key s = Inr (cs ! nat v = c)"
proof -
  have "nat v < length cs" using assms(3,4) by linarith
  then have "rep s (keys ! nat v) (cs ! nat v)" using assms(1) by (simp add: list_all2_conv_all_nth)
  then show ?thesis using assms(2) by (rule eq_rep)
qed

lemma lookup_present:
  assumes inv: "table_inv (slots es table) (homes s (length table) cs)" and keys: "list_all2 (rep s) keys cs"
    and key: "rep s key c" and dist: "distinct cs" and x: "x < length cs" "cs ! x = c"
    and m: "\<And>v. 0 \<le> v \<Longrightarrow> v < int (length cs) \<Longrightarrow> match v = key_eq (keys ! nat v) key s"
  shows "lookup_loop (length table) match table es (int (length table) - 1)
           (int (unat (content_hash s c) mod length table)) = Inr (int x)"
proof -
  have "lookup_loop (length table) match table es (int (length table) - 1) (int (homes s (length table) cs ! x)) = Inr (int x)"
  proof (rule lookup_loop_found [OF inv, where mm = "\<lambda>v. cs ! nat v = c"])
    fix v assume "0 \<le> v" "v < int (length (homes s (length table) cs))"
    then have v: "0 \<le> v" "v < int (length cs)" "nat v < length cs" by simp_all
    show "match v = Inr (cs ! nat v = c)" using m [OF v(1,2)] match_rep [OF keys key v(1,2)] by simp
    show "cs ! nat v = c \<Longrightarrow> v = int x" using v x dist by (auto simp: nth_eq_iff_index_eq)
  qed (use x in simp_all)
  then show ?thesis using x by simp
qed

lemma lookup_absent:
  assumes inv: "table_inv (slots es table) (homes s (length table) cs)" and room: "length cs < length table"
    and keys: "list_all2 (rep s) keys cs" and key: "rep s key c" and new: "c \<notin> set cs"
    and m: "\<And>v. 0 \<le> v \<Longrightarrow> v < int (length cs) \<Longrightarrow> match v = key_eq (keys ! nat v) key s"
  shows "\<exists>k < length table. slots es table ! probe (length table) (unat (content_hash s c) mod length table) k = - 1 \<and>
      (\<forall>k' < k. slots es table ! probe (length table) (unat (content_hash s c) mod length table) k' \<noteq> - 1) \<and>
      lookup_loop (length table) match table es (int (length table) - 1) (int (unat (content_hash s c) mod length table)) =
        Inr (- int (probe (length table) (unat (content_hash s c) mod length table) k) - 1)"
proof (rule lookup_loop_absent [OF inv])
  show "length (homes s (length table) cs) < length table" using room by simp
  show "unat (content_hash s c) mod length table < length table" using room by (intro mod_less_divisor) linarith
  fix v assume "0 \<le> v" "v < int (length (homes s (length table) cs))"
  then have v: "0 \<le> v" "v < int (length cs)" "nat v < length cs" by simp_all
  have "cs ! nat v \<noteq> c" using v(3) new nth_mem by blast
  then show "match v = Inr False" using m [OF v(1,2)] match_rep [OF keys key v(1,2)] by simp
qed

end

interpretation string_keys: hashed_keys str_rep taggedStringEqual bal_string_hash
  "\<lambda>s bs. hashFinish (hash_content (hashInit s) bs) s"
  by unfold_locales (simp_all add: taggedStringEqual_rep bal_string_hash_rep)

section \<open>Slots and shifts\<close>

lemma and_3: "es \<le> 3 \<Longrightarrow> es AND 3 = (es :: nat)"
proof -
  assume "es \<le> 3"
  then have "es = 0 \<or> es = 1 \<or> es = 2 \<or> es = 3" by linarith
  then show ?thesis by auto
qed

lemma slot_value_small:
  assumes "es \<le> 3" "0 \<le> n" "n < 2 ^ (8 * 2 ^ es) - 1"
  shows "slot_value es n = n" "slot_value es (- 1) \<noteq> n"
proof -
  have "es = 0 \<or> es = 1 \<or> es = 2 \<or> es = 3" using assms(1) by linarith
  then show "slot_value es n = n" "slot_value es (- 1) \<noteq> n"
    using assms(2,3) by (auto simp: slot_value_def)
qed

lemma slots_empty: "slots es (replicate N (slot_value es (- 1))) = replicate N (- 1)"
  by (simp add: slots_def)

lemma slots_put:
  assumes "es \<le> 3" "0 \<le> n" "n < 2 ^ (8 * 2 ^ es) - 1"
  shows "slots es (t[i := slot_value es n]) = (slots es t)[i := n]"
  using slot_value_small [OF assms] by (simp add: slots_def map_update)

lemma home_of_hash:
  assumes "n \<le> 30"
  shows "uint (h AND word_of_int (2 ^ n - 1)) = int (unat (h :: u64) mod 2 ^ n)"
proof -
  have "(word_of_int (2 ^ n - 1) :: u64) = mask n"
    by (simp add: mask_eq_exp_minus_1)
  then have "h AND word_of_int (2 ^ n - 1) = take_bit n h" by (simp add: take_bit_eq_mask)
  then have "uint (h AND word_of_int (2 ^ n - 1)) = take_bit n (uint h)"
    by (simp only: unsigned_take_bit_eq)
  also have "\<dots> = int (unat h) mod 2 ^ n" by (simp add: take_bit_eq_mod)
  finally have "uint (h AND word_of_int (2 ^ n - 1)) = int (unat h) mod 2 ^ n" .
  then show ?thesis by (simp add: of_nat_mod)
qed

text \<open>The shape of a table: how its length and element size relate to the number of fields.\<close>

definition table_shape :: "mapping_obj \<Rightarrow> nat \<Rightarrow> bool" where
  "table_shape m n \<longleftrightarrow>
     1 \<le> mo_tableLengthShift m \<and> mo_tableLengthShift m \<le> 30 \<and> mo_tableElementShift m \<le> 3 \<and>
     length (mo_table m) = 2 ^ mo_tableLengthShift m \<and>
     mo_tableLengthShift m \<le> 8 * 2 ^ mo_tableElementShift m + 1 \<and>
     n < 2 ^ (mo_tableLengthShift m - 1)"

lemma table_shapeD:
  assumes "table_shape m n"
  shows "mo_tableElementShift m AND 3 = mo_tableElementShift m" "shl_int (mo_tableLengthShift m) = Inr (int (length (mo_table m)))"
    "n < length (mo_table m)" "k < n \<Longrightarrow> int k < 2 ^ (8 * 2 ^ mo_tableElementShift m) - 1"
    "uint (h AND word_of_int (int (length (mo_table m)) - 1)) = int (unat (h :: u64) mod length (mo_table m))"
proof -
  let ?t = "mo_tableLengthShift m" and ?w = "8 * 2 ^ mo_tableElementShift m"
  have sh: "1 \<le> ?t" "?t \<le> 30" "mo_tableElementShift m \<le> 3" "length (mo_table m) = 2 ^ ?t" "?t \<le> ?w + 1" "n < 2 ^ (?t - 1)"
    using assms by (simp_all add: table_shape_def)
  show "mo_tableElementShift m AND 3 = mo_tableElementShift m" using sh(3) by (rule and_3)
  show "shl_int ?t = Inr (int (length (mo_table m)))" using sh by (simp add: shl_int_def)
  have "(2 :: nat) ^ (?t - 1) \<le> 2 ^ ?t" by (intro power_increasing) auto
  then show "n < length (mo_table m)" using sh(4,6) by linarith
  have "(2 :: nat) ^ (?t - 1) \<le> 2 ^ ?w" using sh by (intro power_increasing) auto
  then have "k < n \<Longrightarrow> Suc k < 2 ^ ?w" using sh by linarith
  then have "k < n \<Longrightarrow> int (Suc k) < int (2 ^ ?w)" by (simp only: of_nat_less_iff)
  then show "k < n \<Longrightarrow> int k < 2 ^ ?w - 1" by simp
  show "uint (h AND word_of_int (int (length (mo_table m)) - 1)) = int (unat (h :: u64) mod length (mo_table m))"
    using home_of_hash [OF sh(2), of h] sh(4) by simp
qed

section \<open>The abstraction\<close>

abbreviation str_hash :: "rt \<Rightarrow> byte list \<Rightarrow> u64" where
  "str_hash s bs \<equiv> hashFinish (hash_content (hashInit s) bs) s"

abbreviation table_slots :: "mapping_obj \<Rightarrow> int list" where
  "table_slots m \<equiv> slots (mo_tableElementShift m) (mo_table m)"

definition map_rep :: "rt \<Rightarrow> mapping_obj \<Rightarrow> (byte list \<times> tagged) list \<Rightarrow> bool" where
  "map_rep s m kvs \<longleftrightarrow>
     arr_inv 4 (mo_fArray m) \<and> arr_capacity (mo_fArray m) < 2 ^ 31 \<and>
     list_all2 (str_rep s) (map mf_key (arr_list (mo_fArray m))) (map fst kvs) \<and>
     map mf_value (arr_list (mo_fArray m)) = map snd kvs \<and>
     distinct (map fst kvs) \<and> table_shape m (length kvs) \<and>
     table_inv (table_slots m) (string_keys.homes s (length (mo_table m)) (map fst kvs))"

lemma map_repD:
  assumes "map_rep s m kvs"
  shows "arr_inv 4 (mo_fArray m)" "arr_capacity (mo_fArray m) < 2 ^ 31"
    "list_all2 (str_rep s) (map mf_key (arr_list (mo_fArray m))) (map fst kvs)"
    "map mf_value (arr_list (mo_fArray m)) = map snd kvs" "distinct (map fst kvs)" "table_shape m (length kvs)"
    "table_inv (table_slots m) (string_keys.homes s (length (mo_table m)) (map fst kvs))"
    "length (arr_list (mo_fArray m)) = length kvs" "arr_length (mo_fArray m) = int (length kvs)"
proof -
  have v: "map mf_value (arr_list (mo_fArray m)) = map snd kvs" and i: "arr_inv 4 (mo_fArray m)"
    using assms by (simp_all add: map_rep_def)
  show "length (arr_list (mo_fArray m)) = length kvs" using arg_cong [OF v, of length] by simp
  then show "arr_length (mo_fArray m) = int (length kvs)"
    using arr_list_length [OF i] arr_invD(1) [OF i] by simp
qed (use assms in \<open>simp_all add: map_rep_def\<close>)

lemma block_get_arr_list:
  assumes inv: "arr_inv cells ap" "0 < cells" and v: "0 \<le> v" "v < arr_length ap"
  shows "block_get (arr_members ap) v = Inr (arr_list ap ! nat v)"
proof -
  have l: "nat v < nat (arr_length ap)" using v by linarith
  then have i: "nat v < length (arr_list ap)" using arr_list_length [OF inv] by simp
  then have m: "nat v < length (arr_members ap)" by (simp add: arr_list_def)
  have "arr_members ap ! nat v \<noteq> None" using arr_invD(5) [OF inv(1) l] .
  then have "arr_members ap ! nat v = Some (arr_list ap ! nat v)" using l m by (auto simp: arr_list_def)
  moreover have "v < int (length (arr_members ap))" using m v by linarith
  ultimately show ?thesis using v by (simp add: block_get_def)
qed

lemma str_hash_cong: "img s1 = img s \<Longrightarrow> str_hash s1 bs = str_hash s bs"
  by (simp add: hashFinish_def hashInit_def)

lemma homes_cong:
  assumes "img s1 = img s"
  shows "string_keys.homes s1 N cs = string_keys.homes s N cs"
  by (simp add: string_keys.homes_def str_hash_cong [OF assms])

lemma map_rep_mono:
  assumes "map_rep s m kvs" "img s1 = img s" "\<And>tp bs. str_rep s tp bs \<Longrightarrow> str_rep s1 tp bs"
  shows "map_rep s1 m kvs"
proof -
  have "list_all2 (str_rep s1) (map mf_key (arr_list (mo_fArray m))) (map fst kvs)"
    using map_repD(3) [OF assms(1)] by (rule list_all2_mono) (rule assms(3))
  then show ?thesis using assms(1) by (simp add: map_rep_def homes_cong [OF assms(2)])
qed

section \<open>Lookup\<close>

lemma matches_rep:
  assumes "map_rep s m kvs" "0 \<le> v" "v < int (length (map fst kvs))"
  shows "matches m key s v = taggedStringEqual (map mf_key (arr_list (mo_fArray m)) ! nat v) key s"
proof -
  note r = map_repD [OF assms(1)]
  have "block_get (arr_members (mo_fArray m)) v = Inr (arr_list (mo_fArray m) ! nat v)"
    using assms(2,3) r(9) by (intro block_get_arr_list [OF r(1)]) simp_all
  moreover have "nat v < length (arr_list (mo_fArray m))" using assms(2,3) r(8) by simp
  ultimately show ?thesis by (simp add: matches_def)
qed

lemma lookup_unfold:
  assumes "table_shape m n"
  shows "lookup m key h s = lookup_loop (length (mo_table m)) (matches m key s) (mo_table m) (mo_tableElementShift m)
           (int (length (mo_table m)) - 1) (int (unat h mod length (mo_table m)))"
    "lookupDistinct m h = lookup_loop (length (mo_table m)) (\<lambda>mapIndex. Inr False) (mo_table m) (mo_tableElementShift m)
           (int (length (mo_table m)) - 1) (int (unat h mod length (mo_table m)))"
  by (simp_all only: lookup_def lookupDistinct_def table_shapeD [OF assms] bindR_simps)

lemma lookup_rep_present:
  assumes r: "map_rep s m kvs" and k: "str_rep s key k" and x: "x < length kvs" "fst (kvs ! x) = k"
  shows "lookup m key (str_hash s k) s = Inr (int x)"
  unfolding lookup_unfold [OF map_repD(6) [OF r]]
  using x by (intro string_keys.lookup_present [OF map_repD(7,3) [OF r] k map_repD(5) [OF r]])
    (simp_all add: matches_rep [OF r])

lemma lookup_rep_absent:
  assumes r: "map_rep s m kvs" and k: "str_rep s key k" "k \<notin> fst ` set kvs"
  shows "\<exists>j < length (mo_table m).
      table_slots m ! probe (length (mo_table m)) (unat (str_hash s k) mod length (mo_table m)) j = - 1 \<and>
      (\<forall>j' < j. table_slots m ! probe (length (mo_table m)) (unat (str_hash s k) mod length (mo_table m)) j' \<noteq> - 1) \<and>
      lookup m key (str_hash s k) s =
        Inr (- int (probe (length (mo_table m)) (unat (str_hash s k) mod length (mo_table m)) j) - 1)"
  unfolding lookup_unfold [OF map_repD(6) [OF r]]
  using k table_shapeD(3) [OF map_repD(6) [OF r]]
  by (intro string_keys.lookup_absent [OF map_repD(7) [OF r] _ map_repD(3) [OF r] k(1)])
    (simp_all add: matches_rep [OF r])

theorem bal_mapping_get_rep:
  assumes "mapping_at mapping s = Inr m" "map_rep s m kvs" "str_rep s key k"
  shows "bal_mapping_get mapping key s = Inr (case map_of kvs k of None \<Rightarrow> 0 | Some v \<Rightarrow> v)"
proof -
  note r = map_repD [OF assms(2)] and h = bal_string_hash_rep [OF assms(3)]
  show ?thesis
  proof (cases "k \<in> fst ` set kvs")
    case True
    then obtain x where x: "x < length kvs" "fst (kvs ! x) = k" by (metis imageE in_set_conv_nth)
    have mo: "map_of kvs k = Some (snd (kvs ! x))"
      using x r(5) by (metis map_of_eq_Some_iff nth_mem prod.collapse)
    have "block_get (arr_members (mo_fArray m)) (int x) = Inr (arr_list (mo_fArray m) ! x)"
      using block_get_arr_list [OF r(1), of "int x"] x r(9) by simp
    moreover have "mf_value (arr_list (mo_fArray m) ! x) = snd (kvs ! x)"
      using r(4,8) x(1) by (metis nth_map)
    ultimately show ?thesis
      using lookup_rep_present [OF assms(2,3) x] assms(1) h mo by (simp add: bal_mapping_get_def)
  next
    case False
    then have "map_of kvs k = None" by (simp add: map_of_eq_None_iff)
    moreover obtain e where "lookup m key (str_hash s k) s = Inr (- int e - 1)"
      using lookup_rep_absent [OF assms(2,3) False] by blast
    ultimately show ?thesis using assms(1) h by (simp only: bal_mapping_get_def bindR_simps) simp
  qed
qed

section \<open>Entering a field\<close>

lemma table_insert_ok:
  assumes "table_shape m n" "e < length (mo_table m)"
  shows "table_insert m (- int e - 1) v =
           Inr (m\<lparr>mo_table := (mo_table m)[e := slot_value (mo_tableElementShift m) v]\<rparr>)"
  using assms(2) by (simp add: table_insert_def put_def table_shapeD(1) [OF assms(1)])

lemma table_slots_insert:
  assumes "table_shape m n" "k < n"
  shows "slots (mo_tableElementShift m) ((mo_table m)[e := slot_value (mo_tableElementShift m) (int k)]) =
           (table_slots m)[e := int k]"
  using assms(1) table_shapeD(4) [OF assms] by (intro slots_put) (simp_all add: table_shape_def)

lemma lookupDistinct_ok:
  assumes sh: "table_shape m n" and inv: "table_inv (table_slots m) hs" and n: "length hs \<le> n"
  shows "\<exists>j < length (mo_table m).
      table_slots m ! probe (length (mo_table m)) (unat h mod length (mo_table m)) j = - 1 \<and>
      (\<forall>j' < j. table_slots m ! probe (length (mo_table m)) (unat h mod length (mo_table m)) j' \<noteq> - 1) \<and>
      lookupDistinct m h = Inr (- int (probe (length (mo_table m)) (unat h mod length (mo_table m)) j) - 1)"
  unfolding lookup_unfold(2) [OF sh]
proof (rule lookup_loop_absent [OF inv])
  show "length hs < length (mo_table m)" using n table_shapeD(3) [OF sh] by simp
  show "unat h mod length (mo_table m) < length (mo_table m)"
    using table_shapeD(3) [OF sh] by (intro mod_less_divisor) linarith
qed simp

lemma mapping_rebuild_ok:
  assumes sh: "table_shape m (length cs)" and inv: "table_inv (table_slots m) (string_keys.homes s (length (mo_table m)) (take i cs))"
    and f: "\<And>x. x < length cs \<Longrightarrow> \<exists>f. block_get (arr_members (mo_fArray m)) (int x) = Inr f \<and> str_rep s (mf_key f) (cs ! x)"
    and i: "i \<le> length cs"
  shows "\<exists>T. mapping_rebuild (length cs - i) (int i) m s = Inr (m\<lparr>mo_table := T\<rparr>) \<and> length T = length (mo_table m) \<and>
           table_inv (slots (mo_tableElementShift m) T) (string_keys.homes s (length (mo_table m)) cs)"
  using sh inv f i
proof (induction "length cs - i" arbitrary: i m)
  case 0
  then have "i = length cs" by simp
  with 0 show ?case by (intro exI [of _ "mo_table m"]) simp
next
  case (Suc d)
  then have il: "i < length cs" and d: "length cs - i = Suc (length cs - Suc i)" by simp_all
  let ?N = "length (mo_table m)" and ?h = "str_hash s (cs ! i)"
  let ?hs = "string_keys.homes s ?N (take i cs)"
  obtain f where fi: "block_get (arr_members (mo_fArray m)) (int i) = Inr f" "str_rep s (mf_key f) (cs ! i)"
    using Suc.prems(3) [OF il] by blast
  have lh: "length ?hs = i" using il by simp
  obtain j where j: "j < ?N" "table_slots m ! probe ?N (unat ?h mod ?N) j = - 1"
      "\<forall>j' < j. table_slots m ! probe ?N (unat ?h mod ?N) j' \<noteq> - 1"
      "lookupDistinct m ?h = Inr (- int (probe ?N (unat ?h mod ?N) j) - 1)"
    using lookupDistinct_ok [OF Suc.prems(1,2), of ?h] il by auto
  have hm: "unat ?h mod ?N < ?N" using table_shapeD(3) [OF Suc.prems(1)] by (intro mod_less_divisor) linarith
  let ?e = "probe ?N (unat ?h mod ?N) j"
  define m1 where "m1 = m\<lparr>mo_table := (mo_table m)[?e := slot_value (mo_tableElementShift m) (int i)]\<rparr>"
  have m1: "mo_tableElementShift m1 = mo_tableElementShift m" "length (mo_table m1) = ?N" "mo_fArray m1 = mo_fArray m"
    "table_shape m1 (length cs)" using Suc.prems(1) by (simp_all add: m1_def table_shape_def)
  have sl: "table_slots m1 = (table_slots m)[?e := int (length ?hs)]"
    using table_slots_insert [OF Suc.prems(1) il] lh by (simp add: m1_def)
  have "table_inv (table_slots m1) (?hs @ [unat ?h mod ?N])"
    unfolding sl using table_inv_insert [OF Suc.prems(2), of "unat ?h mod ?N" j] hm j by simp
  also have "?hs @ [unat ?h mod ?N] = string_keys.homes s (length (mo_table m1)) (take (Suc i) cs)"
    using il by (simp add: string_keys.homes_def take_Suc_conv_app_nth m1(2))
  finally have inv1: "table_inv (table_slots m1) (string_keys.homes s (length (mo_table m1)) (take (Suc i) cs))" .
  have "table_insert m (- int ?e - 1) (int i) = Inr m1"
    unfolding m1_def using probe_less [OF hm] by (intro table_insert_ok [OF Suc.prems(1)])
  then have step: "mapping_rebuild (length cs - i) (int i) m s = mapping_rebuild (length cs - Suc i) (int (Suc i)) m1 s"
    unfolding d by (simp only: mapping_rebuild.simps fi bal_string_hash_rep [OF fi(2)] j(4) bindR_simps) (simp add: add.commute)
  have "\<exists>T. mapping_rebuild (length cs - Suc i) (int (Suc i)) m1 s = Inr (m1\<lparr>mo_table := T\<rparr>) \<and> length T = length (mo_table m1) \<and>
      table_inv (slots (mo_tableElementShift m1) T) (string_keys.homes s (length (mo_table m1)) cs)"
    using Suc.hyps(2) il Suc.prems(3) m1 by (intro Suc.hyps(1) [OF _ m1(4) inv1]) simp_all
  then show ?case unfolding step m1(1,2) by (auto simp: m1_def)
qed

section \<open>Growing\<close>

lemma alloc_same:
  assumes "bal_alloc n s = Inr (p, s1)"
  shows "heap s1 = heap s" "img s1 = img s" "junk s1 = junk s" "wf_rt s \<Longrightarrow> wf_rt s1"
  using bal_alloc_ok [OF assms] bal_alloc_wf [OF _ assms] by simp_all

lemma str_rep_heap: "heap s1 = heap s \<Longrightarrow> str_rep s1 tp bs = str_rep s tp bs"
  by (simp add: str_rep_def)

lemma power_nat_mono: "m \<le> n \<Longrightarrow> (2 :: nat) ^ m \<le> 2 ^ n"
  by (rule power_increasing) simp_all

lemma growTable_ok:
  assumes t: "1 \<le> mo_tableLengthShift m" "mo_tableLengthShift m \<le> 29" and e: "mo_tableElementShift m \<le> 3"
    and te: "mo_tableLengthShift m \<le> 8 * 2 ^ mo_tableElementShift m + 1" and n: "n \<le> 2 ^ (mo_tableLengthShift m - 1)"
  shows "case growTable m s of
      Inl f \<Rightarrow> f = OutOfMemory
    | Inr (m1, s1) \<Rightarrow> table_shape m1 n \<and> table_slots m1 = replicate (length (mo_table m1)) (- 1) \<and>
        mo_fArray m1 = mo_fArray m \<and> mo_desc m1 = mo_desc m \<and> (\<exists>k p. bal_alloc k s = Inr (p, s1))"
proof -
  let ?t = "mo_tableLengthShift m" and ?e = "mo_tableElementShift m"
  define e1 where "e1 = (if 8 * 2 ^ ?e < ?t then ?e + 1 else ?e)"
  have "?e = 0 \<or> ?e = 1 \<or> ?e = 2 \<or> ?e = 3" using e by linarith
  then have e1: "e1 \<le> 3" "?t \<le> 8 * 2 ^ e1" using t te by (auto simp: e1_def)
  define m1 where "m1 = m\<lparr>mo_tableElementShift := e1, mo_tableLengthShift := ?t + 1,
      mo_table := replicate (2 ^ (?t + 1)) (slot_value e1 (- 1))\<rparr>"
  have g: "growTable m s = bindR (bal_alloc (int (2 ^ (?t + 1 + e1))) s) (\<lambda>(p, s1). Inr (m1, s1))"
    by (simp add: growTable_def allocTable_def Let_def e1_def [symmetric] m1_def power_add)
  have "(2 :: nat) ^ (?t - 1) < 2 ^ ?t" using t by (intro power_strict_increasing) auto
  then have "n < 2 ^ ?t" using n by linarith
  then have "table_shape m1 n" using t e1 by (simp add: table_shape_def m1_def)
  moreover have "table_slots m1 = replicate (length (mo_table m1)) (- 1)" by (simp add: m1_def slots_empty)
  ultimately show ?thesis
    by (auto simp: g m1_def dest: bal_alloc_fault split: sum.splits simp: bindR_eq_Inl)
qed

lemma arr_push:
  assumes inv: "arr_inv cells ap" "0 < cells" and room: "arr_length ap < arr_capacity ap"
    and ms_def: "ms = (arr_members ap)[nat (arr_length ap) := Some v]"
  shows "block_set (arr_members ap) (arr_length ap) v = Inr ms"
    "arr_inv cells (ap\<lparr>arr_members := ms, arr_length := arr_length ap + 1\<rparr>)"
    "arr_list (ap\<lparr>arr_members := ms, arr_length := arr_length ap + 1\<rparr>) = arr_list ap @ [v]"
proof -
  note d = arr_invD [OF inv(1)]
  have "arr_capacity ap \<le> int cells * arr_capacity ap"
    using d inv(2) mult_right_mono [of 1 "int cells" "arr_capacity ap"] by simp
  then have l: "arr_length ap < int (length (arr_members ap))" using d room by linarith
  then show "block_set (arr_members ap) (arr_length ap) v = Inr ms" using d(1) unfolding ms_def by (intro block_set_ok)
  have nl: "nat (arr_length ap) < length (arr_members ap)" using l d(1) by linarith
  have ns: "nat (arr_length ap + 1) = Suc (nat (arr_length ap))" using d(1) by simp
  have "ms ! i \<noteq> None" if "i < Suc (nat (arr_length ap))" for i
    using that nl d(5) [of i] by (cases "i = nat (arr_length ap)") (auto simp: ms_def)
  then show "arr_inv cells (ap\<lparr>arr_members := ms, arr_length := arr_length ap + 1\<rparr>)"
    using d(1-4) room ns by (simp add: arr_inv_def ms_def)
  show "arr_list (ap\<lparr>arr_members := ms, arr_length := arr_length ap + 1\<rparr>) = arr_list ap @ [v]"
    using nl by (simp add: arr_list_def ms_def ns take_Suc_conv_app_nth)
qed

lemma mappingPush_ok:
  assumes inv: "arr_inv 4 (mo_fArray m)" and room: "arr_length (mo_fArray m) < arr_capacity (mo_fArray m)"
    and sh: "table_shape m n" and e: "e < length (mo_table m)"
  shows "\<exists>ap. mappingPush m key value (- int e - 1) = Inr (m\<lparr>mo_fArray := ap,
           mo_table := (mo_table m)[e := slot_value (mo_tableElementShift m) (arr_length (mo_fArray m))]\<rparr>) \<and>
         arr_inv 4 ap \<and> arr_capacity ap = arr_capacity (mo_fArray m) \<and> arr_length ap = arr_length (mo_fArray m) + 1 \<and>
         arr_list ap = arr_list (mo_fArray m) @ [\<lparr>mf_key = key, mf_value = value\<rparr>]"
proof -
  note p = arr_push [OF inv _ room refl, of "\<lparr>mf_key = key, mf_value = value\<rparr>"]
  have "table_shape (m\<lparr>mo_fArray := a\<rparr>) n" for a using sh by (simp add: table_shape_def)
  note ti = table_insert_ok [OF this, of e]
  show ?thesis
    using p e ti by (intro exI [of _ "(mo_fArray m)\<lparr>arr_members := (arr_members (mo_fArray m))[nat (arr_length (mo_fArray m)) :=
          Some \<lparr>mf_key = key, mf_value = value\<rparr>], arr_length := arr_length (mo_fArray m) + 1\<rparr>"])
      (simp add: mappingPush_def Let_def)
qed

text \<open>Everything \<open>map_rep\<close> says except for the table.\<close>

definition fields_rep :: "rt \<Rightarrow> map_field c_array \<Rightarrow> (byte list \<times> tagged) list \<Rightarrow> bool" where
  "fields_rep s ap kvs \<longleftrightarrow>
     arr_inv 4 ap \<and> arr_capacity ap < 2 ^ 31 \<and> list_all2 (str_rep s) (map mf_key (arr_list ap)) (map fst kvs) \<and>
     map mf_value (arr_list ap) = map snd kvs \<and> distinct (map fst kvs)"

lemma map_rep_fields:
  "map_rep s m kvs \<longleftrightarrow> fields_rep s (mo_fArray m) kvs \<and> table_shape m (length kvs) \<and>
     table_inv (table_slots m) (string_keys.homes s (length (mo_table m)) (map fst kvs))"
  by (auto simp: map_rep_def fields_rep_def)

lemma fields_repD:
  assumes "fields_rep s ap kvs"
  shows "length (arr_list ap) = length kvs" "arr_length ap = int (length kvs)"
    "x < length kvs \<Longrightarrow> \<exists>f. block_get (arr_members ap) (int x) = Inr f \<and> str_rep s (mf_key f) (map fst kvs ! x)"
proof -
  have v: "map mf_value (arr_list ap) = map snd kvs" and i: "arr_inv 4 ap"
    and k: "list_all2 (str_rep s) (map mf_key (arr_list ap)) (map fst kvs)"
    using assms by (simp_all add: fields_rep_def)
  show l: "length (arr_list ap) = length kvs" using arg_cong [OF v, of length] by simp
  then show a: "arr_length ap = int (length kvs)" using arr_list_length [OF i] arr_invD(1) [OF i] by simp
  assume x: "x < length kvs"
  have "block_get (arr_members ap) (int x) = Inr (arr_list ap ! x)"
    using block_get_arr_list [OF i, of "int x"] x a by simp
  moreover have "str_rep s (mf_key (arr_list ap ! x)) (map fst kvs ! x)"
    using list_all2_nthD [OF k, of x] x l by simp
  ultimately show "\<exists>f. block_get (arr_members ap) (int x) = Inr f \<and> str_rep s (mf_key f) (map fst kvs ! x)" by blast
qed

lemma fields_rep_same:
  assumes "fields_rep s ap kvs" "heap s1 = heap s"
  shows "fields_rep s1 ap kvs"
  using assms(1) by (simp add: fields_rep_def str_rep_heap [OF assms(2), abs_def] cong: list.rel_cong)

lemma fields_rep_push:
  assumes "fields_rep s ap kvs" "str_rep s key k" "k \<notin> fst ` set kvs" "arr_inv 4 ap1" "arr_capacity ap1 = arr_capacity ap"
    "arr_list ap1 = arr_list ap @ [\<lparr>mf_key = key, mf_value = value\<rparr>]"
  shows "fields_rep s ap1 (kvs @ [(k, value)])"
  using assms by (auto simp: fields_rep_def intro!: list_all2_appendI)

lemma mappingGrow_rep:
  assumes f: "fields_rep s (mo_fArray m) kvs" and t: "1 \<le> mo_tableLengthShift m" "mo_tableLengthShift m \<le> 29"
    and e: "mo_tableElementShift m \<le> 3" "mo_tableLengthShift m \<le> 8 * 2 ^ mo_tableElementShift m + 1"
    and n: "length kvs \<le> 2 ^ (mo_tableLengthShift m - 1)"
  shows "case mappingGrow m s of
      Inl e \<Rightarrow> e = OutOfMemory
    | Inr (m1, s1) \<Rightarrow> map_rep s1 m1 kvs \<and> mo_fArray m1 = mo_fArray m \<and> mo_desc m1 = mo_desc m \<and>
        (\<exists>k p. bal_alloc k s = Inr (p, s1))"
proof (cases "growTable m s")
  case (Inl e)
  then show ?thesis using growTable_ok [OF t e n, of s] by (simp add: mappingGrow_def)
next
  case (Inr r)
  obtain m1 s1 where r: "r = (m1, s1)" by (cases r)
  have g: "table_shape m1 (length kvs)" "table_slots m1 = replicate (length (mo_table m1)) (- 1)"
      "mo_fArray m1 = mo_fArray m" "mo_desc m1 = mo_desc m" and al: "\<exists>k p. bal_alloc k s = Inr (p, s1)"
    using growTable_ok [OF t e n, of s] Inr r by auto
  have h1: "heap s1 = heap s" using al alloc_same(1) by blast
  have f1: "fields_rep s1 (mo_fArray m1) kvs" using fields_rep_same [OF f h1] g(3) by simp
  have "table_shape m1 (length (map fst kvs))"
    "table_inv (table_slots m1) (string_keys.homes s1 (length (mo_table m1)) (take 0 (map fst kvs)))"
    using g(1,2) table_inv_empty by (simp_all add: string_keys.homes_def)
  from mapping_rebuild_ok [OF this] fields_repD(3) [OF f1] obtain T
    where T: "mapping_rebuild (length kvs) 0 m1 s1 = Inr (m1\<lparr>mo_table := T\<rparr>)" "length T = length (mo_table m1)"
      "table_inv (slots (mo_tableElementShift m1) T) (string_keys.homes s1 (length (mo_table m1)) (map fst kvs))"
    by auto
  have nl: "nat (arr_length (mo_fArray m)) = length kvs" using fields_repD(2) [OF f] by simp
  have "map_rep s1 (m1\<lparr>mo_table := T\<rparr>) kvs"
    using f1 g(1) T(2,3) by (simp add: map_rep_fields table_shape_def)
  then show ?thesis using Inr r T(1) g al by (simp add: mappingGrow_def nl)
qed

lemma field_room:
  assumes f: "fields_rep s ap kvs" and n: "length kvs < 2 ^ 29" and c: "arr_capacity ap \<noteq> 1"
  shows "case (if arr_length ap \<ge> arr_capacity ap then bal_array_grow ap 0 MAP_FIELD_SHIFT sizeof_MapField s else Inr (ap, s)) of
      Inl e \<Rightarrow> e = OutOfMemory
    | Inr (ap1, s1) \<Rightarrow> fields_rep s1 ap1 kvs \<and> arr_length ap1 < arr_capacity ap1 \<and> arr_capacity ap1 \<noteq> 1 \<and>
        (s1 = s \<or> (\<exists>k p. bal_alloc k s = Inr (p, s1)))"
proof (cases "arr_length ap < arr_capacity ap")
  case True
  then show ?thesis using f c by simp
next
  case False
  have inv: "arr_inv 4 ap" using f by (simp add: fields_rep_def)
  note d = arr_invD [OF inv] and l = fields_repD(2) [OF f]
  have cap: "arr_capacity ap = int (length kvs)" using False d l by simp
  have lt: "int (length kvs) < 2 ^ 29" using n by simp
  define nc where "nc = grown_capacity (arr_capacity ap) 0"
  have "arr_capacity ap < nc"
    unfolding nc_def using d c cap lt by (intro grown_capacity_bounds(5)) (simp_all add: ARRAY_LENGTH_MAX_eq)
  moreover have "nc < 2 ^ 31"
    using lt unfolding nc_def grown_capacity_def cap
    by (auto simp: INITIAL_CAPACITY_def ARRAY_LENGTH_MAX_eq max_def min_def)
  moreover have "nc \<noteq> 1"
    using c unfolding nc_def grown_capacity_def cap
    by (auto simp: INITIAL_CAPACITY_def ARRAY_LENGTH_MAX_eq max_def min_def)
  moreover have "0 \<le> arr_capacity ap" using d(1,2) by simp
  ultimately have nc: "nc < 2 ^ 31" "arr_capacity ap < nc" "nc \<noteq> 1" "0 \<le> nc" by linarith+
  have sz: "2 ^ MAP_FIELD_SHIFT = sizeof_MapField * 4" "0 < sizeof_MapField" "0 < (4 :: nat)" by simp_all
  have cm: "arr_capacity ap < ARRAY_LENGTH_MAX" "0 \<le> ARRAY_LENGTH_MAX" using cap lt by (simp_all add: ARRAY_LENGTH_MAX_eq)
  have room: "nc * 2 ^ MAP_FIELD_SHIFT \<le> INT64_MAX" using nc by simp
  show ?thesis
  proof (cases "bal_array_grow ap 0 MAP_FIELD_SHIFT sizeof_MapField s")
    case (Inl e)
    then show ?thesis using bal_array_grow_fault [OF inv sz cm room [unfolded nc_def] Inl] False by simp
  next
    case (Inr r)
    obtain ap1 s1 where r: "r = (ap1, s1)" by (cases r)
    note g = bal_array_grow_inv [OF inv sz cm nc_def room Inr [unfolded r]]
    have "heap s1 = heap s" using g(5) alloc_same(1) by blast
    then have "fields_rep s1 ap1 kvs"
      using fields_rep_same [OF f] g nc(1) by (simp add: fields_rep_def)
    then show ?thesis using False Inr r g nc d by simp
  qed
qed

text \<open>The slot where a new key is entered.\<close>

abbreviation free_slot :: "rt \<Rightarrow> mapping_obj \<Rightarrow> byte list \<Rightarrow> nat \<Rightarrow> nat" where
  "free_slot s m k j \<equiv> probe (length (mo_table m)) (unat (str_hash s k) mod length (mo_table m)) j"

lemma push_rep:
  assumes r: "map_rep s m kvs" and f: "fields_rep s1 ap (kvs @ [(k, value)])" and i: "img s1 = img s"
    and n: "length kvs + 1 < 2 ^ (mo_tableLengthShift m - 1)"
    and j: "j < length (mo_table m)" "table_slots m ! free_slot s m k j = - 1" "\<forall>j' < j. table_slots m ! free_slot s m k j' \<noteq> - 1"
  shows "map_rep s1 (m\<lparr>mo_fArray := ap, mo_table := (mo_table m)[free_slot s m k j := slot_value (mo_tableElementShift m) (int (length kvs))]\<rparr>)
    (kvs @ [(k, value)])"
proof -
  note R = map_repD [OF r]
  let ?N = "length (mo_table m)" and ?home = "unat (str_hash s k) mod length (mo_table m)"
  let ?m2 = "m\<lparr>mo_fArray := ap, mo_table := (mo_table m)[free_slot s m k j := slot_value (mo_tableElementShift m) (int (length kvs))]\<rparr>"
  have hm: "?home < ?N" using table_shapeD(3) [OF R(6)] by (intro mod_less_divisor) linarith
  have sh1: "table_shape m (length kvs + 1)" using R(6) n by (simp add: table_shape_def)
  have "table_slots ?m2 = (table_slots m)[free_slot s m k j := int (length kvs)]"
    using table_slots_insert [OF sh1, of "length kvs" "free_slot s m k j"] by simp
  moreover have "table_inv ((table_slots m)[free_slot s m k j := int (length kvs)]) (string_keys.homes s ?N (map fst kvs) @ [?home])"
    using table_inv_insert [OF R(7), of ?home j] hm j by simp
  moreover have "string_keys.homes s ?N (map fst kvs) @ [?home] = string_keys.homes s1 (length (mo_table ?m2)) (map fst (kvs @ [(k, value)]))"
    by (simp add: string_keys.homes_def str_hash_cong [OF i])
  ultimately show ?thesis using f sh1 by (simp add: map_rep_fields table_shape_def)
qed

lemma push_grow_rep:
  assumes sh: "table_shape m (length kvs)" and m2: "mo_tableLengthShift m2 = mo_tableLengthShift m" "mo_tableElementShift m2 = mo_tableElementShift m"
    and f: "fields_rep s (mo_fArray m2) kvs2" "length kvs2 = length kvs + 1" and n: "length kvs + 1 < 2 ^ 29" "2 ^ (mo_tableLengthShift m - 1) \<le> length kvs + 1"
  shows "case mappingGrow m2 s of
      Inl e \<Rightarrow> e = OutOfMemory
    | Inr (m3, s3) \<Rightarrow> map_rep s3 m3 kvs2 \<and> mo_fArray m3 = mo_fArray m2 \<and> mo_desc m3 = mo_desc m2 \<and>
        heap s3 = heap s \<and> img s3 = img s \<and> (wf_rt s \<longrightarrow> wf_rt s3)"
proof -
  have sh: "1 \<le> mo_tableLengthShift m" "mo_tableElementShift m \<le> 3" "mo_tableLengthShift m \<le> 8 * 2 ^ mo_tableElementShift m + 1"
    "length kvs < 2 ^ (mo_tableLengthShift m - 1)" using sh by (simp_all add: table_shape_def)
  have "(2 :: nat) ^ (mo_tableLengthShift m - 1) < 2 ^ 29" using n by linarith
  then have "mo_tableLengthShift m - 1 < 29" by (rule power_less_imp_less_exp [rotated]) simp
  then have t29: "mo_tableLengthShift m \<le> 29" by linarith
  have "length kvs2 \<le> 2 ^ (mo_tableLengthShift m - 1)" using f(2) sh(4) by simp
  note g = mappingGrow_rep [OF f(1), unfolded m2, OF sh(1) t29 sh(2,3) this]
  show ?thesis
  proof (cases "mappingGrow m2 s")
    case (Inr b)
    obtain m3 s3 where b: "b = (m3, s3)" by (cases b)
    have "\<exists>k p. bal_alloc k s = Inr (p, s3)" using g Inr b by auto
    then have "heap s3 = heap s" "img s3 = img s" "wf_rt s \<longrightarrow> wf_rt s3" using alloc_same by blast+
    then show ?thesis using g Inr b by simp
  qed (use g in simp)
qed

text \<open>The part of \<open>mappingGrowPush\<close> behind the growth of the fields.\<close>

lemma push_then_grow_rep:
  assumes r: "map_rep s m kvs" and k: "str_rep s1 key k" "k \<notin> fst ` set kvs" and n: "length kvs + 1 < 2 ^ 29"
    and ap: "fields_rep s1 ap kvs" "arr_length ap < arr_capacity ap" and i: "img s1 = img s"
    and j: "j < length (mo_table m)" "table_slots m ! free_slot s m k j = - 1" "\<forall>j' < j. table_slots m ! free_slot s m k j' \<noteq> - 1"
  shows "case bindR (mappingPush (m\<lparr>mo_fArray := ap\<rparr>) key value (- int (free_slot s m k j) - 1)) (\<lambda>mp2.
        bindR (shl_int (mo_tableLengthShift mp2 - 1)) (\<lambda>half.
          if int (length kvs) + 1 \<ge> half then mappingGrow mp2 s1 else Inr (mp2, s1))) of
      Inl e \<Rightarrow> e = OutOfMemory
    | Inr (m1, s2) \<Rightarrow> map_rep s2 m1 (kvs @ [(k, value)]) \<and> mo_desc m1 = mo_desc m \<and> arr_capacity (mo_fArray m1) = arr_capacity ap \<and>
        heap s2 = heap s1 \<and> img s2 = img s1 \<and> (wf_rt s1 \<longrightarrow> wf_rt s2)"
proof -
  let ?t = "mo_tableLengthShift m" and ?ma = "m\<lparr>mo_fArray := ap\<rparr>"
  note sh = map_repD(6) [OF r]
  have "unat (str_hash s k) mod length (mo_table m) < length (mo_table m)"
    using table_shapeD(3) [OF sh] by (intro mod_less_divisor) linarith
  then have e: "free_slot s m k j < length (mo_table ?ma)" using probe_less by simp
  have ma: "table_shape ?ma (length kvs)" "arr_inv 4 (mo_fArray ?ma)" "arr_length (mo_fArray ?ma) < arr_capacity (mo_fArray ?ma)"
    using sh ap by (simp_all add: table_shape_def fields_rep_def)
  define T where "T = (mo_table m)[free_slot s m k j := slot_value (mo_tableElementShift m) (int (length kvs))]"
  from mappingPush_ok [OF ma(2,3,1) e] obtain ap2 where
    p: "mappingPush ?ma key value (- int (free_slot s m k j) - 1) = Inr (m\<lparr>mo_fArray := ap2, mo_table := T\<rparr>)"
      "arr_inv 4 ap2" "arr_capacity ap2 = arr_capacity ap" "arr_list ap2 = arr_list ap @ [\<lparr>mf_key = key, mf_value = value\<rparr>]"
    using fields_repD(2) [OF ap(1)] by (auto simp: T_def)
  have f2: "fields_rep s1 ap2 (kvs @ [(k, value)])" using fields_rep_push [OF ap(1) k p(2-4)] .
  have "?t \<le> 30" using sh by (simp add: table_shape_def)
  then have half: "shl_int (?t - 1) = Inr (2 ^ (?t - 1))" by (simp add: shl_int_def)
  show ?thesis
  proof (cases "length kvs + 1 < 2 ^ (?t - 1)")
    case True
    then have "int (length kvs + 1) < int (2 ^ (?t - 1))" by (simp only: of_nat_less_iff)
    then show ?thesis using p(1,3) half push_rep [OF r f2 i True j, folded T_def] by simp
  next
    case False
    then have le: "2 ^ (?t - 1) \<le> length kvs + 1" by simp
    then have "int (2 ^ (?t - 1)) \<le> int (length kvs + 1)" by (simp only: of_nat_le_iff)
    then show ?thesis
      using p(1,3) half push_grow_rep [OF sh _ _ _ _ n le, of "m\<lparr>mo_fArray := ap2, mo_table := T\<rparr>" s1 "kvs @ [(k, value)]"] f2
      by (auto split: sum.splits)
  qed
qed

lemma mappingGrowPush_rep:
  assumes r: "map_rep s m kvs" and k: "str_rep s key k" "k \<notin> fst ` set kvs" and li: "lookup m key (str_hash s k) s = Inr li"
    and n: "length kvs + 1 < 2 ^ 29" and c: "arr_capacity (mo_fArray m) \<noteq> 1"
  shows "case mappingGrowPush m key value li s of
      Inl e \<Rightarrow> e = OutOfMemory
    | Inr (m1, s1) \<Rightarrow> map_rep s1 m1 (kvs @ [(k, value)]) \<and> mo_desc m1 = mo_desc m \<and> arr_capacity (mo_fArray m1) \<noteq> 1 \<and>
        heap s1 = heap s \<and> img s1 = img s \<and> (wf_rt s \<longrightarrow> wf_rt s1)"
proof -
  have f: "fields_rep s (mo_fArray m) kvs" using r by (simp add: map_rep_fields)
  obtain j where j: "j < length (mo_table m)" "table_slots m ! free_slot s m k j = - 1" "\<forall>j' < j. table_slots m ! free_slot s m k j' \<noteq> - 1"
    and li': "li = - int (free_slot s m k j) - 1" using lookup_rep_absent [OF r k] li by auto
  define A where "A = (if arr_length (mo_fArray m) \<ge> arr_capacity (mo_fArray m)
      then bal_array_grow (mo_fArray m) 0 MAP_FIELD_SHIFT sizeof_MapField s else Inr (mo_fArray m, s))"
  have n29: "length kvs < 2 ^ 29" using n by simp
  note room = field_room [OF f n29 c, folded A_def]
  have unf: "mappingGrowPush m key value li s = bindR A (\<lambda>(ap, s1). bindR (mappingPush (m\<lparr>mo_fArray := ap\<rparr>) key value li) (\<lambda>mp2.
        bindR (shl_int (mo_tableLengthShift mp2 - 1)) (\<lambda>half.
          if arr_length (mo_fArray m) + 1 \<ge> half then mappingGrow mp2 s1 else Inr (mp2, s1))))"
    by (simp add: mappingGrowPush_def Let_def A_def bindR_assoc split: if_splits) (auto simp: bindR_def split: sum.splits)
  show ?thesis
  proof (cases A)
    case (Inr a)
    obtain ap s1 where a: "a = (ap, s1)" by (cases a)
    have ap: "fields_rep s1 ap kvs" "arr_length ap < arr_capacity ap" "arr_capacity ap \<noteq> 1"
      and al: "s1 = s \<or> (\<exists>k p. bal_alloc k s = Inr (p, s1))" using room Inr a by auto
    have s1: "heap s1 = heap s" "img s1 = img s" "wf_rt s \<longrightarrow> wf_rt s1" using al alloc_same by blast+
    have k1: "str_rep s1 key k" using k(1) str_rep_heap [OF s1(1)] by simp
    note g = push_then_grow_rep [OF r k1 k(2) n ap(1,2) s1(2) j, of "value", folded li']
    note u = unf [unfolded Inr a bindR_simps prod.case fields_repD(2) [OF f]]
    show ?thesis using g [folded u] s1 ap(3) by (cases "mappingGrowPush m key value li s") auto
  qed (use room unf in simp)
qed

end
