(* ===== verification/Rt_Mapping_Ops.thy ===== *)
theory Rt_Mapping_Ops
  imports Rt_Mapping_Props "HOL-Library.AList"
begin

text \<open>
  The entry points of \<open>mapping.c\<close> against association lists: construction gives the empty list,
  \<open>_bal_mapping_set\<close> is \<open>AList.update\<close> behind a type check, \<open>_bal_mapping_init_member\<close> appends, and
  everything else in the heap stays as it is.
\<close>

section \<open>Mappings in the heap\<close>

text \<open>
  \<open>map_at s p kvs\<close>: the tagged pointer \<open>p\<close> designates a mapping with these fields, which can grow.
  The last clause excludes the mappings whose field array has capacity 1, as after the construction with one
  field: their growth is broken (see \<open>Rt_Mapping_Limits\<close>).
\<close>

definition map_at :: "rt \<Rightarrow> tagged \<Rightarrow> u64 \<Rightarrow> (byte list \<times> tagged) list \<Rightarrow> bool" where
  "map_at s p desc kvs \<longleftrightarrow>
     (\<exists>m. heap s (taggedToPtr p) = Some (ObjMapping m) \<and> map_rep s m kvs \<and> mo_desc m = desc \<and>
          arr_capacity (mo_fArray m) \<noteq> 1)"

lemma map_atE:
  assumes "map_at s p desc kvs"
  obtains m where "mapping_at p s = Inr m" "map_rep s m kvs" "mo_desc m = desc" "arr_capacity (mo_fArray m) \<noteq> 1"
    "heap s (taggedToPtr p) = Some (ObjMapping m)"
  using assms by (auto simp: map_at_def mapping_at_def)

lemma str_rep_strings:
  assumes "str_rep s tp bs" "\<And>q ws. heap s q = Some (ObjString ws) \<Longrightarrow> heap s1 q = Some (ObjString ws)"
  shows "str_rep s1 tp bs"
  using assms(1) unfolding str_rep_def by (auto split: if_splits dest!: assms(2))

lemma str_rep_store:
  assumes "str_rep s tp bs" "\<And>ws. heap s p \<noteq> Some (ObjString ws)"
  shows "str_rep (store p x s) tp bs"
  using assms(1) by (rule str_rep_strings) (use assms(2) in auto)

lemma map_at_store:
  assumes old: "heap s (taggedToPtr p) = Some (ObjMapping m0)" and r: "map_rep s m kvs"
    and "mo_desc m = desc" "arr_capacity (mo_fArray m) \<noteq> 1"
  shows "map_at (store (taggedToPtr p) (ObjMapping m) s) p desc kvs"
proof -
  have "map_rep (store (taggedToPtr p) (ObjMapping m) s) m kvs"
    using r old by (intro map_rep_mono [OF r]) (auto intro: str_rep_store)
  then show ?thesis using assms by (simp add: map_at_def)
qed

text \<open>What a call leaves untouched: the image and every object but the mapping itself.\<close>

definition changes_only :: "u64 \<Rightarrow> rt \<Rightarrow> rt \<Rightarrow> bool" where
  "changes_only q s s1 \<longleftrightarrow>
     img s1 = img s \<and> (\<forall>a. a \<noteq> q \<longrightarrow> heap s1 a = heap s a) \<and> (wf_rt s \<longrightarrow> wf_rt s1)"

lemma changes_only_store:
  assumes "heap s1 = heap s" "img s1 = img s" "wf_rt s \<longrightarrow> wf_rt s1" "heap s q = Some x"
  shows "changes_only q s (store q y s1)"
  using assms by (auto simp: changes_only_def intro!: store_wf_old)

section \<open>Setting a field\<close>

definition field_index :: "(byte list \<times> tagged) list \<Rightarrow> byte list \<Rightarrow> nat option" where
  "field_index kvs k = (if k \<in> fst ` set kvs then Some (length (takeWhile (\<lambda>kv. fst kv \<noteq> k) kvs)) else None)"

definition field_type :: "mapping_desc \<Rightarrow> (byte list \<times> tagged) list \<Rightarrow> byte list \<Rightarrow> memberType" where
  "field_type mdp kvs k =
     (case field_index kvs k of
        Some x \<Rightarrow> if int x < md_nFields mdp then md_fieldTypes mdp ! x else md_restType mdp
      | None \<Rightarrow> md_restType mdp)"

lemma field_index_Some:
  assumes "k \<in> fst ` set kvs"
  obtains x where "field_index kvs k = Some x" "x < length kvs" "fst (kvs ! x) = k"
    "AList.update k v kvs = kvs[x := (k, v)]"
proof -
  have "\<exists>x. field_index kvs k = Some x \<and> x < length kvs \<and> fst (kvs ! x) = k \<and> AList.update k v kvs = kvs[x := (k, v)]"
    using assms by (induction kvs) (auto simp: field_index_def split: if_splits)
  then show thesis using that by blast
qed

lemma update_absent: "k \<notin> fst ` set kvs \<Longrightarrow> AList.update k v kvs = kvs @ [(k, v)]"
  by (induction kvs) auto

lemma set_field_value_rep:
  assumes r: "map_rep s m kvs" and x: "x < length kvs" "fst (kvs ! x) = k"
  shows "\<exists>m1. set_field_value m (int x) value = Inr m1 \<and> map_rep s m1 (kvs[x := (k, value)]) \<and>
           mo_desc m1 = mo_desc m \<and> arr_capacity (mo_fArray m1) = arr_capacity (mo_fArray m)"
proof -
  note R = map_repD [OF r]
  let ?a = "mo_fArray m"
  have g: "block_get (arr_members ?a) (int x) = Inr (arr_list ?a ! x)"
    using block_get_arr_list [OF R(1), of "int x"] x R(9) by simp
  have xl: "x < length (arr_members ?a)" using g by (auto simp: block_get_def split: if_splits)
  define f where "f = (arr_list ?a ! x)\<lparr>mf_value := value\<rparr>"
  define a1 where "a1 = ?a\<lparr>arr_members := (arr_members ?a)[x := Some f]\<rparr>"
  have s: "set_field_value m (int x) value = Inr (m\<lparr>mo_fArray := a1\<rparr>)"
    using xl by (simp add: set_field_value_def g f_def a1_def block_set_def)
  have "arr_members a1 ! i \<noteq> None" if "i < nat (arr_length ?a)" for i
    using arr_invD(5) [OF R(1) that] xl by (cases "i = x") (simp_all add: a1_def)
  then have inv: "arr_inv 4 a1" using R(1) by (simp add: arr_inv_def a1_def)
  have l: "arr_list a1 = (arr_list ?a)[x := f]" by (simp add: arr_list_def a1_def take_update_swap map_update)
  have xa: "x < length (arr_list ?a)" using x R(8) by simp
  have keys: "map mf_key (arr_list a1) = map mf_key (arr_list ?a)"
    unfolding l map_update f_def using xa by (simp add: list_update_same_conv)
  have vals: "map mf_value (arr_list a1) = map snd (kvs[x := (k, value)])"
    unfolding l map_update f_def using R(4) by simp
  have fsts: "map fst (kvs[x := (k, value)]) = map fst kvs"
    unfolding map_update using x by (simp add: list_update_same_conv)
  have "map_rep s (m\<lparr>mo_fArray := a1\<rparr>) (kvs[x := (k, value)])"
    unfolding map_rep_def fsts using R inv keys vals by (simp add: a1_def table_shape_def)
  then show ?thesis using s by (simp add: a1_def)
qed

lemma bal_mapping_set_rep:
  assumes at: "map_at s p desc kvs" and k: "str_rep s key k" and n: "length kvs + 1 < 2 ^ 29"
    and d: "mapping_desc_at desc s = Inr mdp" "md_nFields mdp \<le> int (length (md_fieldTypes mdp))"
    and ok: "memberTypeContainsTagged (field_type mdp kvs k) value s = Inr ok"
  shows "case bal_mapping_set p key value s of
      Inl e \<Rightarrow> e = OutOfMemory \<and> ok \<and> k \<notin> fst ` set kvs
    | Inr (code, s1) \<Rightarrow>
        if ok then code = 0 \<and> map_at s1 p desc (AList.update k value kvs) \<and> changes_only (taggedToPtr p) s s1
        else code = storePanicCode p PANIC_MAPPING_STORE \<and> s1 = s"
proof -
  obtain m where m: "mapping_at p s = Inr m" "map_rep s m kvs" "mo_desc m = desc" "arr_capacity (mo_fArray m) \<noteq> 1"
    "heap s (taggedToPtr p) = Some (ObjMapping m)" using at by (rule map_atE)
  note h = bal_string_hash_rep [OF k]
  show ?thesis
  proof (cases "k \<in> fst ` set kvs")
    case True
    then obtain x where x: "field_index kvs k = Some x" "x < length kvs" "fst (kvs ! x) = k"
      "AList.update k value kvs = kvs[x := (k, value)]" by (rule field_index_Some)
    have mt: "(if int x < md_nFields mdp then elem_at (md_fieldTypes mdp) (int x) else Inr (md_restType mdp)) =
        Inr (field_type mdp kvs k)"
      using x(1) d(2) by (simp add: field_type_def elem_at_def)
    obtain m1 where m1: "set_field_value m (int x) value = Inr m1" "map_rep s m1 (kvs[x := (k, value)])"
      "mo_desc m1 = mo_desc m" "arr_capacity (mo_fArray m1) = arr_capacity (mo_fArray m)"
      using set_field_value_rep [OF m(2) x(2,3)] by blast
    have "bal_mapping_set p key value s =
        (if \<not> ok then Inr (storePanicCode p PANIC_MAPPING_STORE, s)
         else Inr (0, store (taggedToPtr p) (ObjMapping m1) s))"
      by (simp only: bal_mapping_set_def m(1,3) d(1) h lookup_rep_present [OF m(2) k x(2,3)] bindR_simps mt ok m1(1)
          of_nat_0_le_iff if_True)
    moreover have "map_at (store (taggedToPtr p) (ObjMapping m1) s) p desc (kvs[x := (k, value)])"
      using map_at_store [OF m(5) m1(2)] m1 m by simp
    moreover have "changes_only (taggedToPtr p) s (store (taggedToPtr p) (ObjMapping m1) s)"
      using m(5) by (intro changes_only_store) auto
    ultimately show ?thesis using x(4) by simp
  next
    case False
    then have ft: "field_type mdp kvs k = md_restType mdp" by (simp add: field_type_def field_index_def)
    obtain li where li: "lookup m key (str_hash s k) s = Inr li" "li < 0"
      using lookup_rep_absent [OF m(2) k False] by auto
    have r: "bal_mapping_set p key value s =
        (if \<not> ok then Inr (storePanicCode p PANIC_MAPPING_STORE, s)
         else bindR (mappingGrowPush m key value li s) (\<lambda>(mp1, s1). Inr (0, store (taggedToPtr p) (ObjMapping mp1) s1)))"
      using li(2) by (simp only: bal_mapping_set_def m(1,3) d(1) h li(1) bindR_simps ok [unfolded ft] if_False not_le [symmetric])
    note g = mappingGrowPush_rep [OF m(2) k False li(1) n m(4), of "value"]
    show ?thesis
    proof (cases "mappingGrowPush m key value li s")
      case (Inl e)
      then show ?thesis using r g False by simp
    next
      case (Inr b)
      obtain m1 s1 where b: "b = (m1, s1)" by (cases b)
      have m1: "map_rep s1 m1 (kvs @ [(k, value)])" "mo_desc m1 = desc" "arr_capacity (mo_fArray m1) \<noteq> 1"
        "heap s1 = heap s" "img s1 = img s" "wf_rt s \<longrightarrow> wf_rt s1" using g Inr b m(3) by auto
      have "map_at (store (taggedToPtr p) (ObjMapping m1) s1) p desc (AList.update k value kvs)"
        using map_at_store [of s1 p m m1] m1 m(5) update_absent [OF False] by simp
      moreover have "changes_only (taggedToPtr p) s (store (taggedToPtr p) (ObjMapping m1) s1)"
        using m1 m(5) by (intro changes_only_store) auto
      ultimately show ?thesis using r Inr b by simp
    qed
  qed
qed

section \<open>Construction\<close>

lemma init_length_shift_ok:
  assumes "capacity < 2 ^ n" "t \<le> n" "n \<le> 30"
  shows "\<exists>r. init_length_shift capacity t = Inr r \<and> t \<le> r \<and> r \<le> n \<and> capacity < 2 ^ r"
  using assms(2)
proof (induction "n - t" arbitrary: t)
  case 0
  then show ?case using assms by (intro exI [of _ t]) (simp add: init_length_shift.simps)
next
  case (Suc d)
  show ?case
  proof (cases "capacity \<ge> 2 ^ t")
    case True
    have "\<exists>r. init_length_shift capacity (t + 1) = Inr r \<and> t + 1 \<le> r \<and> r \<le> n \<and> capacity < 2 ^ r"
      using Suc by (intro Suc.hyps) auto
    then obtain r where "init_length_shift capacity (t + 1) = Inr r" "t + 1 \<le> r" "r \<le> n" "capacity < 2 ^ r" by blast
    then show ?thesis using True Suc assms(3) by (intro exI [of _ r]) (simp add: init_length_shift.simps [of capacity t])
  next
    case False
    then show ?thesis using Suc assms(3) by (intro exI [of _ t]) (simp add: init_length_shift.simps)
  qed
qed

lemma init_element_shift_ok:
  assumes "t \<le> 30"
  shows "init_element_shift t 1 \<le> 3" "t \<le> 8 * 2 ^ init_element_shift t 1"
proof -
  have "init_element_shift t 2 = 2" using assms by (subst init_element_shift.simps) simp
  then have "init_element_shift t 1 = (if 16 < t then 2 else 1)"
    by (subst init_element_shift.simps) (simp add: numeral_2_eq_2)
  then show "init_element_shift t 1 \<le> 3" "t \<le> 8 * 2 ^ init_element_shift t 1" using assms by auto
qed

lemma initTable_ok:
  assumes "capacity < 2 ^ 29"
  shows "case initTable m capacity s of
      Inl f \<Rightarrow> f = OutOfMemory
    | Inr (m1, s1) \<Rightarrow> table_shape m1 0 \<and> table_slots m1 = replicate (length (mo_table m1)) (- 1) \<and>
        mo_fArray m1 = mo_fArray m \<and> mo_desc m1 = mo_desc m \<and> capacity < int (length (mo_table m1)) div 2 \<and>
        (\<exists>k p. bal_alloc k s = Inr (p, s1))"
proof -
  obtain t where t: "init_length_shift capacity 2 = Inr t" "2 \<le> t" "t \<le> 29" "capacity < 2 ^ t"
    using init_length_shift_ok [OF assms, of 2] by auto
  define e where "e = init_element_shift t 1"
  have e: "e \<le> 3" "t \<le> 8 * 2 ^ e" unfolding e_def using t init_element_shift_ok [of t] by simp_all
  define m1 where "m1 = m\<lparr>mo_tableLengthShift := t + 1, mo_tableElementShift := e,
      mo_table := replicate (2 ^ (t + 1)) (slot_value e (- 1))\<rparr>"
  have g: "initTable m capacity s = bindR (bal_alloc (int (2 ^ (t + 1 + e))) s) (\<lambda>(p, s1). Inr (m1, s1))"
    by (simp add: initTable_def t(1) allocTable_def Let_def e_def m1_def power_add)
  have "table_shape m1 0" using t e by (simp add: table_shape_def m1_def)
  moreover have "table_slots m1 = replicate (length (mo_table m1)) (- 1)" by (simp add: m1_def slots_empty)
  moreover have "capacity < int (length (mo_table m1)) div 2" using t(4) by (simp add: m1_def)
  ultimately show ?thesis
    by (auto simp: g m1_def dest: bal_alloc_fault split: sum.splits simp: bindR_eq_Inl)
qed

lemma initGenericArray_ok:
  assumes "0 \<le> capacity" "capacity \<le> ARRAY_LENGTH_MAX" "capacity * 2 ^ shift \<le> INT64_MAX" "0 < esize"
    "esize * cells = 2 ^ shift"
  shows "case initGenericArray capacity shift esize s of
      Inl f \<Rightarrow> f = OutOfMemory
    | Inr (ap, s1) \<Rightarrow> arr_inv cells ap \<and> arr_list ap = [] \<and> arr_length ap = 0 \<and> arr_capacity ap = capacity \<and>
        (s1 = s \<or> (\<exists>k p. bal_alloc k s = Inr (p, s1)))"
proof (cases "capacity = 0")
  case True
  then show ?thesis by (simp add: initGenericArray_def arr_inv_def arr_list_def ARRAY_LENGTH_MAX_eq)
next
  case False
  have "nat (capacity * 2 ^ shift) = nat capacity * (esize * cells)"
    using assms(1,5) by (simp add: nat_mult_distrib nat_power_eq)
  then have "nat (capacity * 2 ^ shift) div esize = cells * nat capacity" using assms(4) by simp
  then show ?thesis
    using False assms(1-3)
    by (auto simp: initGenericArray_def shl64_def arr_inv_def arr_list_def bindR_eq_Inl split: sum.splits dest: bal_alloc_fault)
qed

lemma bal_mapping_construct_rep:
  assumes wf: "wf_rt s" and c: "0 \<le> capacity" "capacity < 2 ^ 29"
  shows "case bal_mapping_construct desc capacity s of
      Inl e \<Rightarrow> e = OutOfMemory
    | Inr (p, s1) \<Rightarrow>
        (\<exists>m. heap s1 (taggedToPtr p) = Some (ObjMapping m) \<and> map_rep s1 m [] \<and> mo_desc m = desc \<and>
             arr_capacity (mo_fArray m) = capacity \<and> capacity < int (length (mo_table m)) div 2) \<and>
        getTag p = TAG_MAPPING \<and> is_exact p \<and> heap s (taggedToPtr p) = None \<and> changes_only (taggedToPtr p) s s1"
proof (cases "bal_alloc 48 s")
  case (Inl e)
  then show ?thesis using bal_alloc_fault by (simp add: bal_mapping_construct_def)
next
  case (Inr a)
  obtain q s1 where a: "a = (q, s1)" by (cases a)
  note al = Inr [unfolded a]
  note w1 = bal_alloc_wf [OF wf al] and o1 = bal_alloc_ok [OF al]
  define I :: "fault + map_field c_array \<times> rt" where "I = initGenericArray capacity MAP_FIELD_SHIFT sizeof_MapField s1"
  have "case I of Inl f \<Rightarrow> f = OutOfMemory
      | Inr (ap, s2) \<Rightarrow> arr_inv 4 ap \<and> arr_list ap = [] \<and> arr_length ap = 0 \<and> arr_capacity ap = capacity \<and>
          (s2 = s1 \<or> (\<exists>k p. bal_alloc k s1 = Inr (p, s2)))"
    unfolding I_def using c by (intro initGenericArray_ok) (simp_all add: ARRAY_LENGTH_MAX_eq)
  note I = this
  show ?thesis
  proof (cases I)
    case (Inl e)
    then show ?thesis using I al by (simp add: bal_mapping_construct_def I_def)
  next
    case (Inr i)
    obtain ap s2 where i: "i = (ap, s2)" by (cases i)
    have ap: "arr_inv 4 ap" "arr_list ap = []" "arr_capacity ap = capacity" and s2: "s2 = s1 \<or> (\<exists>k p. bal_alloc k s1 = Inr (p, s2))"
      using I Inr i by auto
    have st2: "heap s2 = heap s1" "img s2 = img s1" "wf_rt s2" "q \<notin> set (pool s2)"
      using s2 alloc_same bal_alloc_ok w1 by (metis list.set_intros(2))+
    let ?m0 = "\<lparr>mo_desc = desc, mo_fArray = ap, mo_table = [], mo_tableElementShift = 0, mo_tableLengthShift = 0\<rparr>"
    note T = initTable_ok [OF c(2), of ?m0 s2]
    show ?thesis
    proof (cases "initTable ?m0 capacity s2")
      case (Inl e)
      then show ?thesis using T al Inr i by (simp add: bal_mapping_construct_def I_def)
    next
      case t: (Inr b)
      obtain m s3 where b: "b = (m, s3)" by (cases b)
      have m: "table_shape m 0" "table_slots m = replicate (length (mo_table m)) (- 1)" "mo_fArray m = ap" "mo_desc m = desc"
        "capacity < int (length (mo_table m)) div 2" and s3: "\<exists>k p. bal_alloc k s2 = Inr (p, s3)" using T t b by auto
      have st3: "heap s3 = heap s2" "img s3 = img s2" "wf_rt s3" "q \<notin> set (pool s3)"
        using s3 alloc_same bal_alloc_ok st2 by (metis list.set_intros(2))+
      let ?p = "ptrAddFlags q (shifted_tag TAG_MAPPING OR EXACT_FLAG)"
      have res: "bal_mapping_construct desc capacity s = Inr (?p, store q (ObjMapping m) s3)"
        using al Inr i t b by (simp add: bal_mapping_construct_def I_def)
      have low: "EXACT_FLAG < 8" by (simp add: EXACT_FLAG_def)
      have pq: "taggedToPtr ?p = q" "getTag ?p = TAG_MAPPING"
        by (rule taggedToPtr_ptrAddFlags [OF w1(2) low], rule getTag_ptrAddFlags [OF w1(2) low]) simp
      have ex: "is_exact ?p" by (simp add: is_exact_def ptrAddFlags_def bit_or_iff)
      have "map_rep (store q (ObjMapping m) s3) m []"
        using m ap c table_inv_empty by (simp add: map_rep_def string_keys.homes_def)
      moreover have "changes_only q s (store q (ObjMapping m) s3)"
        using st2 st3 o1 w1 store_wf [OF st3(3) w1(2) st3(4)] by (simp add: changes_only_def)
      ultimately show ?thesis using res pq ex m ap w1(3) by simp
    qed
  qed
qed

section \<open>Initialization\<close>

text \<open>
  A mapping between \<open>_bal_mapping_construct\<close> with this capacity and the last \<open>_bal_mapping_init_member\<close>.
\<close>

definition init_at :: "rt \<Rightarrow> tagged \<Rightarrow> u64 \<Rightarrow> int \<Rightarrow> (byte list \<times> tagged) list \<Rightarrow> bool" where
  "init_at s p desc capacity kvs \<longleftrightarrow>
     (\<exists>m. heap s (taggedToPtr p) = Some (ObjMapping m) \<and> map_rep s m kvs \<and> mo_desc m = desc \<and>
          arr_capacity (mo_fArray m) = capacity \<and> capacity < int (length (mo_table m)) div 2)"

lemma init_at_map_at: "init_at s p desc capacity kvs \<Longrightarrow> capacity \<noteq> 1 \<Longrightarrow> map_at s p desc kvs"
  by (auto simp: init_at_def map_at_def)

lemma bal_mapping_construct_init:
  assumes "wf_rt s" "0 \<le> capacity" "capacity < 2 ^ 29" "bal_mapping_construct desc capacity s = Inr (p, s1)"
  shows "init_at s1 p desc capacity []" "getTag p = TAG_MAPPING" "is_exact p" "heap s (taggedToPtr p) = None"
    "changes_only (taggedToPtr p) s s1"
  using bal_mapping_construct_rep [OF assms(1-3), of desc] assms(4) by (auto simp: init_at_def)

lemma bal_mapping_init_member_rep:
  assumes at: "init_at s p desc capacity kvs" and k: "str_rep s key k" "k \<notin> fst ` set kvs" and room: "int (length kvs) < capacity"
  shows "\<exists>s1. bal_mapping_init_member p key value s = Inr s1 \<and> init_at s1 p desc capacity (kvs @ [(k, value)]) \<and>
           changes_only (taggedToPtr p) s s1"
proof -
  obtain m where m: "heap s (taggedToPtr p) = Some (ObjMapping m)" "map_rep s m kvs" "mo_desc m = desc"
    "arr_capacity (mo_fArray m) = capacity" "capacity < int (length (mo_table m)) div 2" using at by (auto simp: init_at_def)
  note R = map_repD [OF m(2)]
  let ?N = "length (mo_table m)" and ?h = "str_hash s k"
  let ?home = "unat ?h mod ?N"
  have lh: "length (string_keys.homes s ?N (map fst kvs)) \<le> length kvs" by simp
  obtain j where j: "j < ?N" "table_slots m ! probe ?N ?home j = - 1"
      "\<forall>j' < j. table_slots m ! probe ?N ?home j' \<noteq> - 1" "lookupDistinct m ?h = Inr (- int (probe ?N ?home j) - 1)"
    using lookupDistinct_ok [OF R(6,7) lh, of ?h] by auto
  have hm: "?home < ?N" using table_shapeD(3) [OF R(6)] by (intro mod_less_divisor) linarith
  define e where "e = probe ?N ?home j"
  have e: "e < ?N" unfolding e_def by (rule probe_less [OF hm])
  have ar: "arr_length (mo_fArray m) < arr_capacity (mo_fArray m)" using room m(4) R(9) by simp
  obtain ap where p: "mappingPush m key value (- int e - 1) = Inr (m\<lparr>mo_fArray := ap,
        mo_table := (mo_table m)[e := slot_value (mo_tableElementShift m) (int (length kvs))]\<rparr>)"
      "arr_inv 4 ap" "arr_capacity ap = capacity" "arr_list ap = arr_list (mo_fArray m) @ [\<lparr>mf_key = key, mf_value = value\<rparr>]"
    using mappingPush_ok [OF R(1) ar R(6) e, of key "value"] R(9) m(4) by auto
  define m2 where "m2 = m\<lparr>mo_fArray := ap, mo_table := (mo_table m)[e := slot_value (mo_tableElementShift m) (int (length kvs))]\<rparr>"
  have "?N div 2 = 2 ^ (mo_tableLengthShift m - 1)"
    using R(6) by (cases "mo_tableLengthShift m") (simp_all add: table_shape_def)
  moreover have "int (length kvs + 1) < int (?N div 2)" using room m(5) by (simp add: zdiv_int)
  ultimately have "length kvs + 1 < 2 ^ (mo_tableLengthShift m - 1)" by (simp only: of_nat_less_iff)
  then have sh: "table_shape m (length kvs + 1)" using R(6) by (simp add: table_shape_def)
  have "table_slots m2 = (table_slots m)[e := int (length kvs)]"
    using table_slots_insert [OF sh, of "length kvs" e] by (simp add: m2_def)
  moreover have "table_inv ((table_slots m)[e := int (length kvs)]) (string_keys.homes s ?N (map fst kvs) @ [?home])"
    using table_inv_insert [OF R(7), of ?home j] hm j by (simp add: e_def)
  moreover have "fields_rep s ap (kvs @ [(k, value)])"
    using m(2) by (intro fields_rep_push [OF _ k p(2) _ p(4)]) (simp_all add: map_rep_fields m(4) p(3))
  ultimately have rep: "map_rep s m2 (kvs @ [(k, value)])"
    using sh by (simp add: map_rep_fields m2_def table_shape_def string_keys.homes_def)
  have "bal_mapping_init_member p key value s = Inr (store (taggedToPtr p) (ObjMapping m2) s)"
    using m(1) bal_string_hash_rep [OF k(1)] j(4) p(1) by (simp add: bal_mapping_init_member_def mapping_at_def e_def m2_def)
  moreover have "init_at (store (taggedToPtr p) (ObjMapping m2) s) p desc capacity (kvs @ [(k, value)])"
  proof -
    have "map_rep (store (taggedToPtr p) (ObjMapping m2) s) m2 (kvs @ [(k, value)])"
      by (rule map_rep_mono [OF rep]) (use m(1) in \<open>auto intro: str_rep_store\<close>)
    then show ?thesis using m p(3) by (simp add: init_at_def m2_def)
  qed
  moreover have "changes_only (taggedToPtr p) s (store (taggedToPtr p) (ObjMapping m2) s)"
    using m(1) by (intro changes_only_store) auto
  ultimately show ?thesis by blast
qed

section \<open>Access by position\<close>

lemma bal_mapping_indexed_get_rep:
  assumes "map_at s p desc kvs" "x < length kvs"
  shows "bal_mapping_indexed_get p (int x) s = Inr (snd (kvs ! x))"
proof -
  obtain m where m: "mapping_at p s = Inr m" "map_rep s m kvs" using assms(1) by (rule map_atE)
  note R = map_repD [OF m(2)]
  have "block_get (arr_members (mo_fArray m)) (int x) = Inr (arr_list (mo_fArray m) ! x)"
    using block_get_arr_list [OF R(1), of "int x"] assms(2) R(9) by simp
  moreover have "mf_value (arr_list (mo_fArray m) ! x) = snd (kvs ! x)" using R(4,8) assms(2) by (metis nth_map)
  ultimately show ?thesis using m(1) by (simp add: bal_mapping_indexed_get_def)
qed

lemma bal_lang_map_length_rep: "map_at s p desc kvs \<Longrightarrow> bal_lang_map_length p s = Inr (int (length kvs))"
  by (erule map_atE) (simp add: bal_lang_map_length_def map_repD(9))

lemma bal_mapping_get_at:
  assumes "map_at s p desc kvs" "str_rep s key k"
  shows "bal_mapping_get p key s = Inr (case map_of kvs k of None \<Rightarrow> 0 | Some v \<Rightarrow> v)"
  using assms bal_mapping_get_rep by (metis map_atE)

section \<open>The interface of a mapping\<close>

text \<open>
  What the users of a mapping (the compiled program, \<open>_bal_mapping_eq_internal\<close>) rely on: a lookup
  returns what the association list holds, a successful store updates it, and a store does not
  disturb the strings that serve as keys. The two laws of a finite map follow.
\<close>

locale map_store =
  fixes at :: "rt \<Rightarrow> tagged \<Rightarrow> (byte list \<times> tagged) list \<Rightarrow> bool"
    and get :: "tagged \<Rightarrow> tagged \<Rightarrow> rt \<Rightarrow> fault + tagged"
    and put_field :: "tagged \<Rightarrow> tagged \<Rightarrow> tagged \<Rightarrow> rt \<Rightarrow> fault + nat \<times> rt"
  assumes get_law: "at s p kvs \<Longrightarrow> str_rep s key k \<Longrightarrow> get p key s = Inr (case map_of kvs k of None \<Rightarrow> 0 | Some v \<Rightarrow> v)"
    and put_law: "at s p kvs \<Longrightarrow> str_rep s key k \<Longrightarrow> length kvs + 1 < 2 ^ 29 \<Longrightarrow>
      put_field p key v s = Inr (0, s1) \<Longrightarrow> at s1 p (AList.update k v kvs)"
    and key_law: "at s p kvs \<Longrightarrow> str_rep s key k \<Longrightarrow> length kvs + 1 < 2 ^ 29 \<Longrightarrow>
      put_field p key v s = Inr (0, s1) \<Longrightarrow> str_rep s key' k' \<Longrightarrow> str_rep s1 key' k'"
begin

lemma get_put_same:
  assumes "at s p kvs" "str_rep s key k" "length kvs + 1 < 2 ^ 29" "put_field p key v s = Inr (0, s1)"
  shows "get p key s1 = Inr v"
  using get_law [OF put_law [OF assms] key_law [OF assms assms(2)]] by (simp add: update_conv)

lemma get_put_other:
  assumes "at s p kvs" "str_rep s key k" "length kvs + 1 < 2 ^ 29" "put_field p key v s = Inr (0, s1)"
    "str_rep s key' k'" "k' \<noteq> k"
  shows "get p key' s1 = get p key' s"
  using get_law [OF put_law [OF assms(1-4)] key_law [OF assms(1-5)]] get_law [OF assms(1,5)] assms(6)
  by (simp add: update_conv)

end

text \<open>A mapping whose descriptor is in the image.\<close>

definition mapping_ok :: "rt \<Rightarrow> tagged \<Rightarrow> (byte list \<times> tagged) list \<Rightarrow> bool" where
  "mapping_ok s p kvs \<longleftrightarrow>
     (\<exists>desc mdp. map_at s p desc kvs \<and> mapping_desc_at desc s = Inr mdp \<and> md_nFields mdp \<le> int (length (md_fieldTypes mdp)))"

lemma bal_mapping_set_type_fault:
  assumes at: "map_at s p desc kvs" and k: "str_rep s key k"
    and d: "mapping_desc_at desc s = Inr mdp" "md_nFields mdp \<le> int (length (md_fieldTypes mdp))"
    and bad: "memberTypeContainsTagged (field_type mdp kvs k) value s = Inl e"
  shows "bal_mapping_set p key value s = Inl e"
proof -
  obtain m where m: "mapping_at p s = Inr m" "map_rep s m kvs" "mo_desc m = desc" using at by (rule map_atE)
  note h = bal_string_hash_rep [OF k]
  show ?thesis
  proof (cases "k \<in> fst ` set kvs")
    case True
    then obtain x where x: "field_index kvs k = Some x" "x < length kvs" "fst (kvs ! x) = k" by (rule field_index_Some)
    have mt: "(if int x < md_nFields mdp then elem_at (md_fieldTypes mdp) (int x) else Inr (md_restType mdp)) =
        Inr (field_type mdp kvs k)" using x(1) d(2) by (simp add: field_type_def elem_at_def)
    show ?thesis
      by (simp only: bal_mapping_set_def m(1,3) d(1) h lookup_rep_present [OF m(2) k x(2,3)] bindR_simps mt bad
          of_nat_0_le_iff if_True)
  next
    case False
    then have ft: "field_type mdp kvs k = md_restType mdp" by (simp add: field_type_def field_index_def)
    obtain li where li: "lookup m key (str_hash s k) s = Inr li" "li < 0" using lookup_rep_absent [OF m(2) k False] by auto
    then show ?thesis
      by (simp only: bal_mapping_set_def m(1,3) d(1) h li(1) bindR_simps bad [unfolded ft] not_le [symmetric] if_False)
  qed
qed

lemma bal_mapping_set_success:
  assumes at: "map_at s p desc kvs" and k: "str_rep s key k" and n: "length kvs + 1 < 2 ^ 29"
    and d: "mapping_desc_at desc s = Inr mdp" "md_nFields mdp \<le> int (length (md_fieldTypes mdp))"
    and set: "bal_mapping_set p key value s = Inr (0, s1)"
  shows "map_at s1 p desc (AList.update k value kvs)" "changes_only (taggedToPtr p) s s1"
proof -
  obtain ok where ok: "memberTypeContainsTagged (field_type mdp kvs k) value s = Inr ok"
    using bal_mapping_set_type_fault [OF at k d] set by (cases "memberTypeContainsTagged (field_type mdp kvs k) value s") auto
  have "storePanicCode p PANIC_MAPPING_STORE \<noteq> 0" by (rule storePanicCode_nonzero) (simp add: panic_codes)
  then show "map_at s1 p desc (AList.update k value kvs)" "changes_only (taggedToPtr p) s s1"
    using bal_mapping_set_rep [OF at k n d ok] set by (auto split: if_splits)
qed

interpretation mapping: map_store mapping_ok bal_mapping_get bal_mapping_set
proof unfold_locales
  fix s p kvs key k
  assume at: "mapping_ok s p kvs" and k: "str_rep s key k"
  then obtain desc mdp where d: "map_at s p desc kvs" "mapping_desc_at desc s = Inr mdp"
    "md_nFields mdp \<le> int (length (md_fieldTypes mdp))" by (auto simp: mapping_ok_def)
  show "bal_mapping_get p key s = Inr (case map_of kvs k of None \<Rightarrow> 0 | Some v \<Rightarrow> v)"
    using bal_mapping_get_at [OF d(1) k] .
  fix v s1
  assume n: "length kvs + 1 < 2 ^ 29" and set: "bal_mapping_set p key v s = Inr (0, s1)"
  note r = bal_mapping_set_success [OF d(1) k n d(2,3) set]
  have im: "img s1 = img s" using r(2) by (simp add: changes_only_def)
  show "mapping_ok s1 p (AList.update k v kvs)"
    unfolding mapping_ok_def using r(1) d(2,3) im by (auto simp: mapping_desc_at_def)
  fix key' k' assume k': "str_rep s key' k'"
  obtain m where m: "heap s (taggedToPtr p) = Some (ObjMapping m)" using d(1) by (rule map_atE)
  show "str_rep s1 key' k'"
    using k'
  proof (rule str_rep_strings)
    fix q ws assume q: "heap s q = Some (ObjString ws)"
    then have "q \<noteq> taggedToPtr p" using m by auto
    then show "heap s1 q = Some (ObjString ws)" using r(2) q by (simp add: changes_only_def)
  qed
qed

end
