(* ===== verification/Rt_Mapping_Limits.thy ===== *)
theory Rt_Mapping_Limits
  imports Rt_Mapping_Ops
begin

text \<open>
  Two limits of mappings that the model exposes. \<open>mappingGrowPush\<close> asks \<open>_bal_array_grow\<close> for no
  minimum capacity and relies on the growth by a half, which for a capacity of 1 is nothing; the
  third field of such a mapping is copied out of its block. And a table for \<open>2 ^ 29\<close> fields has
  \<open>2 ^ 31\<close> slots, a number that \<open>lookup\<close> cannot compute in an \<open>int\<close>.
\<close>

section \<open>A capacity of one does not grow\<close>

lemma grow_one_stays:
  assumes "arr_inv 4 ap" "arr_capacity ap = 1" "bal_array_grow ap 0 MAP_FIELD_SHIFT sizeof_MapField s = Inr (ap1, s1)"
  shows "arr_capacity ap1 = 1"
proof -
  have nc: "grown_capacity (arr_capacity ap) 0 = 1" by (simp add: assms(2) grown_capacity_def ARRAY_LENGTH_MAX_eq)
  have c: "arr_capacity ap < ARRAY_LENGTH_MAX" "0 \<le> ARRAY_LENGTH_MAX" by (simp_all add: assms(2) ARRAY_LENGTH_MAX_eq)
  have sz: "2 ^ MAP_FIELD_SHIFT = sizeof_MapField * 4" "0 < sizeof_MapField" "0 < (4 :: nat)" by simp_all
  show ?thesis
    using bal_array_grow_inv(2) [OF assms(1) sz c nc [symmetric] _ assms(3)] by simp
qed

lemma grow_one_overflows:
  assumes "arr_capacity ap = 1" "arr_length ap = 2" "bal_alloc 64 s = Inr (p, s1)"
  shows "bal_array_grow ap 0 MAP_FIELD_SHIFT sizeof_MapField s = Inl OutOfBounds"
  using assms by (simp add: bal_array_grow_def ARRAY_LENGTH_MAX_eq shl64_def copy_members_def Let_def)

text \<open>A run of the compiled program \<open>map<int> m = {a: 0}; m["b"] = 0; m["c"] = 0;\<close>.\<close>

definition one_field_image :: image where
  "one_field_image =
     \<lparr>listDescs = (\<lambda>_. None),
      mappingDescs = (\<lambda>d. if d = 16
        then Some \<lparr>md_tid = 1, md_nFields = 0, md_restType = BITSET_MEMBER_TYPE 4, md_fillerDesc = 0, md_fieldTypes = []\<rparr>
        else None),
      functionDescs = (\<lambda>_. None), complexTypes = (\<lambda>_. None), fillerDescs = (\<lambda>_. None), hashKey = (1, 2),
      decQuadCompareClass = (\<lambda>_ _. DEC_CLASS_POS_ZERO)\<rparr>"

definition one_field_rt :: rt where
  "one_field_rt =
     \<lparr>heap = Map.empty, pool = [0x1000, 0x2000, 0x3000, 0x4000, 0x5000, 0x6000], junk = (\<lambda>_. 0), img = one_field_image\<rparr>"

definition one_field_run :: "int \<Rightarrow> fault + nat \<times> rt" where
  "one_field_run capacity =
     bindR (bal_mapping_construct 16 capacity one_field_rt) (\<lambda>(m, s1).
     bindR (bal_mapping_init_member m (immediate_bits [97]) TAGGED_INT_ZERO s1) (\<lambda>s2.
     bindR (bal_mapping_set m (immediate_bits [98]) TAGGED_INT_ZERO s2) (\<lambda>(c, s3).
       bal_mapping_set m (immediate_bits [99]) TAGGED_INT_ZERO s3)))"

lemma one_field_run_eval: "bindR (one_field_run 1) (\<lambda>(c, s). Inr c) = Inl OutOfBounds"
  by code_simp

section \<open>Too many slots for an int\<close>

lemma lookup_overflow:
  assumes "31 \<le> mo_tableLengthShift m"
  shows "lookup m key h s = Inl IntOverflow" "lookupDistinct m h = Inl IntOverflow"
  using assms by (simp_all add: lookup_def lookupDistinct_def shl_int_def)

lemma init_length_shift_mono: "init_length_shift capacity t = Inr r \<Longrightarrow> t \<le> r"
proof (induction capacity t rule: init_length_shift.induct)
  case (1 capacity t)
  note step = "1.prems" [unfolded init_length_shift.simps [of capacity t]]
  show ?case using "1.IH" step by (auto split: if_splits)
qed

lemma init_length_shift_ge:
  assumes "2 ^ n \<le> capacity" "t \<le> n" "init_length_shift capacity t = Inr r"
  shows "n < r"
  using assms(2,3)
proof (induction "n - t" arbitrary: t)
  case 0
  then have "t = n" by simp
  then have "init_length_shift capacity (t + 1) = Inr r"
    using 0 assms(1) by (subst (asm) init_length_shift.simps) (auto split: if_splits)
  then show ?case using init_length_shift_mono \<open>t = n\<close> by fastforce
next
  case (Suc d)
  have "(2 :: int) ^ t \<le> 2 ^ n" using Suc.prems by (intro power_increasing) auto
  then have "2 ^ t \<le> capacity" using assms(1) by linarith
  then have "init_length_shift capacity (t + 1) = Inr r"
    using Suc.prems assms(1) by (subst (asm) init_length_shift.simps) (auto split: if_splits)
  then show ?case using Suc by (intro Suc.hyps) auto
qed

lemma allocTable_shift: "allocTable m s = Inr (m1, s1) \<Longrightarrow> mo_tableLengthShift m1 = mo_tableLengthShift m"
  by (auto simp: allocTable_def Let_def)

lemma huge_mapping_lookup:
  assumes wf: "wf_rt s" and c: "2 ^ 29 \<le> capacity" and con: "bal_mapping_construct desc capacity s = Inr (p, s1)"
    and h: "bal_string_hash key s1 = Inr h"
  shows "bal_mapping_get p key s1 = Inl IntOverflow"
proof -
  obtain q s0 arr s2 m s3 where al: "bal_alloc 48 s = Inr (q, s0)"
      and it: "initTable \<lparr>mo_desc = desc, mo_fArray = arr, mo_table = [], mo_tableElementShift = 0, mo_tableLengthShift = 0\<rparr>
                 capacity s2 = Inr (m, s3)"
      and r: "p = ptrAddFlags q (shifted_tag TAG_MAPPING OR EXACT_FLAG)" "s1 = store q (ObjMapping m) s3"
    using con by (auto simp: bal_mapping_construct_def)
  have low: "EXACT_FLAG < 8" by (simp add: EXACT_FLAG_def)
  have "taggedToPtr p = q" unfolding r(1) using bal_alloc_wf(2) [OF wf al] low by (rule taggedToPtr_ptrAddFlags)
  then have m: "mapping_at p s1 = Inr m" by (simp add: mapping_at_def r(2))
  obtain t where "init_length_shift capacity 2 = Inr t" "mo_tableLengthShift m = t + 1"
    using it by (auto simp: initTable_def Let_def dest: allocTable_shift)
  then have "31 \<le> mo_tableLengthShift m" using init_length_shift_ge [OF c, of 2 t] by simp
  then show ?thesis by (simp add: bal_mapping_get_def m h lookup_overflow(1))
qed

end
