(* ===== verification/Rt_Lists.thy ===== *)
theory Rt_Lists
  imports Rt_Mappings
begin

text \<open>
  Lists: \<open>list.c\<close>, \<open>list_inline.c\<close>, the filler functions of \<open>structure.c\<close>, \<open>int.c\<close>, \<open>float.c\<close>, \<open>decimal.c\<close> and
  \<open>balrt.h\<close>, and the argument lists of \<open>function.c\<close>. The function pointers of a list descriptor
  select one of four families; the dispatch is written out at the end.

  Fillers for fixed-length lists create fillers for their members; the depth of that recursion is
  bounded by an argument (\<open>TooDeep\<close>), and \<open>Rt_Fillers\<close> shows that a bound above the nesting depth
  of the filler descriptors is enough. A call that changes a list reads the list object, computes
  the changed array and stores it at the end: the fillers it creates in between only allocate.
\<close>

section \<open>Access\<close>

definition tpArray :: "list_obj \<Rightarrow> fault + tagged c_array" where
  "tpArray lp = (case lo_array lp of TpArray a \<Rightarrow> Inr a | _ \<Rightarrow> Inl BadPointer)"

definition iArray :: "list_obj \<Rightarrow> fault + int c_array" where
  "iArray lp = (case lo_array lp of IArray a \<Rightarrow> Inr a | _ \<Rightarrow> Inl BadPointer)"

definition bArray :: "list_obj \<Rightarrow> fault + byte c_array" where
  "bArray lp = (case lo_array lp of BArray a \<Rightarrow> Inr a | _ \<Rightarrow> Inl BadPointer)"

definition fArray :: "list_obj \<Rightarrow> fault + u64 c_array" where
  "fArray lp = (case lo_array lp of FArray a \<Rightarrow> Inr a | _ \<Rightarrow> Inl BadPointer)"

definition array_length :: "list_array \<Rightarrow> int" where
  "array_length a =
     (case a of TpArray b \<Rightarrow> arr_length b | IArray b \<Rightarrow> arr_length b | BArray b \<Rightarrow> arr_length b | FArray b \<Rightarrow> arr_length b)"

definition store_array :: "tagged \<Rightarrow> list_obj \<Rightarrow> list_array \<Rightarrow> rt \<Rightarrow> rt" where
  "store_array p lp a s = store (taggedToPtr p) (ObjList (lp\<lparr>lo_array := a\<rparr>)) s"

definition listDescAllowsTaggedAt :: "list_desc \<Rightarrow> int \<Rightarrow> tagged \<Rightarrow> rt \<Rightarrow> fault + bool" where
  "listDescAllowsTaggedAt ldp index val s =
     bindR (if cast_u64 index < cast_u64 (ld_minLength ldp)
            then elem_at (ld_memberTypes ldp) (if index < ld_nMemberTypes ldp then index else ld_nMemberTypes ldp - 1)
            else Inr (ld_restType ldp)) (\<lambda>mt. memberTypeContainsTagged mt val s)"

section \<open>Construction\<close>

definition new_list_array :: "list_repr \<Rightarrow> int \<Rightarrow> nat \<Rightarrow> rt \<Rightarrow> fault + list_array \<times> rt" where
  "new_list_array repr capacity shift s =
     (case repr of
        GenericList \<Rightarrow> bindR (initGenericArray capacity shift sizeof_word s) (\<lambda>(a, s1). Inr (TpArray a, s1))
      | IntArrayList \<Rightarrow> bindR (initGenericArray capacity shift sizeof_word s) (\<lambda>(a, s1). Inr (IArray a, s1))
      | ByteArrayList \<Rightarrow> bindR (initGenericArray capacity shift sizeof_byte s) (\<lambda>(a, s1). Inr (BArray a, s1))
      | FloatArrayList \<Rightarrow> bindR (initGenericArray capacity shift sizeof_word s) (\<lambda>(a, s1). Inr (FArray a, s1)))"

definition list_construct :: "nat \<Rightarrow> u64 \<Rightarrow> int \<Rightarrow> rt \<Rightarrow> fault + u64 \<times> rt" where
  "list_construct shift desc capacity s =
     bindR (bal_alloc 32 s) (\<lambda>(lp, s1).
     bindR (list_desc_at desc s1) (\<lambda>ldp.
     bindR (new_list_array (ld_repr ldp) capacity shift s1) (\<lambda>(a, s2).
       Inr (lp, store lp (ObjList \<lparr>lo_desc = desc, lo_array = a\<rparr>) s2))))"

definition bal_list_construct_8 :: "u64 \<Rightarrow> int \<Rightarrow> rt \<Rightarrow> fault + u64 \<times> rt" where
  "bal_list_construct_8 desc capacity s = list_construct TAGGED_PTR_SHIFT desc capacity s"

definition bal_list_construct_1 :: "u64 \<Rightarrow> int \<Rightarrow> rt \<Rightarrow> fault + u64 \<times> rt" where
  "bal_list_construct_1 desc capacity s = list_construct BYTE_SHIFT desc capacity s"

section \<open>Reading members\<close>

definition bal_list_generic_get_tagged :: "tagged \<Rightarrow> int \<Rightarrow> rt \<Rightarrow> fault + tagged" where
  "bal_list_generic_get_tagged p index s =
     bindR (list_at p s) (\<lambda>lp. bindR (tpArray lp) (\<lambda>ap. block_get (arr_members ap) index))"

definition bal_list_generic_get_int :: "tagged \<Rightarrow> int \<Rightarrow> rt \<Rightarrow> fault + int" where
  "bal_list_generic_get_int p index s =
     bindR (list_at p s) (\<lambda>lp. bindR (tpArray lp) (\<lambda>ap.
     bindR (block_get (arr_members ap) index) (\<lambda>v. taggedToInt v s)))"

definition bal_list_generic_get_float :: "tagged \<Rightarrow> int \<Rightarrow> rt \<Rightarrow> fault + u64" where
  "bal_list_generic_get_float p index s =
     bindR (list_at p s) (\<lambda>lp. bindR (tpArray lp) (\<lambda>ap.
     bindR (block_get (arr_members ap) index) (\<lambda>v. taggedToFloat v s)))"

definition bal_list_int_array_get_int :: "tagged \<Rightarrow> int \<Rightarrow> rt \<Rightarrow> fault + int" where
  "bal_list_int_array_get_int p index s =
     bindR (list_at p s) (\<lambda>lp. bindR (iArray lp) (\<lambda>ap. block_get (arr_members ap) index))"

definition bal_list_int_array_get_tagged :: "tagged \<Rightarrow> int \<Rightarrow> rt \<Rightarrow> fault + tagged \<times> rt" where
  "bal_list_int_array_get_tagged p index s =
     bindR (list_at p s) (\<lambda>lp. bindR (iArray lp) (\<lambda>ap.
     bindR (block_get (arr_members ap) index) (\<lambda>n. intToTagged n s)))"

definition bal_list_byte_array_get_int :: "tagged \<Rightarrow> int \<Rightarrow> rt \<Rightarrow> fault + int" where
  "bal_list_byte_array_get_int p index s =
     bindR (list_at p s) (\<lambda>lp. bindR (bArray lp) (\<lambda>ap.
     bindR (block_get (arr_members ap) index) (\<lambda>b. Inr (uint b))))"

definition bal_list_byte_array_get_tagged :: "tagged \<Rightarrow> int \<Rightarrow> rt \<Rightarrow> fault + tagged \<times> rt" where
  "bal_list_byte_array_get_tagged p index s =
     bindR (list_at p s) (\<lambda>lp. bindR (bArray lp) (\<lambda>ap.
     bindR (block_get (arr_members ap) index) (\<lambda>b. intToTagged (uint b) s)))"

definition bal_list_float_array_get_float :: "tagged \<Rightarrow> int \<Rightarrow> rt \<Rightarrow> fault + u64" where
  "bal_list_float_array_get_float p index s =
     bindR (list_at p s) (\<lambda>lp. bindR (fArray lp) (\<lambda>ap. block_get (arr_members ap) index))"

definition bal_list_float_array_get_tagged :: "tagged \<Rightarrow> int \<Rightarrow> rt \<Rightarrow> fault + tagged \<times> rt" where
  "bal_list_float_array_get_tagged p index s =
     bindR (list_at p s) (\<lambda>lp. bindR (fArray lp) (\<lambda>ap.
     bindR (block_get (arr_members ap) index) (\<lambda>d. floatToTagged d s)))"

section \<open>Stores into primitive arrays\<close>

definition bal_list_int_array_set_int :: "tagged \<Rightarrow> int \<Rightarrow> int \<Rightarrow> rt \<Rightarrow> fault + nat \<times> rt" where
  "bal_list_int_array_set_int p index val s =
     bindR (list_at p s) (\<lambda>lp. bindR (iArray lp) (\<lambda>ap.
     bindR (plain_array_set TAGGED_PTR_SHIFT sizeof_word 0 ap index val s) (\<lambda>((code, ap1), s1).
       Inr (code, store_array p lp (IArray ap1) s1))))"

definition bal_list_int_array_set_tagged :: "tagged \<Rightarrow> int \<Rightarrow> tagged \<Rightarrow> rt \<Rightarrow> fault + nat \<times> rt" where
  "bal_list_int_array_set_tagged p index val s =
     (if utTag val \<noteq> TAG_INT then Inr (storePanicCode p PANIC_LIST_STORE, s)
      else bindR (taggedToInt val s) (\<lambda>n. bal_list_int_array_set_int p index n s))"

definition bal_list_int_array_set_float :: "tagged \<Rightarrow> int \<Rightarrow> u64 \<Rightarrow> rt \<Rightarrow> fault + nat \<times> rt" where
  "bal_list_int_array_set_float p index val s = Inr (storePanicCode p PANIC_LIST_STORE, s)"

definition bal_list_byte_array_set_int :: "tagged \<Rightarrow> int \<Rightarrow> int \<Rightarrow> rt \<Rightarrow> fault + nat \<times> rt" where
  "bal_list_byte_array_set_int p index valInt s =
     (if valInt < 0 \<or> 255 < valInt then Inr (storePanicCode p PANIC_LIST_STORE, s)
      else bindR (list_at p s) (\<lambda>lp. bindR (bArray lp) (\<lambda>ap.
           bindR (plain_array_set BYTE_SHIFT sizeof_byte 0 ap index (word_of_int valInt) s) (\<lambda>((code, ap1), s1).
             Inr (code, store_array p lp (BArray ap1) s1)))))"

definition bal_list_byte_array_set_tagged :: "tagged \<Rightarrow> int \<Rightarrow> tagged \<Rightarrow> rt \<Rightarrow> fault + nat \<times> rt" where
  "bal_list_byte_array_set_tagged p index val s =
     (if utTag val \<noteq> TAG_INT then Inr (storePanicCode p PANIC_LIST_STORE, s)
      else bindR (taggedToInt val s) (\<lambda>n. bal_list_byte_array_set_int p index n s))"

definition bal_list_byte_array_set_float :: "tagged \<Rightarrow> int \<Rightarrow> u64 \<Rightarrow> rt \<Rightarrow> fault + nat \<times> rt" where
  "bal_list_byte_array_set_float p index val s = Inr (storePanicCode p PANIC_LIST_STORE, s)"

definition bal_list_float_array_set_float :: "tagged \<Rightarrow> int \<Rightarrow> u64 \<Rightarrow> rt \<Rightarrow> fault + nat \<times> rt" where
  "bal_list_float_array_set_float p index val s =
     bindR (list_at p s) (\<lambda>lp. bindR (fArray lp) (\<lambda>ap.
     bindR (plain_array_set TAGGED_PTR_SHIFT sizeof_word 0 ap index val s) (\<lambda>((code, ap1), s1).
       Inr (code, store_array p lp (FArray ap1) s1))))"

definition bal_list_float_array_set_tagged :: "tagged \<Rightarrow> int \<Rightarrow> tagged \<Rightarrow> rt \<Rightarrow> fault + nat \<times> rt" where
  "bal_list_float_array_set_tagged p index val s =
     (if utTag val \<noteq> TAG_FLOAT then Inr (storePanicCode p PANIC_LIST_STORE, s)
      else bindR (taggedToFloat val s) (\<lambda>d. bal_list_float_array_set_float p index d s))"

definition bal_list_float_array_set_int :: "tagged \<Rightarrow> int \<Rightarrow> int \<Rightarrow> rt \<Rightarrow> fault + nat \<times> rt" where
  "bal_list_float_array_set_int p index val s = Inr (storePanicCode p PANIC_LIST_STORE, s)"

section \<open>Fillers\<close>

definition createDecimal :: "decQuad \<Rightarrow> rt \<Rightarrow> fault + tagged \<times> rt" where
  "createDecimal dq s =
     bindR (alloc_obj 16 (ObjDecimal dq) s) (\<lambda>(dp, s1). Inr (ptrAddFlags dp (shifted_tag TAG_DECIMAL), s1))"

text \<open>The filler functions of \<open>structure.c\<close>, \<open>int.c\<close> and \<open>decimal.c\<close>: the value, and whether it has identity.\<close>

definition bal_generic_filler_create :: "tagged \<Rightarrow> rt \<Rightarrow> fault + (tagged \<times> bool) \<times> rt" where
  "bal_generic_filler_create genericValue s = Inr ((genericValue, False), s)"

definition bal_int_filler_create :: "int \<Rightarrow> rt \<Rightarrow> fault + (tagged \<times> bool) \<times> rt" where
  "bal_int_filler_create val s = bindR (intToTagged val s) (\<lambda>(v, s1). Inr ((v, False), s1))"

definition bal_decimal_filler_create :: "decQuad \<Rightarrow> rt \<Rightarrow> fault + (tagged \<times> bool) \<times> rt" where
  "bal_decimal_filler_create val s = bindR (createDecimal val s) (\<lambda>(v, s1). Inr ((v, False), s1))"

definition bal_list_filler_create :: "u64 \<Rightarrow> rt \<Rightarrow> fault + (tagged \<times> bool) \<times> rt" where
  "bal_list_filler_create ld s =
     bindR (list_desc_at ld s) (\<lambda>ldp.
     bindR (bal_list_construct_8 ld (ld_minLength ldp) s) (\<lambda>(lp, s1).
       Inr ((ptrAddFlags lp (shifted_tag TAG_LIST OR EXACT_FLAG), True), s1)))"

text \<open>The address of \<open>val\<close> in a \<open>FloatFillerDesc\<close>, behind the function pointer.\<close>

definition bal_float_filler_create :: "u64 \<Rightarrow> tagged" where
  "bal_float_filler_create fillerDesc = ptrAddShiftedTag (fillerDesc + 8) (shifted_tag TAG_FLOAT)"

text \<open>
  \<open>mk\<close> creates the filler for one member. The loop of \<open>_bal_fixed_length_list_filler_create\<close> from
  member \<open>i\<close> on, \<open>n\<close> members to go.
\<close>

fun fixed_length_fill ::
  "(u64 \<Rightarrow> rt \<Rightarrow> fault + tagged \<times> rt) \<Rightarrow> u64 list \<Rightarrow> nat \<Rightarrow> int \<Rightarrow> tagged option list \<Rightarrow> rt \<Rightarrow> fault + tagged option list \<times> rt" where
  "fixed_length_fill mk fillers 0 i ms s = Inr (ms, s)"
| "fixed_length_fill mk fillers (Suc n) i ms s =
     bindR (elem_at fillers (if i < int (length fillers) then i else int (length fillers) - 1)) (\<lambda>filler.
     bindR (mk filler s) (\<lambda>(v, s1).
     bindR (block_set ms i v) (\<lambda>ms1. fixed_length_fill mk fillers n (i + 1) ms1 s1)))"

definition bal_fixed_length_list_filler_create ::
  "(u64 \<Rightarrow> rt \<Rightarrow> fault + tagged \<times> rt) \<Rightarrow> u64 \<Rightarrow> u64 list \<Rightarrow> rt \<Rightarrow> fault + (tagged \<times> bool) \<times> rt" where
  "bal_fixed_length_list_filler_create mk ld fillers s =
     bindR (list_desc_at ld s) (\<lambda>ldp.
     bindR (bal_list_construct_8 ld (ld_minLength ldp) s) (\<lambda>(q, s1).
     let list = ptrAddFlags q (shifted_tag TAG_LIST OR EXACT_FLAG)
     in bindR (list_at list s1) (\<lambda>lp.
        bindR (tpArray lp) (\<lambda>ap.
        bindR (fixed_length_fill mk fillers (nat (ld_minLength ldp)) 0 (arr_members ap) s1) (\<lambda>(ms, s2).
          Inr ((list, True), store_array list lp (TpArray (ap\<lparr>arr_members := ms, arr_length := ld_minLength ldp\<rparr>)) s2))))))"

text \<open>\<open>fillerDesc->create(fillerDesc, hasIdentityPtr)\<close>: the value and the flag.\<close>

primrec fillerCreate :: "nat \<Rightarrow> u64 \<Rightarrow> rt \<Rightarrow> fault + (tagged \<times> bool) \<times> rt" where
  "fillerCreate 0 = (\<lambda>fdp s. Inl TooDeep)"
| "fillerCreate (Suc d) = (\<lambda>fdp s.
     (case fillerDescs (img s) fdp of
        None \<Rightarrow> Inl BadPointer
      | Some (GenericFiller v) \<Rightarrow> bal_generic_filler_create v s
      | Some (IntFiller n) \<Rightarrow> bal_int_filler_create n s
      | Some (FloatFiller x) \<Rightarrow> Inr ((bal_float_filler_create fdp, False), s)
      | Some (DecimalFiller dq) \<Rightarrow> bal_decimal_filler_create dq s
      | Some (ListFiller ld) \<Rightarrow> bal_list_filler_create ld s
      | Some (FixedLengthListFiller ld fillers) \<Rightarrow>
          bal_fixed_length_list_filler_create
            (\<lambda>f s. if f = 0 then Inl BadPointer
                   else bindR (fillerCreate d f s) (\<lambda>((v, hasIdentity), s1). Inr (v, s1))) ld fillers s
      | Some (MappingFiller md) \<Rightarrow> bal_mapping_filler_create md s))"

text \<open>
  \<open>structCreateFiller(fdp, fillability)\<close>; with a null \<open>fillability\<close> (\<open>wanted\<close> is false) and a null
  descriptor the code writes through the null pointer.
\<close>

definition structCreateFiller :: "nat \<Rightarrow> u64 \<Rightarrow> bool \<Rightarrow> rt \<Rightarrow> fault + (tagged \<times> fillability) \<times> rt" where
  "structCreateFiller d fdp wanted s =
     (if fdp = 0 then (if wanted then Inr ((0, FILL_NONE), s) else Inl BadPointer)
      else bindR (fillerCreate d fdp s) (\<lambda>((v, hasIdentity), s1).
             Inr ((v, if hasIdentity then FILL_EACH else FILL_COPY), s1)))"

section \<open>Stores into generic lists\<close>

text \<open>
  The loop that fills the gap of \<open>_bal_list_generic_set_tagged\<close> and \<open>_bal_list_filling_get\<close>, from
  member \<open>i\<close> on, \<open>n\<close> members to go.
\<close>

fun gap_fill ::
  "nat \<Rightarrow> fillability \<Rightarrow> u64 \<Rightarrow> nat \<Rightarrow> int \<Rightarrow> tagged \<Rightarrow> tagged option list \<Rightarrow> rt \<Rightarrow> fault + tagged option list \<times> rt" where
  "gap_fill d fill fdp 0 i filler ms s = Inr (ms, s)"
| "gap_fill d fill fdp (Suc n) i filler ms s =
     bindR (if fill = FILL_EACH
            then bindR (structCreateFiller d fdp False s) (\<lambda>((v, f), s1). Inr (v, s1)) else Inr (filler, s)) (\<lambda>(v, s1).
     bindR (block_set ms i v) (\<lambda>ms1. gap_fill d fill fdp n (i + 1) v ms1 s1))"

definition bal_list_generic_set_tagged :: "nat \<Rightarrow> tagged \<Rightarrow> int \<Rightarrow> tagged \<Rightarrow> rt \<Rightarrow> fault + nat \<times> rt" where
  "bal_list_generic_set_tagged d p index val s =
     bindR (list_at p s) (\<lambda>lp.
     bindR (list_desc_at (lo_desc lp) s) (\<lambda>ldp.
     bindR (listDescAllowsTaggedAt ldp index val s) (\<lambda>ok.
     if \<not> ok then Inr (storePanicCode p PANIC_LIST_STORE, s)
     else bindR (tpArray lp) (\<lambda>ap.
       if cast_u64 index < cast_u64 (arr_length ap)
       then bindR (block_set (arr_members ap) index val) (\<lambda>ms.
              Inr (0, store_array p lp (TpArray (ap\<lparr>arr_members := ms\<rparr>)) s))
       else bindR (if index > arr_length ap then structCreateFiller d (ld_fillerDesc ldp) True s
                   else Inr ((0, FILL_NONE), s)) (\<lambda>((filler, fill), s1).
         if index > arr_length ap \<and> fill = FILL_NONE then Inr (PANIC_NO_FILLER, s1)
         else if cast_u64 index \<ge> cast_u64 (arr_capacity ap) \<and> cast_u64 index \<ge> ARRAY_LENGTH_MAX
         then Inr (if index < 0 then PANIC_INDEX_OUT_OF_BOUNDS else PANIC_LIST_TOO_LONG, s1)
         else bindR (if cast_u64 index \<ge> cast_u64 (arr_capacity ap)
                     then bal_array_grow ap (index + 1) TAGGED_PTR_SHIFT sizeof_word s1 else Inr (ap, s1)) (\<lambda>(ap1, s2).
              bindR (if fill \<noteq> FILL_NONE
                     then bindR (block_set (arr_members ap1) (arr_length ap1) filler) (\<lambda>ms.
                          gap_fill d fill (ld_fillerDesc ldp) (nat (index - (arr_length ap1 + 1))) (arr_length ap1 + 1) filler ms s2)
                     else Inr (arr_members ap1, s2)) (\<lambda>(ms, s3).
              bindR (block_set ms index val) (\<lambda>ms2.
                Inr (0, store_array p lp (TpArray (ap1\<lparr>arr_members := ms2, arr_length := index + 1\<rparr>)) s3)))))))))"

definition bal_list_generic_inexact_set_tagged :: "nat \<Rightarrow> tagged \<Rightarrow> int \<Rightarrow> tagged \<Rightarrow> rt \<Rightarrow> fault + nat \<times> rt" where
  "bal_list_generic_inexact_set_tagged d p index val s =
     bindR (bal_list_generic_set_tagged d p index val s) (\<lambda>(code, s1). Inr (if code = 0 then 0 else PANIC_LIST_STORE, s1))"

definition bal_list_generic_inexact_set_float :: "nat \<Rightarrow> tagged \<Rightarrow> int \<Rightarrow> u64 \<Rightarrow> rt \<Rightarrow> fault + nat \<times> rt" where
  "bal_list_generic_inexact_set_float d p index val s =
     bindR (floatToTagged val s) (\<lambda>(v, s1). bal_list_generic_inexact_set_tagged d p index v s1)"

definition bal_list_generic_set_float :: "nat \<Rightarrow> tagged \<Rightarrow> int \<Rightarrow> u64 \<Rightarrow> rt \<Rightarrow> fault + nat \<times> rt" where
  "bal_list_generic_set_float d p index val s =
     bindR (floatToTagged val s) (\<lambda>(v, s1). bal_list_generic_set_tagged d p index v s1)"

definition bal_list_generic_inexact_set_int :: "nat \<Rightarrow> tagged \<Rightarrow> int \<Rightarrow> int \<Rightarrow> rt \<Rightarrow> fault + nat \<times> rt" where
  "bal_list_generic_inexact_set_int d p index val s =
     bindR (intToTagged val s) (\<lambda>(v, s1). bal_list_generic_inexact_set_tagged d p index v s1)"

definition bal_list_generic_set_int :: "nat \<Rightarrow> tagged \<Rightarrow> int \<Rightarrow> int \<Rightarrow> rt \<Rightarrow> fault + nat \<times> rt" where
  "bal_list_generic_set_int d p index val s =
     bindR (intToTagged val s) (\<lambda>(v, s1). bal_list_generic_set_tagged d p index v s1)"

text \<open>The result of \<open>_bal_list_filling_get\<close> is \<open>Inr\<close> the member or \<open>Inl\<close> the panic code.\<close>

definition bal_list_filling_get :: "nat \<Rightarrow> tagged \<Rightarrow> int \<Rightarrow> rt \<Rightarrow> fault + (nat + tagged) \<times> rt" where
  "bal_list_filling_get d p index s =
     bindR (list_at p s) (\<lambda>lp.
     bindR (tpArray lp) (\<lambda>ap.
     if cast_u64 index < cast_u64 (arr_length ap)
     then bindR (block_get (arr_members ap) index) (\<lambda>v. Inr (Inr v, s))
     else if index < 0 then Inr (Inl PANIC_INDEX_OUT_OF_BOUNDS, s)
     else bindR (list_desc_at (lo_desc lp) s) (\<lambda>ldp.
          bindR (structCreateFiller d (ld_fillerDesc ldp) True s) (\<lambda>((filler, fill), s1).
          if fill = FILL_NONE then Inr (Inl PANIC_NO_FILLER, s1)
          else if index \<ge> arr_capacity ap \<and> index \<ge> ARRAY_LENGTH_MAX then Inr (Inl PANIC_LIST_TOO_LONG, s1)
          else bindR (if index \<ge> arr_capacity ap
                      then bal_array_grow ap (index + 1) TAGGED_PTR_SHIFT sizeof_word s1 else Inr (ap, s1)) (\<lambda>(ap1, s2).
               bindR (block_set (arr_members ap1) index filler) (\<lambda>ms.
               bindR (gap_fill d fill (ld_fillerDesc ldp) (nat (index - arr_length ap1)) (arr_length ap1) filler ms s2) (\<lambda>(ms2, s3).
                 Inr (Inr filler, store_array p lp (TpArray (ap1\<lparr>arr_members := ms2, arr_length := index + 1\<rparr>)) s3))))))))"

section \<open>Dispatch through the descriptor\<close>

definition list_get :: "tagged \<Rightarrow> int \<Rightarrow> rt \<Rightarrow> fault + tagged \<times> rt" where
  "list_get p index s =
     bindR (list_at p s) (\<lambda>lp.
     bindR (list_desc_at (lo_desc lp) s) (\<lambda>ldp.
       case ld_repr ldp of
         GenericList \<Rightarrow> bindR (bal_list_generic_get_tagged p index s) (\<lambda>v. Inr (v, s))
       | IntArrayList \<Rightarrow> bal_list_int_array_get_tagged p index s
       | ByteArrayList \<Rightarrow> bal_list_byte_array_get_tagged p index s
       | FloatArrayList \<Rightarrow> bal_list_float_array_get_tagged p index s))"

definition list_set :: "nat \<Rightarrow> tagged \<Rightarrow> int \<Rightarrow> tagged \<Rightarrow> rt \<Rightarrow> fault + nat \<times> rt" where
  "list_set d p index val s =
     bindR (list_at p s) (\<lambda>lp.
     bindR (list_desc_at (lo_desc lp) s) (\<lambda>ldp.
       case ld_repr ldp of
         GenericList \<Rightarrow> bal_list_generic_set_tagged d p index val s
       | IntArrayList \<Rightarrow> bal_list_int_array_set_tagged p index val s
       | ByteArrayList \<Rightarrow> bal_list_byte_array_set_tagged p index val s
       | FloatArrayList \<Rightarrow> bal_list_float_array_set_tagged p index val s))"

definition bal_lang_array_length :: "tagged \<Rightarrow> rt \<Rightarrow> fault + int" where
  "bal_lang_array_length p s = bindR (list_at p s) (\<lambda>lp. Inr (array_length (lo_array lp)))"

definition bal_lang_array_push :: "nat \<Rightarrow> tagged \<Rightarrow> tagged \<Rightarrow> rt \<Rightarrow> fault + rt" where
  "bal_lang_array_push d p val s =
     bindR (list_at p s) (\<lambda>lp.
     bindR (list_set d p (array_length (lo_array lp)) val s) (\<lambda>(err, s1).
       if err \<noteq> 0 then Inl (Panicked err) else Inr s1))"

section \<open>Argument lists (function.c)\<close>

text \<open>The uniform argument array is a block of tagged pointers.\<close>

definition bal_function_alloc_uniform_args :: "u64 \<Rightarrow> rt \<Rightarrow> fault + tagged option list \<times> rt" where
  "bal_function_alloc_uniform_args nArgs s =
     bindR (bal_alloc (uint (8 * nArgs)) s) (\<lambda>(p, s1). Inr (block_new (nat (uint (8 * nArgs)) div 8), s1))"

fun add_to_uniform_args :: "nat \<Rightarrow> int \<Rightarrow> tagged option list \<Rightarrow> tagged \<Rightarrow> int \<Rightarrow> rt \<Rightarrow> fault + tagged option list \<times> rt" where
  "add_to_uniform_args 0 i args restArgArray startingOffset s = Inr (args, s)"
| "add_to_uniform_args (Suc n) i args restArgArray startingOffset s =
     bindR (list_get restArgArray i s) (\<lambda>(v, s1).
     bindR (block_set args (cast_u64 (startingOffset + i)) v) (\<lambda>args1.
       add_to_uniform_args n (i + 1) args1 restArgArray startingOffset s1))"

definition bal_function_add_to_uniform_args ::
  "tagged option list \<Rightarrow> tagged \<Rightarrow> int \<Rightarrow> rt \<Rightarrow> fault + tagged option list \<times> rt" where
  "bal_function_add_to_uniform_args uniformArgArray restArgArray startingOffset s =
     bindR (list_at restArgArray s) (\<lambda>lp.
       add_to_uniform_args (nat (array_length (lo_array lp))) 0 uniformArgArray restArgArray startingOffset s)"

fun add_to_rest_args :: "nat \<Rightarrow> nat \<Rightarrow> int \<Rightarrow> tagged \<Rightarrow> tagged option list \<Rightarrow> int \<Rightarrow> rt \<Rightarrow> fault + rt" where
  "add_to_rest_args d 0 i restArgArray args startingOffset s = Inr s"
| "add_to_rest_args d (Suc n) i restArgArray args startingOffset s =
     bindR (block_get args (cast_u64 (startingOffset + i))) (\<lambda>val.
     bindR (list_at restArgArray s) (\<lambda>lp.
     bindR (list_set d restArgArray (array_length (lo_array lp)) val s) (\<lambda>(err, s1).
       if err \<noteq> 0 then Inl (Panicked err)
       else add_to_rest_args d n (i + 1) restArgArray args startingOffset s1)))"

definition bal_function_add_to_rest_args ::
  "nat \<Rightarrow> tagged \<Rightarrow> tagged option list \<Rightarrow> int \<Rightarrow> int \<Rightarrow> rt \<Rightarrow> fault + rt" where
  "bal_function_add_to_rest_args d restArgArray uniformArgArray startingOffset restArgCount s =
     add_to_rest_args d (nat restArgCount) 0 restArgArray uniformArgArray startingOffset s"

definition bal_function_is_closure :: "tagged \<Rightarrow> bool" where
  "bal_function_is_closure fp \<longleftrightarrow> \<not> (fp AND FUNCTION_CLOSURE_FLAG = 0)"

section \<open>Filling access to mappings (mapping.c)\<close>

definition bal_mapping_filling_get :: "nat \<Rightarrow> tagged \<Rightarrow> tagged \<Rightarrow> rt \<Rightarrow> fault + (nat + tagged) \<times> rt" where
  "bal_mapping_filling_get d mapping key s =
     bindR (mapping_at mapping s) (\<lambda>mp.
     bindR (bal_string_hash key s) (\<lambda>h.
     bindR (lookup mp key h s) (\<lambda>i.
     if i \<ge> 0 then bindR (block_get (arr_members (mo_fArray mp)) i) (\<lambda>f. Inr (Inr (mf_value f), s))
     else bindR (mapping_desc_at (mo_desc mp) s) (\<lambda>mdp.
          bindR (structCreateFiller d (md_fillerDesc mdp) True s) (\<lambda>((v, fill), s1).
          if fill = FILL_NONE then Inr (Inl PANIC_NO_FILLER, s1)
          else bindR (mappingGrowPush mp key v i s1) (\<lambda>(mp1, s2).
                 Inr (Inr v, store (taggedToPtr mapping) (ObjMapping mp1) s2)))))))"

end
