(* ===== verification/Rt_List_Props.thy ===== *)
theory Rt_List_Props
  imports Rt_Lists Rt_Mapping_Ops
begin

text \<open>
  Correctness of lists of primitive values. \<open>holds\<close> relates a list object to the HOL list of its
  members; the three primitive families satisfy one contract, the locale \<open>plain_list\<close>. Fillers are
  treated in \<open>Rt_Fillers\<close>, generic lists in \<open>Rt_Generic_Lists\<close>.
\<close>

section \<open>Lists in the heap\<close>

definition holds :: "('a c_array \<Rightarrow> list_array) \<Rightarrow> rt \<Rightarrow> tagged \<Rightarrow> u64 \<Rightarrow> 'a list \<Rightarrow> bool" where
  "holds C s p desc xs \<longleftrightarrow>
     (\<exists>ap. heap s (taggedToPtr p) = Some (ObjList \<lparr>lo_desc = desc, lo_array = C ap\<rparr>) \<and> arr_inv 1 ap \<and> arr_list ap = xs)"

lemma holdsE:
  assumes "holds C s p desc xs"
  obtains ap where "heap s (taggedToPtr p) = Some (ObjList \<lparr>lo_desc = desc, lo_array = C ap\<rparr>)" "arr_inv 1 ap"
    "arr_list ap = xs" "list_at p s = Inr \<lparr>lo_desc = desc, lo_array = C ap\<rparr>" "arr_length ap = int (length xs)"
proof -
  obtain ap where ap: "heap s (taggedToPtr p) = Some (ObjList \<lparr>lo_desc = desc, lo_array = C ap\<rparr>)" "arr_inv 1 ap"
    "arr_list ap = xs" using assms by (auto simp: holds_def)
  then show thesis using that [of ap] arr_list_length1 [OF ap(2)] by (simp add: list_at_def)
qed

lemma holds_store:
  "arr_inv 1 ap \<Longrightarrow> holds C (store_array p \<lparr>lo_desc = desc, lo_array = a\<rparr> (C ap) s) p desc (arr_list ap)"
  by (auto simp: holds_def store_array_def)

lemma holds_same: "holds C s p desc xs \<Longrightarrow> heap s1 (taggedToPtr p) = heap s (taggedToPtr p) \<Longrightarrow> holds C s1 p desc xs"
  by (simp add: holds_def)

section \<open>Primitive arrays\<close>

text \<open>
  The contract of the three primitive families: the store of a family is \<open>plain_array_set\<close> on the
  array that its constructor \<open>C\<close> wraps. A store then implements \<open>list_store\<close>, and nothing but the
  list changes.
\<close>

locale plain_list =
  fixes C :: "'a c_array \<Rightarrow> list_array"
    and arr :: "list_obj \<Rightarrow> fault + 'a c_array"
    and shift esize :: nat
    and zero :: 'a
    and set_member :: "tagged \<Rightarrow> int \<Rightarrow> 'a \<Rightarrow> rt \<Rightarrow> fault + nat \<times> rt"
  assumes arr_C: "arr \<lparr>lo_desc = desc, lo_array = C ap\<rparr> = Inr ap"
    and sizes: "2 ^ shift = esize" "shift \<le> 3"
    and set_member: "set_member p index val s =
      bindR (list_at p s) (\<lambda>lp. bindR (arr lp) (\<lambda>ap.
      bindR (plain_array_set shift esize zero ap index val s) (\<lambda>((code, ap1), s1).
        Inr (code, store_array p lp (C ap1) s1))))"
begin

lemma set_member_correct:
  assumes h: "holds C s p desc xs" and i: "i64 index"
  shows "case set_member p index val s of
      Inl e \<Rightarrow> e = OutOfMemory
    | Inr (code, s1) \<Rightarrow> code = fst (list_store zero xs index val) \<and> holds C s1 p desc (snd (list_store zero xs index val)) \<and>
        changes_only (taggedToPtr p) s s1"
proof -
  obtain ap where ap: "heap s (taggedToPtr p) = Some (ObjList \<lparr>lo_desc = desc, lo_array = C ap\<rparr>)" "arr_inv 1 ap"
    "arr_list ap = xs" "list_at p s = Inr \<lparr>lo_desc = desc, lo_array = C ap\<rparr>" using h by (rule holdsE)
  note c = plain_array_set_correct [OF ap(2) i sizes, of zero val s]
  show ?thesis
  proof (cases "plain_array_set shift esize zero ap index val s")
    case (Inl e)
    then show ?thesis using c ap by (simp add: set_member arr_C)
  next
    case (Inr r)
    obtain code ap1 s1 where r: "r = ((code, ap1), s1)" by (metis prod.exhaust)
    have a1: "arr_inv 1 ap1" "(code, arr_list ap1) = list_store zero xs index val"
      and al: "s1 = s \<or> (\<exists>n p. bal_alloc n s = Inr (p, s1))" using c Inr r ap(3) by auto
    have s1: "heap s1 = heap s" "img s1 = img s" "wf_rt s \<longrightarrow> wf_rt s1" using al alloc_same by blast+
    let ?s2 = "store_array p \<lparr>lo_desc = desc, lo_array = C ap\<rparr> (C ap1) s1"
    have res: "set_member p index val s = Inr (code, ?s2)" using Inr r ap(4) by (simp add: set_member arr_C)
    have "changes_only (taggedToPtr p) s ?s2"
      unfolding store_array_def using s1 ap(1) by (intro changes_only_store)
    moreover have "holds C ?s2 p desc (arr_list ap1)" by (rule holds_store [OF a1(1)])
    ultimately show ?thesis using res a1(2) [symmetric] by simp
  qed
qed

lemma set_member_in_range:
  assumes "holds C s p desc xs" "i < length xs" "length xs < 2 ^ 63"
  shows "\<exists>s1. set_member p (int i) val s = Inr (0, s1) \<and> holds C s1 p desc (xs[i := val])"
proof -
  obtain ap where ap: "arr_inv 1 ap" "arr_list ap = xs" "list_at p s = Inr \<lparr>lo_desc = desc, lo_array = C ap\<rparr>"
    "arr_length ap = int (length xs)" using assms(1) by (rule holdsE)
  have i: "i64 (int i)" using assms(2,3) by (simp add: i64_def)
  have "0 \<le> int i" "int i < arr_length ap" using assms(2) ap(4) by simp_all
  note st = arr_inv_set [OF ap(1) this, of val]
  have "set_member p (int i) val s =
      Inr (0, store_array p \<lparr>lo_desc = desc, lo_array = C ap\<rparr> (C (ap\<lparr>arr_members := (arr_members ap)[i := Some val]\<rparr>)) s)"
    using st(1) assms(2) ap(3,4) cast_u64_ge_capacity(2) [OF ap(1) i]
    by (simp add: set_member arr_C plain_array_set_def)
  then show ?thesis using holds_store [OF st(2)] st(3) ap(2) by (metis nat_int)
qed

end

interpretation int_list: plain_list IArray iArray TAGGED_PTR_SHIFT sizeof_word 0 bal_list_int_array_set_int
  by unfold_locales (simp_all add: iArray_def bal_list_int_array_set_int_def)

interpretation float_list: plain_list FArray fArray TAGGED_PTR_SHIFT sizeof_word 0 bal_list_float_array_set_float
  by unfold_locales (simp_all add: fArray_def bal_list_float_array_set_float_def)

text \<open>For bytes the contract holds behind the range check.\<close>

definition byte_store :: "tagged \<Rightarrow> int \<Rightarrow> byte \<Rightarrow> rt \<Rightarrow> fault + nat \<times> rt" where
  "byte_store p index b s = bal_list_byte_array_set_int p index (uint b) s"

interpretation byte_list: plain_list BArray bArray BYTE_SHIFT sizeof_byte 0 byte_store
proof unfold_locales
  fix p index val s
  have "0 \<le> uint (val :: byte)" "uint val < 256" using uint_bounded [of val] by simp_all
  then show "byte_store p index val s =
      bindR (list_at p s) (\<lambda>lp. bindR (bArray lp) (\<lambda>ap.
      bindR (plain_array_set BYTE_SHIFT sizeof_byte 0 ap index val s) (\<lambda>((code, ap1), s1).
        Inr (code, store_array p lp (BArray ap1) s1))))"
    by (simp add: byte_store_def bal_list_byte_array_set_int_def)
qed (simp_all add: bArray_def)

lemma bal_list_byte_array_set_int_correct:
  assumes "holds BArray s p desc xs" "i64 index"
  shows "case bal_list_byte_array_set_int p index n s of
      Inl e \<Rightarrow> e = OutOfMemory
    | Inr (code, s1) \<Rightarrow>
        if 0 \<le> n \<and> n \<le> 255
        then code = fst (list_store 0 xs index (word_of_int n)) \<and> holds BArray s1 p desc (snd (list_store 0 xs index (word_of_int n))) \<and>
             changes_only (taggedToPtr p) s s1
        else code = storePanicCode p PANIC_LIST_STORE \<and> s1 = s"
proof (cases "0 \<le> n \<and> n \<le> 255")
  case True
  then have "bal_list_byte_array_set_int p index n s = byte_store p index (word_of_int n) s"
    by (simp add: byte_store_def uint_word_of_int)
  then show ?thesis
    using byte_list.set_member_correct [OF assms, of "word_of_int n"] True by (simp split: sum.splits prod.splits)
next
  case False
  then have "bal_list_byte_array_set_int p index n s = Inr (storePanicCode p PANIC_LIST_STORE, s)"
    by (auto simp: bal_list_byte_array_set_int_def)
  then show ?thesis using False by (simp only: sum.case prod.case if_False)
qed

end
