(* ===== verification/Rt_Samples.thy ===== *)
theory Rt_Samples
  imports Rt_Mapping_Limits Rt_List_Props
begin

text \<open>
  A concrete program image and a concrete initial state, at which the hypotheses of the theorems
  are shown to hold: a few descriptors and types as the compiler emits them, the hash key of
  \<open>hash.h\<close>, an empty heap and a supply of fresh addresses.
\<close>

section \<open>The image\<close>

text \<open>Bit sets of basic types: every bit for any type, bit 2 for \<open>int\<close>, bit 3 for \<open>float\<close>, bit 5 for \<open>string\<close>.\<close>

definition sample_list_desc :: "list_repr \<Rightarrow> u32 \<Rightarrow> u64 \<Rightarrow> list_desc" where
  "sample_list_desc r b filler =
     \<lparr>ld_tid = 1, ld_nMemberTypes = 0, ld_minLength = 0, ld_repr = r, ld_restType = BITSET_MEMBER_TYPE b,
      ld_fillerDesc = filler, ld_memberTypes = []\<rparr>"

definition sample_mapping_desc :: mapping_desc where
  "sample_mapping_desc =
     \<lparr>md_tid = 2, md_nFields = 0, md_restType = BITSET_MEMBER_TYPE 4, md_fillerDesc = 0, md_fieldTypes = []\<rparr>"

text \<open>
  List descriptors: 0x100 \<open>(int|string)[]\<close>, 0x108 \<open>int[]\<close>, 0x110 \<open>byte[]\<close>, 0x118 \<open>float[]\<close>, 0x120 \<open>int[][]\<close> with
  the filler 0x308 (a new list of type 0x108), 0x128 a generic list whose filler is the nil value.
\<close>

definition sample_image :: image where
  "sample_image =
     \<lparr>listDescs = [0x100 \<mapsto> sample_list_desc GenericList 0x24 0, 0x108 \<mapsto> sample_list_desc IntArrayList 4 0,
                   0x110 \<mapsto> sample_list_desc ByteArrayList 4 0, 0x118 \<mapsto> sample_list_desc FloatArrayList 8 0,
                   0x120 \<mapsto> sample_list_desc GenericList 0x1000 0x308, 0x128 \<mapsto> sample_list_desc GenericList 0x3F 0x300],
      mappingDescs = [0x200 \<mapsto> sample_mapping_desc],
      functionDescs = Map.empty, complexTypes = Map.empty,
      fillerDescs = [0x300 \<mapsto> GenericFiller NIL, 0x308 \<mapsto> ListFiller 0x108],
      hashKey = (0x243F6A8885A308D3, 0x13198A2E03707344),
      decQuadCompareClass = (\<lambda>a b. if dec_isnan a \<or> dec_isnan b then DEC_CLASS_QNAN
        else if a = b then DEC_CLASS_POS_ZERO else if a < b then DEC_CLASS_NEG_NORMAL else DEC_CLASS_POS_NORMAL)\<rparr>"

definition sample_rt :: rt where
  "sample_rt =
     \<lparr>heap = Map.empty, pool = [0x1000, 0x2000, 0x3000, 0x4000, 0x5000, 0x6000, 0x7000, 0x8000], junk = (\<lambda>_. 0xA5),
      img = sample_image\<rparr>"

lemma sample_wf: "wf_rt sample_rt"
  by (simp add: wf_rt_def sample_rt_def heap_addr_def POINTER_MASK_def ALIGN_MASK_def HEAP_ALIGNMENT_def)

lemma sample_img [simp]: "img sample_rt = sample_image"
  by (simp add: sample_rt_def)

lemma sample_pool: "pool sample_rt = [0x1000, 0x2000, 0x3000, 0x4000, 0x5000, 0x6000, 0x7000, 0x8000]"
  by (simp add: sample_rt_def)

text \<open>The same state with an empty generic list at 0x2000.\<close>

definition sample_list_rt :: rt where
  "sample_list_rt = store 0x2000 (ObjList \<lparr>lo_desc = 0x100, lo_array = TpArray \<lparr>arr_length = 0, arr_capacity = 0, arr_members = []\<rparr>\<rparr>) sample_rt"

text \<open>An immediate string represents its bytes in every state.\<close>

lemma sample_key: "b < 0x80 \<Longrightarrow> str_rep s (immediate_bits [b]) [b]"
proof -
  assume b: "b < (0x80 :: byte)"
  then have "\<not> is_cont b" by (auto simp: is_cont_def)
  moreover have "utf8 [b]" using b by (simp add: utf8_len_def utf8.simps Let_def)
  ultimately show ?thesis by (intro str_rep_immediateI) (simp_all add: immediate_rep_def)
qed

end
