(* ===== verification/Rt_Type_Props.thy ===== *)
theory Rt_Type_Props
  imports Rt_Types
begin

text \<open>
  Correctness of the membership tests: each search decides membership in the set its table
  denotes, a complex type consults the subtype of the value's own basic type, and the bit-set
  tests are sound for the values a member type admits.
\<close>

section \<open>Integer ranges\<close>

definition sorted_ranges :: "int_range list \<Rightarrow> bool" where
  "sorted_ranges rs \<longleftrightarrow> sorted_wrt (\<lambda>r r'. range_max r < range_min r') rs \<and> (\<forall>r \<in> set rs. range_min r \<le> range_max r)"

lemma intRangeListContains_decides:
  assumes "rs \<noteq> []" "sorted_ranges rs"
  shows "intRangeListContains rs n = Inr (\<exists>r \<in> set rs. range_min r \<le> n \<and> n \<le> range_max r)"
  using assms
proof (induction rs rule: list_nonempty_induct)
  case (single r)
  then show ?case by auto
next
  case (cons r rs)
  have "sorted_ranges rs" using cons.prems by (simp add: sorted_ranges_def)
  moreover have "n < range_min r'" if "n \<le> range_max r" "r' \<in> set rs" for r'
    using cons.prems that by (fastforce simp: sorted_ranges_def)
  ultimately show ?case using cons by force
qed

section \<open>Searches\<close>

lemma elem_at_int [simp]: "i < length xs \<Longrightarrow> elem_at xs (int i) = Inr (xs ! i)"
  by (simp add: elem_at_def)

definition tid_cmp :: "tid \<Rightarrow> tid \<Rightarrow> int" where
  "tid_cmp t m = (if t = m then 0 else if t < m then - 1 else 1)"

interpretation tid_search: binary_search tidListContains tid_cmp "\<lambda>t m. True"
proof unfold_locales
  fix i j :: nat and xs k
  show "\<not> i < j \<Longrightarrow> tidListContains xs i j k = Inr False" by (subst tidListContains.simps) simp
  fix m assume ij: "i < j" "j \<le> length xs" and m: "m = i + (j - i) div 2"
  have "m < length xs" using ij m by simp
  then show "tidListContains xs i j k =
     (if tid_cmp k (xs ! m) = 0 then Inr True else if tid_cmp k (xs ! m) < 0 then tidListContains xs i m k
      else tidListContains xs (m + 1) j k)"
    using ij(1) by (subst tidListContains.simps) (simp only: if_True Let_def m [symmetric] elem_at_int bindR_simps, simp add: tid_cmp_def)
qed

lemma tid_search_sorted: "sorted_wrt (<) tids \<Longrightarrow> tid_search.sorted_for t tids"
  unfolding tid_search.sorted_for_def sorted_wrt_iff_nth_less
proof (intro conjI ballI allI impI TrueI)
  fix i j assume s: "\<forall>i j. i < j \<longrightarrow> j < length tids \<longrightarrow> tids ! i < tids ! j" and ij: "i < j" "j < length tids"
  have "tids ! i < tids ! j" using s ij by blast
  moreover assume "tid_cmp t (tids ! i) \<le> 0"
  then have "t \<le> tids ! i" by (auto simp: tid_cmp_def split: if_splits)
  ultimately have "t < tids ! j" by (rule le_less_trans [rotated])
  then show "tid_cmp t (tids ! j) < 0" by (simp add: tid_cmp_def)
qed

lemma tidListContains_decides: "sorted_wrt (<) tids \<Longrightarrow> tidListContains tids 0 (length tids) t = Inr (t \<in> set tids)"
  using tid_search.search_decides [OF tid_search_sorted] by (auto simp: tid_cmp_def split: if_splits)

definition dbl_cmp :: "u64 \<Rightarrow> u64 \<Rightarrow> int" where
  "dbl_cmp d m = (if dbl_eq d m then 0 else if dbl_lt d m then - 1 else 1)"

interpretation float_search: binary_search floatListContains dbl_cmp "\<lambda>d m. \<not> dbl_isnan d \<and> \<not> dbl_isnan m"
proof unfold_locales
  fix i j :: nat and xs k
  show "\<not> i < j \<Longrightarrow> floatListContains xs i j k = Inr False" by (subst floatListContains.simps) simp
  fix m assume ij: "i < j" "j \<le> length xs" and m: "m = i + (j - i) div 2"
  have "m < length xs" using ij m by simp
  then show "floatListContains xs i j k =
     (if dbl_cmp k (xs ! m) = 0 then Inr True else if dbl_cmp k (xs ! m) < 0 then floatListContains xs i m k
      else floatListContains xs (m + 1) j k)"
    using ij(1) by (subst floatListContains.simps) (simp only: if_True Let_def m [symmetric] elem_at_int bindR_simps, simp add: dbl_cmp_def)
qed

definition sorted_floats :: "u64 list \<Rightarrow> bool" where
  "sorted_floats ds \<longleftrightarrow> sorted_wrt dbl_lt ds \<and> (\<forall>d \<in> set ds. \<not> dbl_isnan d)"

lemma float_search_sorted:
  assumes "sorted_floats ds" "\<not> dbl_isnan d"
  shows "float_search.sorted_for d ds"
  using assms
  by (auto simp: float_search.sorted_for_def dbl_cmp_def sorted_floats_def sorted_wrt_iff_nth_less dbl_lt_def dbl_eq_def
      split: if_splits) fastforce+

lemma floatListContains_decides:
  assumes "sorted_floats ds" "\<not> dbl_isnan d"
  shows "floatListContains ds 0 (length ds) d = Inr (\<exists>x \<in> set ds. dbl_eq d x)"
  using float_search.search_decides [OF float_search_sorted [OF assms]] by (auto simp: dbl_cmp_def split: if_splits)

lemma floatListContains_Cons:
  "j \<le> length ds \<Longrightarrow> floatListContains (x # ds) (Suc i) (Suc j) d = floatListContains ds i j d"
proof (induction "j - i" arbitrary: i j rule: less_induct)
  case less
  show ?case
  proof (cases "i < j")
    case True
    define m where "m = i + (j - i) div 2"
    have m: "i \<le> m" "m < j" using True by (auto simp: m_def)
    have e: "elem_at (x # ds) (int (Suc m)) = Inr (ds ! m)" "elem_at ds (int m) = Inr (ds ! m)"
      using m less.prems elem_at_int [of "Suc m" "x # ds"] by (simp_all del: of_nat_Suc)
    have "floatListContains (x # ds) (Suc i) (Suc m) d = floatListContains ds i m d"
      using m less.prems by (intro less.hyps) auto
    moreover have "floatListContains (x # ds) (Suc (m + 1)) (Suc j) d = floatListContains ds (m + 1) j d"
      using m less.prems by (intro less.hyps) auto
    moreover have "Suc i + (Suc j - Suc i) div 2 = Suc m" by (simp add: m_def)
    ultimately show ?thesis
      using True by (subst (1 2) floatListContains.simps) (simp add: Let_def m_def [symmetric] e del: of_nat_Suc)
  next
    case False
    then show ?thesis by (subst (1 2) floatListContains.simps) simp
  qed
qed

lemma floatSubtypeContainsFloat_plain:
  assumes "ds \<noteq> []" "sorted_floats ds"
  shows "floatSubtypeContainsFloat included ds d =
           Inr ((\<not> dbl_isnan d \<and> (\<exists>x \<in> set ds. dbl_eq d x)) = included)"
proof -
  obtain x xs where "ds = x # xs" using assms(1) by (cases ds) auto
  then have "elem_at ds 0 = Inr x" "\<not> dbl_isnan x" using assms(2) by (simp_all add: elem_at_def sorted_floats_def)
  then show ?thesis
    using floatListContains_decides [OF assms(2), of d] by (simp add: floatSubtypeContainsFloat_def)
qed

lemma floatSubtypeContainsFloat_nan:
  assumes "dbl_isnan x" "sorted_floats ds"
  shows "floatSubtypeContainsFloat included (x # ds) d =
           Inr ((dbl_isnan d \<or> (\<exists>y \<in> set ds. dbl_eq d y)) = included)"
  using floatListContains_decides [OF assms(2), of d] floatListContains_Cons [of "length ds" ds x 0 d] assms(1)
  by (simp add: floatSubtypeContainsFloat_def elem_at_def)

definition dec_cmp :: "decQuad \<times> rt \<Rightarrow> decQuad \<Rightarrow> int" where
  "dec_cmp k m =
     (case decQuadCompareClass (img (snd k)) (fst k) m of
        DEC_CLASS_POS_ZERO \<Rightarrow> 0 | DEC_CLASS_NEG_NORMAL \<Rightarrow> - 1 | _ \<Rightarrow> 1)"

interpretation decimal_search: binary_search
  "\<lambda>ds i j k. decimalListContains ds i j (fst k) (snd k)" dec_cmp "\<lambda>k m. True"
proof unfold_locales
  fix i j :: nat and xs k
  show "\<not> i < j \<Longrightarrow> decimalListContains xs i j (fst k) (snd k) = Inr False"
    by (subst decimalListContains.simps) simp
  fix m assume ij: "i < j" "j \<le> length xs" and m: "m = i + (j - i) div 2"
  have "m < length xs" using ij m by simp
  then show "decimalListContains xs i j (fst k) (snd k) =
     (if dec_cmp k (xs ! m) = 0 then Inr True
      else if dec_cmp k (xs ! m) < 0 then decimalListContains xs i m (fst k) (snd k)
      else decimalListContains xs (m + 1) j (fst k) (snd k))"
    using ij(1)
    by (subst decimalListContains.simps)
       (simp only: if_True Let_def m [symmetric] elem_at_int bindR_simps, simp add: dec_cmp_def split: decClass.splits)
qed

text \<open>
  What \<open>decQuadCompare\<close> promises for the decimals of a set \<open>D\<close>: it returns 0, -1 or 1 according to their
  numerical values, here multiplied by the power of ten that makes all of them integers. The library promises
  it for \<open>numbers\<close>, the decimals that are not NaN; for a NaN it returns NaN.
\<close>

definition numbers :: "decQuad set" where
  "numbers = {d. \<not> dec_isnan d}"

definition compares_values :: "image \<Rightarrow> decQuad set \<Rightarrow> (decQuad \<Rightarrow> int) \<Rightarrow> bool" where
  "compares_values im D val \<longleftrightarrow>
     (\<forall>a \<in> D. \<forall>b \<in> D. decQuadCompareClass im a b =
        (if val a = val b then DEC_CLASS_POS_ZERO
         else if val a < val b then DEC_CLASS_NEG_NORMAL else DEC_CLASS_POS_NORMAL))"

lemma decimalListContains_decides:
  assumes "compares_values (img s) D val" "dq \<in> D" "set ds \<subseteq> D" "sorted_wrt (\<lambda>a b. val a < val b) ds"
  shows "decimalListContains ds 0 (length ds) dq s = Inr (\<exists>x \<in> set ds. val dq = val x)"
proof -
  have c: "dec_cmp (dq, s) m = (if val dq = val m then 0 else if val dq < val m then - 1 else 1)" if "m \<in> set ds" for m
    using assms(1-3) that by (auto simp: compares_values_def dec_cmp_def)
  have "decimal_search.sorted_for (dq, s) ds"
    using assms(4) by (fastforce simp: decimal_search.sorted_for_def c sorted_wrt_iff_nth_less split: if_splits)
  from decimal_search.search_decides [OF this] show ?thesis by (auto simp: c split: if_splits)
qed

section \<open>Complex types\<close>

declare push_bit_of_1 [simp del]

lemma utTag_bit: "bit (utTag p) n \<longleftrightarrow> n < 5 \<and> bit p (n + 56)"
proof -
  have "bit UT_MASK n \<longleftrightarrow> bit (mask 5 :: nat) n" by (simp add: UT_MASK_def mask_eq_exp_minus_1)
  then have "bit UT_MASK n \<longleftrightarrow> n < 5" unfolding bit_mask_iff by simp
  then show ?thesis by (auto simp: utTag_def bit_and_iff bit_getTag)
qed

lemma utTag_less: "utTag p < 32"
proof -
  have "utTag p = take_bit 5 (utTag p)" by (rule bit_eqI) (auto simp: bit_take_bit_iff utTag_bit)
  then show ?thesis using take_bit_nat_less_exp [of 5 "utTag p"] by simp
qed

lemma nth_filter_upt:
  assumes "P t" "t < n"
  shows "filter P [0..<n] ! length (filter P [0..<t]) = t" "length (filter P [0..<t]) < length (filter P [0..<n])"
proof -
  have "[0..<n] = [0..<t] @ t # [Suc t..<n]" using assms(2) by (metis le_add2 upt_add_eq_append upt_conv_Cons
        le_add_same_cancel1 less_imp_le_nat plus_nat.add_0 zero_le le_iff_add)
  then have f: "filter P [0..<n] = filter P [0..<t] @ t # filter P [Suc t..<n]" using assms(1) by simp
  show "filter P [0..<n] ! length (filter P [0..<t]) = t" "length (filter P [0..<t]) < length (filter P [0..<n])"
    unfolding f by (simp_all add: nth_append)
qed

lemma filter_less_upt: "t \<le> n \<Longrightarrow> filter (\<lambda>k. k < t) [0..<n] = [0..<t]"
proof (induction n)
  case (Suc n)
  then show ?case by (cases "t = Suc n") (auto intro!: filter_True)
qed simp

lemma popcount_below:
  assumes "t < 32"
  shows "popcount (w AND (push_bit t 1 - 1)) = length (filter (bit w) [0..<t])"
proof -
  have m: "(push_bit t 1 - 1 :: u32) = mask t" by (simp add: mask_eq_exp_minus_1 push_bit_of_1)
  have "filter (bit (w AND mask t)) [0..<32] = filter (bit w) (filter (\<lambda>n. n < t) [0..<32])"
    unfolding filter_filter by (rule filter_cong) (auto simp: bit_and_iff bit_mask_iff)
  also have "filter (\<lambda>n. n < t) [0..<32] = [0..<t]"
    using filter_less_upt [of t 32] assms by simp
  finally show ?thesis by (simp add: popcount_def m)
qed

text \<open>
  The subtypes of a complex type are stored in the order of the basic types that \<open>some\<close> marks.
\<close>

definition subtypes_of :: "(nat \<Rightarrow> uniform_subtype) \<Rightarrow> complex_type \<Rightarrow> bool" where
  "subtypes_of f ctp \<longleftrightarrow> ct_subtypes ctp = map f (filter (bit (ct_some ctp)) [0..<32])"

lemma flag_bit: "w AND push_bit n 1 \<noteq> 0 \<longleftrightarrow> bit w n" for w :: "'a :: len word"
  by (simp add: bit_iff_and_push_bit_not_eq_0)

lemma flag_bit_zero: "w AND push_bit n 1 = 0 \<longleftrightarrow> \<not> bit w n" for w :: "'a :: len word"
  using flag_bit by blast

lemma subtypes_elem_at:
  assumes "subtypes_of f ctp" "t < 32" "bit (ct_some ctp) t"
  shows "elem_at (ct_subtypes ctp) (int (popcount (ct_some ctp AND (push_bit t 1 - 1)))) = Inr (f t)"
  using nth_filter_upt [of "bit (ct_some ctp)" t 32] assms
  by (simp add: popcount_below subtypes_of_def)

lemma complexTypeContainsTagged_dispatch:
  assumes "subtypes_of f ctp"
  shows "complexTypeContainsTagged ctp p s =
     (if bit (ct_all ctp) (utTag p) then Inr True
      else if bit (ct_some ctp) (utTag p) then subtype_contains (f (utTag p)) p s
      else Inr False)"
  using subtypes_elem_at [OF assms utTag_less [of p]]
  by (simp add: complexTypeContainsTagged_def Let_def flag_bit flag_bit_zero)

lemma complexTypeContainsTagged_bits:
  "complexTypeContainsTagged ctp p s = Inr True \<Longrightarrow> bit (ct_all ctp) (utTag p) \<or> bit (ct_some ctp) (utTag p)"
  by (auto simp: complexTypeContainsTagged_def Let_def flag_bit flag_bit_zero split: if_splits)

section \<open>Member types\<close>

lemma and_1_odd: "(w :: u64) AND 1 \<noteq> 0 \<longleftrightarrow> bit w 0"
  using flag_bit [of w 0] by simp

lemma subset_bits: "ucast (b :: u32) AND NOT (ucast c :: u64) = 0 \<longleftrightarrow> (\<forall>n. bit b n \<longrightarrow> bit c n)"
proof
  assume z: "ucast b AND NOT (ucast c :: u64) = 0"
  show "\<forall>n. bit b n \<longrightarrow> bit c n"
  proof (intro allI impI)
    fix n assume b: "bit b n"
    then have "n < 32" using bit_imp_le_length [of b n] by simp
    moreover have "\<not> bit (ucast b AND NOT (ucast c :: u64)) n" unfolding z by simp
    ultimately show "bit c n" using b by (auto simp: bit_simps)
  qed
next
  assume "\<forall>n. bit b n \<longrightarrow> bit c n"
  then show "ucast b AND NOT (ucast c :: u64) = 0" by (intro bit_word_eqI) (auto simp: bit_simps)
qed

lemma memberTypeContainsTagged_bitset:
  "bit m 0 \<Longrightarrow> memberTypeContainsTagged m v s = Inr (bit m (Suc (utTag v)))"
  by (simp only: memberTypeContainsTagged_def and_1_odd if_True flag_bit) simp

text \<open>The basic types a member type mentions.\<close>

lemma memberBitSet_bit:
  assumes "memberBitSet m s = Inr b" "memberTypeContainsTagged m v s = Inr True"
  shows "bit b (utTag v)"
proof (cases "bit m 0")
  case True
  then show ?thesis
    using assms utTag_less [of v] memberTypeContainsTagged_bitset [of m v s]
    by (auto simp: memberBitSet_def and_1_odd bit_simps)
next
  case False
  then obtain ctp where "complex_type_at m s = Inr ctp" "complexTypeContainsTagged ctp v s = Inr True"
      "b = ct_all ctp OR ct_some ctp"
    using assms by (auto simp: memberBitSet_def memberTypeContainsTagged_def and_1_odd)
  then show ?thesis using complexTypeContainsTagged_bits by (auto simp: bit_or_iff)
qed

lemma memberTypeIsSubtypeSimple_iff:
  "memberTypeIsSubtypeSimple m bitSet s = Inr ok \<longleftrightarrow>
     (\<exists>b. memberBitSet m s = Inr b \<and> ok = (\<forall>n. bit b n \<longrightarrow> bit bitSet n))"
  by (auto simp: memberTypeIsSubtypeSimple_def subset_bits)

lemma memberTypeIsSupertypeSimple_iff:
  "memberTypeIsSupertypeSimple m bitSet s = Inr ok \<longleftrightarrow>
     (\<exists>b. memberBitSet m s = Inr b \<and> ok = (\<forall>n. bit bitSet n \<longrightarrow> bit b n))"
  by (auto simp: memberTypeIsSupertypeSimple_def subset_bits)

lemma memberTypeIsSubtypeSimple_sound:
  assumes "memberTypeIsSubtypeSimple m bitSet s = Inr True" "memberTypeContainsTagged m v s = Inr True"
  shows "bit bitSet (utTag v)"
  using assms memberBitSet_bit by (auto simp: memberTypeIsSubtypeSimple_iff)

lemma bitset_member_type:
  "memberTypeContainsTagged (BITSET_MEMBER_TYPE bs) v s = Inr (bit bs (utTag v))"
  "memberBitSet (BITSET_MEMBER_TYPE bs) s = Inr bs"
proof -
  have b: "bit (BITSET_MEMBER_TYPE bs) n \<longleftrightarrow> n = 0 \<or> (0 < n \<and> bit bs (n - 1))" for n
    using bit_imp_le_length [of bs "n - 1"]
    by (simp only: BITSET_MEMBER_TYPE_def bit_or_iff bit_push_bit_iff bit_1_iff bit_unsigned_iff) auto
  show "memberTypeContainsTagged (BITSET_MEMBER_TYPE bs) v s = Inr (bit bs (utTag v))"
    by (simp add: memberTypeContainsTagged_bitset b)
  have "ucast (drop_bit 1 (BITSET_MEMBER_TYPE bs)) = bs"
    by (rule bit_word_eqI) (simp add: bit_simps b)
  then show "memberBitSet (BITSET_MEMBER_TYPE bs) s = Inr bs" by (simp add: memberBitSet_def and_1_odd b)
qed

section \<open>Exactness of structures\<close>

lemma plus_EXACT_FLAG: "\<not> is_exact p \<Longrightarrow> p + EXACT_FLAG = p OR EXACT_FLAG"
  unfolding is_exact_def by (rule disjunctive_add_eq_or, rule bit_word_eqI) (auto simp: bit_simps)

lemma bal_structure_exactify_result:
  assumes "structure_tid p s = Inr t'"
  shows "bal_structure_exactify p t s = Inr (if \<not> is_exact p \<and> t' = t then p OR EXACT_FLAG else p)"
  using assms by (simp add: bal_structure_exactify_def exact_ptr_eq plus_EXACT_FLAG)

section \<open>Array and map subtypes\<close>

lemma all_subtypes_simple_iff:
  "all_subtypes_simple ms bitSet s = Inr True \<longleftrightarrow> (\<forall>m \<in> set ms. memberTypeIsSubtypeSimple m bitSet s = Inr True)"
  by (induction ms) auto

end
