(* ===== verification/Values_Correct.thy ===== *)
theory Values_Correct
  imports Rt_Samples Rt_Type_Props
begin

text \<open>
  Theorems about tagged values: how integers, floats and pointers are packed into 64 bits and
  read back, and what the exactness operations of \<open>tagged_inline.c\<close> and \<open>structure_inline.c\<close> change.
\<close>

section \<open>Integers\<close>

lemma taggedToInt_heap:
  assumes "heap_addr p" "heap s p = Some (ObjInt n)"
  shows "taggedToInt (ptrAddShiftedTag p (shifted_tag TAG_INT)) s = Inr n"
proof -
  have "\<not> is_immediate (ptrAddFlags p (shifted_tag TAG_INT OR 0))"
    using assms(1) by (intro immediate_ptrAddFlags) simp_all
  moreover have "taggedToPtr (ptrAddFlags p (shifted_tag TAG_INT OR 0)) = p"
    using assms(1) by (intro taggedToPtr_ptrAddFlags) simp_all
  ultimately show ?thesis using assms(2)
    unfolding ptrAddShiftedTag_Flags taggedToInt_def is_immediate_def by simp
qed

lemma utTag_immediate_int: "utTag (IMMEDIATE_INT_TRUNCATE n OR IMMEDIATE_FLAG OR shifted_tag TAG_INT) = TAG_INT"
proof -
  have trunc: "bit (IMMEDIATE_INT_TRUNCATE n) i \<Longrightarrow> i < 56" for i
    using bit_POINTER_MASK [of i] by (simp add: IMMEDIATE_INT_TRUNCATE_def POINTER_MASK_def bit_and_iff)
  have "bit (utTag (IMMEDIATE_INT_TRUNCATE n OR IMMEDIATE_FLAG OR shifted_tag TAG_INT)) i \<longleftrightarrow> i = 1" for i
    using trunc [of "i + 56"] by (auto simp: utTag_bit bit_or_iff bit_shifted_tag bit_2_iff)
  then show ?thesis by (intro bit_eqI) (simp add: bit_2_iff)
qed

text \<open>
  C22: An integer converted by \<open>intToTagged\<close> is read back by \<open>taggedToInt\<close> unchanged, whether it fits
  the 56-bit immediate form or needs a heap cell; the result carries the universal tag of \<open>int\<close>,
  no existing object changes, and the conversion can only fail because memory is exhausted.
\<close>

theorem int_tagged_roundtrip:
  assumes "wf_rt s"
  shows "case intToTagged n s of
      Inl e \<Rightarrow> e = OutOfMemory \<and> (n < - (2 ^ 55) \<or> 2 ^ 55 \<le> n)
    | Inr (p, s1) \<Rightarrow> taggedToInt p s1 = Inr n \<and> utTag p = TAG_INT \<and> wf_rt s1 \<and> heap s \<subseteq>\<^sub>m heap s1"
proof (cases "n \<ge> IMMEDIATE_INT_MIN \<and> n \<le> IMMEDIATE_INT_MAX")
  case True
  let ?p = "IMMEDIATE_INT_TRUNCATE n OR IMMEDIATE_FLAG OR shifted_tag TAG_INT"
  have "intToTagged n s = Inr (?p, s)" using True by (simp add: intToTagged_def)
  moreover have "utTag ?p = TAG_INT" by (rule utTag_immediate_int)
  moreover have "taggedToInt ?p s = Inr n"
    using immediate_int_roundtrip True immediate_int_flag [of n TAG_INT] unfolding taggedToInt_def is_immediate_def by simp
  ultimately show ?thesis using assms by simp
next
  case False
  have big: "n < - (2 ^ 55) \<or> 2 ^ 55 \<le> n" using False by (auto simp: IMMEDIATE_INT_MIN_def IMMEDIATE_INT_MAX_def)
  show ?thesis
  proof (cases "alloc_obj 8 (ObjInt n) s")
    case (Inl e)
    then have "intToTagged n s = Inl e" using False by (auto simp: intToTagged_def)
    then show ?thesis using alloc_obj_fault [OF Inl] big by simp
  next
    case (Inr r)
    obtain p s1 where r: "r = (p, s1)" by (cases r)
    note ok = alloc_obj_ok [OF assms Inr [unfolded r]]
    have "getTag (ptrAddFlags p (shifted_tag TAG_INT OR 0)) = TAG_INT"
      using ok(2) by (intro getTag_ptrAddFlags) simp_all
    then have "utTag (ptrAddShiftedTag p (shifted_tag TAG_INT)) = TAG_INT"
      unfolding ptrAddShiftedTag_Flags utTag_def by (simp add: UT_MASK_def)
    moreover have "heap s \<subseteq>\<^sub>m heap s1" using ok(3,4) by (auto simp: map_le_def)
    moreover have "intToTagged n s = Inr (ptrAddShiftedTag p (shifted_tag TAG_INT), s1)"
      using False Inr r by (auto simp: intToTagged_def)
    ultimately show ?thesis using taggedToInt_heap [OF ok(2), of s1 n] ok by simp
  qed
qed

theorem int_tagged_roundtrip_witness:
  "wf_rt sample_rt \<and> (case intToTagged (2 ^ 60) sample_rt of
      Inl e \<Rightarrow> False
    | Inr (p, s1) \<Rightarrow> taggedToInt p s1 = Inr (2 ^ 60) \<and> utTag p = TAG_INT)"
proof -
  have "pool sample_rt = 0x1000 # [0x2000, 0x3000, 0x4000, 0x5000, 0x6000, 0x7000, 0x8000]" by (simp add: sample_pool)
  then have "\<exists>r. intToTagged (2 ^ 60) sample_rt = Inr r"
    using alloc_obj_succeeds by (auto simp: intToTagged_def IMMEDIATE_INT_MAX_def)
  then show ?thesis using int_tagged_roundtrip [OF sample_wf, of "2 ^ 60"] sample_wf by (auto split: sum.splits)
qed

section \<open>Tagged pointers\<close>

text \<open>
  A tagged pointer keeps its parts apart: the pointer, the tag and the exact flag that
  \<open>ptrAddFlags\<close> packs into one word are what \<open>taggedToPtr\<close>, \<open>getTag\<close> and \<open>taggedToPtrExact\<close> read back,
  and \<open>_bal_ptr_add_shifted_tag\<close>, which adds instead of or-ing, builds the same word.
\<close>

lemma tagged_ptr_roundtrip:
  assumes "heap_addr p" "t < 256"
  shows "taggedToPtr (ptrAddFlags p (shifted_tag t OR EXACT_FLAG)) = p \<and>
    taggedToPtrExact (ptrAddFlags p (shifted_tag t OR EXACT_FLAG)) = p OR EXACT_FLAG \<and>
    getTag (ptrAddFlags p (shifted_tag t OR EXACT_FLAG)) = t \<and>
    bal_ptr_add_shifted_tag p (shifted_tag t) = ptrAddShiftedTag p (shifted_tag t)"
proof (intro conjI)
  have low: "EXACT_FLAG < 8" by (simp add: EXACT_FLAG_def)
  show "taggedToPtr (ptrAddFlags p (shifted_tag t OR EXACT_FLAG)) = p"
    using assms(1) low by (rule taggedToPtr_ptrAddFlags)
  show "getTag (ptrAddFlags p (shifted_tag t OR EXACT_FLAG)) = t"
    using assms(1) low assms(2) by (rule getTag_ptrAddFlags)
  show "taggedToPtrExact (ptrAddFlags p (shifted_tag t OR EXACT_FLAG)) = p OR EXACT_FLAG"
    by (rule bit_word_eqI) (use heap_addr_bit [OF assms(1)] in \<open>fastforce simp: ptrAddFlags_def bit_or_iff bit_shifted_tag\<close>)
  have "p AND shifted_tag t = 0"
    by (rule bit_word_eqI) (use heap_addr_bit [OF assms(1)] in \<open>fastforce simp: bit_and_iff bit_shifted_tag\<close>)
  then show "bal_ptr_add_shifted_tag p (shifted_tag t) = ptrAddShiftedTag p (shifted_tag t)"
    by (simp add: bal_ptr_add_shifted_tag_def ptrAddShiftedTag_def disjunctive_add_eq_or)
qed

section \<open>Exactness\<close>

text \<open>
  Reading a member out of a structure keeps the member's exact flag only when the structure is
  exact: \<open>_bal_tagged_member_clear_exact_any\<close> changes nothing when the structure is exact or the
  member is an immediate value, where the same bit belongs to the value, and otherwise clears
  the flag and nothing else, as \<open>_bal_tagged_clear_exact_any\<close> does.
\<close>

lemma member_clear_exact_spec:
  "bal_tagged_member_clear_exact_any structure member =
     (if is_exact structure then member else bal_tagged_clear_exact_any member) \<and>
   bal_tagged_clear_exact_any member = (if is_immediate member then member else member AND NOT EXACT_FLAG)"
proof (intro conjI)
  show "bal_tagged_member_clear_exact_any structure member =
      (if is_exact structure then member else bal_tagged_clear_exact_any member)"
    by (rule bit_word_eqI) (auto simp: clear_exact_bits)
  show "bal_tagged_clear_exact_any member = (if is_immediate member then member else member AND NOT EXACT_FLAG)"
    by (rule bit_word_eqI) (auto simp: clear_exact_bits bit_and_iff bit_not_iff)
qed

text \<open>
  \<open>_bal_structure_exactify\<close> sets the exact flag of a structure precisely when the structure's own
  type is the given one, is idempotent, and never changes what the value points to.
\<close>

lemma exactify_correct:
  assumes "structure_tid p s = Inr t'"
  shows "\<exists>q. bal_structure_exactify p t s = Inr q \<and> taggedToPtr q = taggedToPtr p \<and>
      (is_exact q \<longleftrightarrow> is_exact p \<or> t' = t) \<and> bal_structure_exactify q t s = Inr q"
proof -
  have q: "taggedToPtr (p OR EXACT_FLAG) = taggedToPtr p" "is_exact (p OR EXACT_FLAG)"
    by (rule bit_word_eqI) (auto simp: bit_or_iff is_exact_def)
  then have "structure_tid (p OR EXACT_FLAG) s = Inr t'" using assms by (simp add: structure_tid_def)
  then show ?thesis using bal_structure_exactify_result [OF assms, of t] q
      bal_structure_exactify_result [of "p OR EXACT_FLAG" s t' t] by auto
qed

end
