(* ===== verification/Strings_Correct.thy ===== *)
theory Strings_Correct
  imports Rt_Samples
begin

text \<open>
  Theorems about strings. A string value denotes the UTF-8 byte sequence that \<open>str_rep\<close> relates to
  it; every operation of \<open>string.c\<close> is specified on byte sequences, whichever of the three
  representations (immediate, medium, large) its arguments have.
\<close>

section \<open>Sample strings\<close>

text \<open>"ab" is immediate, "a string" has 8 bytes and is a medium string in the heap.\<close>

definition ab :: "byte list" where "ab = [0x61, 0x62]"
definition a_string :: "byte list" where "a_string = [0x61, 0x20, 0x73, 0x74, 0x72, 0x69, 0x6E, 0x67]"

definition sample_string_rt :: rt where
  "sample_string_rt = store 0x1000 (ObjString (medium_words a_string)) (sample_rt\<lparr>pool := tl (pool sample_rt)\<rparr>)"

definition sample_string :: tagged where
  "sample_string = ptrAddFlags 0x1000 (shifted_tag TAG_STRING)"

lemma sample_utf8: "utf8 ab" "utf8 a_string" "immediate_rep ab" "\<not> immediate_rep a_string"
  by code_simp+

lemma sample_string_wf: "wf_rt sample_string_rt" "heap_addr 0x1000"
  using store_fresh_wf(1) [OF sample_wf, of "0x1000" _ "ObjString (medium_words a_string)"]
    store_fresh_wf(2) [OF sample_wf, of "0x1000"]
  by (simp_all add: sample_string_rt_def sample_pool)

lemma sample_string_rep: "str_rep sample_string_rt sample_string a_string"
  using sample_utf8 sample_string_wf(2)
  by (auto simp: str_rep_def sample_string_def sample_string_rt_def a_string_def)

lemma sample_ab_rep: "str_rep s (immediate_bits ab) ab"
  using sample_utf8 by (intro str_rep_immediateI)

lemma sample_content: "lex_cmp ab a_string = 1" "ab \<noteq> a_string" "code_points a_string = 8" "length a_string = 8" "length ab = 2"
  by code_simp+

section \<open>Construction\<close>

text \<open>
  C14: Allocating a string with \<open>_bal_string_alloc\<close> and copying the bytes of a UTF-8 sequence into the
  returned buffer yields a value that denotes this sequence, in the representation its length
  and number of code points call for, with zero padding whatever the memory held; nothing
  already in the heap changes, and only exhausted memory can stop it.
\<close>

theorem string_construction:
  assumes "wf_rt s" "utf8 bs" "length bs < 2 ^ 62"
  shows "case bindR (bal_string_alloc (int (length bs)) (int (code_points bs)) s) (\<lambda>(tp, s1). string_memcpy 0 bs tp s1) of
      Inl e \<Rightarrow> e = OutOfMemory \<and> (pool s = [] \<or> hd (pool s) = 0)
    | Inr (tp, s1) \<Rightarrow> str_rep s1 tp bs \<and> wf_rt s1 \<and> heap s \<subseteq>\<^sub>m heap s1"
  using make_string_rep [OF assms] unfolding make_string_def by (auto split: sum.splits prod.splits)

theorem string_construction_witness:
  "wf_rt sample_rt \<and> (\<exists>tp s1. bindR (bal_string_alloc 8 8 sample_rt) (\<lambda>(tp, s1). string_memcpy 0 a_string tp s1) = Inr (tp, s1) \<and>
     str_rep s1 tp a_string)"
proof -
  have len: "length a_string < 2 ^ 62" "int (length a_string) = 8" "int (code_points a_string) = 8"
    by (simp_all add: sample_content)
  note c = string_construction [OF sample_wf sample_utf8(2) len(1), unfolded len(2,3)]
  show ?thesis
  proof (cases "bindR (bal_string_alloc 8 8 sample_rt) (\<lambda>(tp, s1). string_memcpy 0 a_string tp s1)")
    case (Inl e)
    with c show ?thesis by (simp add: sample_pool)
  next
    case (Inr r)
    then show ?thesis using c sample_wf by (cases r) auto
  qed
qed

text \<open>
  C6: Concatenation denotes the concatenated byte sequences, for every combination of the
  representations of its operands and of the result; the operands keep their denotation, and only
  exhausted memory can stop it.
\<close>

theorem string_concat_correct:
  assumes "wf_rt s" "str_rep s tp1 as" "str_rep s tp2 bs" "length as + length bs < 2 ^ 62"
  shows "case bal_string_concat tp1 tp2 s of
      Inl e \<Rightarrow> e = OutOfMemory \<and> (pool s = [] \<or> hd (pool s) = 0)
    | Inr (tp, s1) \<Rightarrow> str_rep s1 tp (as @ bs) \<and> str_rep s1 tp1 as \<and> str_rep s1 tp2 bs \<and> wf_rt s1"
  using bal_string_concat_rep [OF assms] str_rep_mono [OF assms(2)] str_rep_mono [OF assms(3)]
  by (auto split: sum.splits prod.splits)

theorem string_concat_correct_witness:
  "\<exists>tp s1. bal_string_concat (immediate_bits ab) sample_string sample_string_rt = Inr (tp, s1) \<and> str_rep s1 tp (ab @ a_string)"
proof -
  have "length ab + length a_string < 2 ^ 62" by (simp add: sample_content)
  note c = string_concat_correct [OF sample_string_wf(1) sample_ab_rep sample_string_rep this]
  have "pool sample_string_rt = [0x2000, 0x3000, 0x4000, 0x5000, 0x6000, 0x7000, 0x8000]"
    by (simp add: sample_string_rt_def sample_pool)
  with c show ?thesis by (auto split: sum.splits prod.splits)
qed

section \<open>Observation\<close>

text \<open>
  C30: What a program observes of a string is what its byte sequence has: \<open>string:length\<close> counts code points, the byte
  length is the length of the sequence, \<open>taggedStringIsChar\<close> holds exactly of one code point, and equality
  decides equality of the sequences, whatever the two representations.
\<close>

theorem string_observers_correct:
  assumes "str_rep s tp1 as" "str_rep s tp2 bs"
  shows "bal_lang_string_length tp1 s = Inr (int (code_points as)) \<and>
    bindR (taggedStringLength tp1 s) (\<lambda>len. Inr (nBytes len)) = Inr (int (length as)) \<and>
    (taggedStringIsChar tp1 \<longleftrightarrow> code_points as = 1) \<and>
    taggedStringEqual tp1 tp2 s = Inr (as = bs)"
  using taggedStringLength_rep [OF assms(1)] taggedStringIsChar_rep [OF assms(1)] taggedStringEqual_rep [OF assms]
  by (simp add: bal_lang_string_length_def)

theorem string_observers_correct_witness:
  "bal_lang_string_length sample_string sample_string_rt = Inr 8 \<and>
   taggedStringEqual sample_string (immediate_bits ab) sample_string_rt = Inr False"
  using string_observers_correct [OF sample_string_rep sample_ab_rep] sample_content by simp

text \<open>
  C5: \<open>_bal_string_cmp\<close>, which works eight bytes at a time on byte-swapped words, on immediate bits or
  with \<open>memcmp\<close> depending on the representations, has the sign of the lexicographic comparison of
  the byte sequences.
\<close>

theorem string_cmp_lexicographic:
  assumes "str_rep s tp1 as" "str_rep s tp2 bs"
  shows "\<exists>c. bal_string_cmp tp1 tp2 s = Inr c \<and> sgn c = lex_cmp as bs"
  using assms by (rule bal_string_cmp_rep)

theorem string_cmp_lexicographic_witness:
  "\<exists>c. bal_string_cmp (immediate_bits ab) sample_string sample_string_rt = Inr c \<and> sgn c = 1"
  using string_cmp_lexicographic [OF sample_ab_rep sample_string_rep] by (simp add: sample_content)

text \<open>
  C17: The hash of a string depends only on the bytes it denotes: it is the fold of \<open>hashUpdate\<close> over
  the 8-byte chunks of the content (rotated by four bytes for a medium string), so equal strings
  have equal hashes, wherever they are stored.
\<close>

theorem string_hash_content:
  assumes "str_rep s tp bs"
  shows "bal_string_hash tp s = Inr (hashFinish (hash_content (hashInit s) bs) s) \<and>
    (\<forall>tp'. str_rep s tp' bs \<longrightarrow> bal_string_hash tp' s = bal_string_hash tp s)"
  using bal_string_hash_rep [OF assms] bal_string_hash_rep by simp

theorem string_hash_content_witness:
  "bal_string_hash sample_string sample_string_rt = Inr (hashFinish (hash_content (hashInit sample_string_rt) a_string) sample_string_rt)"
  using string_hash_content [OF sample_string_rep] by blast

end
