(* ===== verification/Rt_Compare.thy ===== *)
theory Rt_Compare
  imports Rt_Lists
begin

text \<open>
  Comparison and equality of values: the compare functions of \<open>balrt.h\<close> and \<open>list.c\<close>, the equality of
  \<open>balrt.h\<close>, \<open>eq_inline.c\<close>, \<open>list.c\<close> and \<open>mapping.c\<close>, the float equalities of \<open>float_ll_inline.ll\<close>, and the
  wrappers of the \<open>*_inline.c\<close> files.

  Reading a member of a primitive list boxes it, so these functions thread the state although
  the source declares them \<open>READONLY\<close>; where C leaves the order of two reads open, the left one
  comes first. The recursion through members has a depth bound (\<open>TooDeep\<close>): comparison of a cyclic
  list does not end, equality keeps a stack of the pairs it is comparing.
\<close>

section \<open>Compare results\<close>

definition COMPARE_UN :: int where "COMPARE_UN = - 1"
definition COMPARE_LT :: int where "COMPARE_LT = 0"
definition COMPARE_EQ :: int where "COMPARE_EQ = 1"
definition COMPARE_GT :: int where "COMPARE_GT = 2"

lemmas compare_codes = COMPARE_UN_def COMPARE_LT_def COMPARE_EQ_def COMPARE_GT_def

section \<open>Comparing simple values\<close>

definition optDoCompare :: "tagged \<Rightarrow> tagged \<Rightarrow> (tagged \<Rightarrow> tagged \<Rightarrow> rt \<Rightarrow> fault + int) \<Rightarrow> rt \<Rightarrow> fault + int" where
  "optDoCompare tp1 tp2 compare s =
     (if tp1 = NIL then (if tp2 = NIL then Inr COMPARE_EQ else Inr COMPARE_UN)
      else if tp2 = NIL then Inr COMPARE_UN
      else compare tp1 tp2 s)"

definition intCompare :: "int \<Rightarrow> int \<Rightarrow> int" where
  "intCompare n1 n2 = (if n1 = n2 then COMPARE_EQ else if n1 < n2 then COMPARE_LT else COMPARE_GT)"

definition taggedIntCompare :: "tagged \<Rightarrow> tagged \<Rightarrow> rt \<Rightarrow> fault + int" where
  "taggedIntCompare tp1 tp2 s =
     bindR (taggedToInt tp1 s) (\<lambda>n1. bindR (taggedToInt tp2 s) (\<lambda>n2. Inr (intCompare n1 n2)))"

definition optIntCompare :: "tagged \<Rightarrow> tagged \<Rightarrow> rt \<Rightarrow> fault + int" where
  "optIntCompare tp1 tp2 s = optDoCompare tp1 tp2 taggedIntCompare s"

definition floatCompare :: "u64 \<Rightarrow> u64 \<Rightarrow> int" where
  "floatCompare v1 v2 =
     (if dbl_eq v1 v2 then COMPARE_EQ
      else if dbl_lt v1 v2 then COMPARE_LT
      else if dbl_lt v2 v1 then COMPARE_GT
      else COMPARE_UN)"

definition taggedFloatCompare :: "tagged \<Rightarrow> tagged \<Rightarrow> rt \<Rightarrow> fault + int" where
  "taggedFloatCompare tp1 tp2 s =
     bindR (taggedToFloat tp1 s) (\<lambda>v1. bindR (taggedToFloat tp2 s) (\<lambda>v2. Inr (floatCompare v1 v2)))"

definition optFloatCompare :: "tagged \<Rightarrow> tagged \<Rightarrow> rt \<Rightarrow> fault + int" where
  "optFloatCompare tp1 tp2 s = optDoCompare tp1 tp2 taggedFloatCompare s"

definition taggedBooleanCompare :: "tagged \<Rightarrow> tagged \<Rightarrow> rt \<Rightarrow> fault + int" where
  "taggedBooleanCompare tp1 tp2 s =
     Inr (if tp1 = tp2 then COMPARE_EQ
          else if taggedToBoolean tp1 < taggedToBoolean tp2 then COMPARE_LT else COMPARE_GT)"

definition optBooleanCompare :: "tagged \<Rightarrow> tagged \<Rightarrow> rt \<Rightarrow> fault + int" where
  "optBooleanCompare tp1 tp2 s = optDoCompare tp1 tp2 taggedBooleanCompare s"

definition optStringCompare :: "tagged \<Rightarrow> tagged \<Rightarrow> rt \<Rightarrow> fault + int" where
  "optStringCompare tp1 tp2 s =
     (if tp1 = NIL then (if tp2 = NIL then Inr COMPARE_EQ else Inr COMPARE_UN)
      else if tp2 = NIL then Inr COMPARE_UN
      else bindR (bal_string_cmp tp1 tp2 s) (\<lambda>c. Inr (intCompare c 0)))"

definition bal_decimal_cmp :: "tagged \<Rightarrow> tagged \<Rightarrow> rt \<Rightarrow> fault + int" where
  "bal_decimal_cmp tp1 tp2 s =
     bindR (taggedToDecQuad tp1 s) (\<lambda>d1. bindR (taggedToDecQuad tp2 s) (\<lambda>d2.
       let cls = decQuadCompareClass (img s) d1 d2
       in Inr (if cls = DEC_CLASS_POS_ZERO then 0 else if cls = DEC_CLASS_POS_NORMAL then 1 else - 1)))"

definition optDecimalCompare :: "tagged \<Rightarrow> tagged \<Rightarrow> rt \<Rightarrow> fault + int" where
  "optDecimalCompare tp1 tp2 s =
     (if tp1 = NIL then (if tp2 = NIL then Inr COMPARE_EQ else Inr COMPARE_UN)
      else if tp2 = NIL then Inr COMPARE_UN
      else bindR (bal_decimal_cmp tp1 tp2 s) (\<lambda>c. Inr (intCompare c 0)))"

section \<open>Comparing lists\<close>

text \<open>A comparison that reads only, as one that may allocate.\<close>

definition lift_compare :: "(tagged \<Rightarrow> tagged \<Rightarrow> rt \<Rightarrow> fault + int) \<Rightarrow> tagged \<Rightarrow> tagged \<Rightarrow> rt \<Rightarrow> fault + int \<times> rt" where
  "lift_compare compare tp1 tp2 s = bindR (compare tp1 tp2 s) (\<lambda>c. Inr (c, s))"

text \<open>The loop of \<open>optListDoCompare\<close> from member \<open>i\<close> on, \<open>n\<close> members to go.\<close>

fun list_compare_loop ::
  "(tagged \<Rightarrow> tagged \<Rightarrow> rt \<Rightarrow> fault + int \<times> rt) \<Rightarrow> tagged \<Rightarrow> tagged \<Rightarrow> nat \<Rightarrow> int \<Rightarrow> rt \<Rightarrow> fault + int \<times> rt" where
  "list_compare_loop compare tp1 tp2 0 i s = Inr (COMPARE_EQ, s)"
| "list_compare_loop compare tp1 tp2 (Suc n) i s =
     bindR (list_get tp1 i s) (\<lambda>(v1, s1).
     bindR (list_get tp2 i s1) (\<lambda>(v2, s2).
     bindR (compare v1 v2 s2) (\<lambda>(result, s3).
       if result \<noteq> COMPARE_EQ then Inr (result, s3)
       else list_compare_loop compare tp1 tp2 n (i + 1) s3)))"

definition optListDoCompare ::
  "tagged \<Rightarrow> tagged \<Rightarrow> (tagged \<Rightarrow> tagged \<Rightarrow> rt \<Rightarrow> fault + int \<times> rt) \<Rightarrow> rt \<Rightarrow> fault + int \<times> rt" where
  "optListDoCompare tp1 tp2 compare s =
     (if tp1 = tp2 then Inr (COMPARE_EQ, s)
      else if tp1 = NIL \<or> tp2 = NIL then Inr (COMPARE_UN, s)
      else bindR (list_at tp1 s) (\<lambda>lp1.
           bindR (list_at tp2 s) (\<lambda>lp2.
           let len1 = array_length (lo_array lp1);
               len2 = array_length (lo_array lp2);
               len = (if len1 \<le> len2 then len1 else len2)
           in bindR (list_compare_loop compare tp1 tp2 (nat len) 0 s) (\<lambda>(result, s1).
                if result \<noteq> COMPARE_EQ then Inr (result, s1) else Inr (intCompare len1 len2, s1)))))"

primrec taggedPtrCompare :: "nat \<Rightarrow> tagged \<Rightarrow> tagged \<Rightarrow> rt \<Rightarrow> fault + int \<times> rt" where
  "taggedPtrCompare 0 = (\<lambda>tp1 tp2 s. Inl TooDeep)"
| "taggedPtrCompare (Suc d) = (\<lambda>tp1 tp2 s.
     let tag1 = utTag tp1; tag2 = utTag tp2
     in if tag1 \<noteq> tag2 then Inr (COMPARE_UN, s)
        else if tag1 = TAG_INT then lift_compare taggedIntCompare tp1 tp2 s
        else if tag1 = TAG_BOOLEAN then lift_compare taggedBooleanCompare tp1 tp2 s
        else if tag1 = TAG_FLOAT then lift_compare taggedFloatCompare tp1 tp2 s
        else if tag1 = TAG_DECIMAL then bindR (bal_decimal_cmp tp1 tp2 s) (\<lambda>c. Inr (intCompare c 0, s))
        else if tag1 = TAG_STRING then bindR (bal_string_cmp tp1 tp2 s) (\<lambda>c. Inr (intCompare c 0, s))
        else if tag1 = TAG_LIST then optListDoCompare tp1 tp2 (taggedPtrCompare d) s
        else Inr (COMPARE_EQ, s))"

definition bal_opt_list_compare :: "nat \<Rightarrow> tagged \<Rightarrow> tagged \<Rightarrow> rt \<Rightarrow> fault + int \<times> rt" where
  "bal_opt_list_compare d tp1 tp2 s = optListDoCompare tp1 tp2 (taggedPtrCompare d) s"

definition bal_array_int_compare :: "tagged \<Rightarrow> tagged \<Rightarrow> rt \<Rightarrow> fault + int \<times> rt" where
  "bal_array_int_compare tp1 tp2 s = optListDoCompare tp1 tp2 (lift_compare optIntCompare) s"

definition bal_array_float_compare :: "tagged \<Rightarrow> tagged \<Rightarrow> rt \<Rightarrow> fault + int \<times> rt" where
  "bal_array_float_compare tp1 tp2 s = optListDoCompare tp1 tp2 (lift_compare optFloatCompare) s"

definition bal_array_string_compare :: "tagged \<Rightarrow> tagged \<Rightarrow> rt \<Rightarrow> fault + int \<times> rt" where
  "bal_array_string_compare tp1 tp2 s = optListDoCompare tp1 tp2 (lift_compare optStringCompare) s"

definition bal_array_boolean_compare :: "tagged \<Rightarrow> tagged \<Rightarrow> rt \<Rightarrow> fault + int \<times> rt" where
  "bal_array_boolean_compare tp1 tp2 s = optListDoCompare tp1 tp2 (lift_compare optBooleanCompare) s"

definition bal_array_decimal_compare :: "tagged \<Rightarrow> tagged \<Rightarrow> rt \<Rightarrow> fault + int \<times> rt" where
  "bal_array_decimal_compare tp1 tp2 s = optListDoCompare tp1 tp2 (lift_compare optDecimalCompare) s"

definition bal_array_list_compare :: "nat \<Rightarrow> tagged \<Rightarrow> tagged \<Rightarrow> rt \<Rightarrow> fault + int \<times> rt" where
  "bal_array_list_compare d tp1 tp2 s = optListDoCompare tp1 tp2 (bal_opt_list_compare d) s"

text \<open>The loop of \<open>_bal_array_exact_int_compare\<close> over the unboxed members.\<close>

fun int_compare_loop :: "int c_array \<Rightarrow> int c_array \<Rightarrow> nat \<Rightarrow> int \<Rightarrow> fault + int" where
  "int_compare_loop arr1 arr2 0 i = Inr COMPARE_EQ"
| "int_compare_loop arr1 arr2 (Suc n) i =
     bindR (block_get (arr_members arr1) i) (\<lambda>n1.
     bindR (block_get (arr_members arr2) i) (\<lambda>n2.
       if n1 > n2 then Inr COMPARE_GT
       else if n1 < n2 then Inr COMPARE_LT
       else int_compare_loop arr1 arr2 n (i + 1)))"

definition bal_array_exact_int_compare :: "tagged \<Rightarrow> tagged \<Rightarrow> rt \<Rightarrow> fault + int" where
  "bal_array_exact_int_compare tp1 tp2 s =
     (if tp1 = tp2 then Inr COMPARE_EQ
      else bindR (bindR (list_at tp1 s) iArray) (\<lambda>arr1.
           bindR (bindR (list_at tp2 s) iArray) (\<lambda>arr2.
           let len1 = arr_length arr1; len2 = arr_length arr2;
               len = (if len1 \<le> len2 then len1 else len2)
           in bindR (int_compare_loop arr1 arr2 (nat len) 0) (\<lambda>result.
                if result \<noteq> COMPARE_EQ then Inr result else Inr (intCompare len1 len2)))))"

section \<open>Equality of floats (float\_ll\_inline.ll)\<close>

definition bal_float_eq :: "u64 \<Rightarrow> u64 \<Rightarrow> bool" where
  "bal_float_eq a b \<longleftrightarrow> dbl_eq a b \<or> (dbl_isnan a \<and> dbl_isnan b)"

definition bal_float_exact_eq :: "u64 \<Rightarrow> u64 \<Rightarrow> bool" where
  "bal_float_exact_eq a b \<longleftrightarrow> (dbl_isnan a \<and> dbl_isnan b) \<or> a = b"

section \<open>Equality of values\<close>

text \<open>\<open>*(IntPtr)taggedToPtr(tp)\<close>, without the test for an immediate value.\<close>

definition int_at :: "tagged \<Rightarrow> rt \<Rightarrow> fault + int" where
  "int_at tp s = (case heap s (taggedToPtr tp) of Some (ObjInt n) \<Rightarrow> Inr n | _ \<Rightarrow> Inl BadPointer)"

type_synonym eq_stack = "(tagged \<times> tagged) list"

text \<open>
  \<open>eq\<close> compares two members with the stack of the caller. The loop of \<open>_bal_list_eq_internal\<close> from
  member \<open>i\<close> on, \<open>n\<close> members to go.
\<close>

fun list_eq_loop ::
  "(tagged \<Rightarrow> tagged \<Rightarrow> rt \<Rightarrow> fault + bool \<times> rt) \<Rightarrow> tagged \<Rightarrow> tagged \<Rightarrow> nat \<Rightarrow> int \<Rightarrow> rt \<Rightarrow> fault + bool \<times> rt" where
  "list_eq_loop eq p1 p2 0 i s = Inr (True, s)"
| "list_eq_loop eq p1 p2 (Suc n) i s =
     bindR (list_get p1 i s) (\<lambda>(v1, s1).
     bindR (list_get p2 i s1) (\<lambda>(v2, s2).
     bindR (eq v1 v2 s2) (\<lambda>(b, s3).
       if \<not> b then Inr (False, s3) else list_eq_loop eq p1 p2 n (i + 1) s3)))"

definition bal_list_eq_internal ::
  "(tagged \<Rightarrow> tagged \<Rightarrow> rt \<Rightarrow> fault + bool \<times> rt) \<Rightarrow> tagged \<Rightarrow> tagged \<Rightarrow> rt \<Rightarrow> fault + bool \<times> rt" where
  "bal_list_eq_internal eq p1 p2 s =
     bindR (list_at p1 s) (\<lambda>lp1.
     bindR (list_at p2 s) (\<lambda>lp2.
     let len = array_length (lo_array lp1)
     in if array_length (lo_array lp2) \<noteq> len then Inr (False, s)
        else list_eq_loop eq p1 p2 (nat len) 0 s))"

text \<open>The loop of \<open>_bal_mapping_eq_internal\<close> from field \<open>i\<close> on, \<open>n\<close> fields to go.\<close>

fun mapping_eq_loop ::
  "(tagged \<Rightarrow> tagged \<Rightarrow> rt \<Rightarrow> fault + bool \<times> rt) \<Rightarrow> mapping_obj \<Rightarrow> mapping_obj \<Rightarrow> nat \<Rightarrow> int \<Rightarrow> rt \<Rightarrow> fault + bool \<times> rt" where
  "mapping_eq_loop eq mp1 mp2 0 i s = Inr (True, s)"
| "mapping_eq_loop eq mp1 mp2 (Suc n) i s =
     bindR (block_get (arr_members (mo_fArray mp1)) i) (\<lambda>f.
     bindR (bal_string_hash (mf_key f) s) (\<lambda>h.
     bindR (lookup mp2 (mf_key f) h s) (\<lambda>j.
       if j < 0 then Inr (False, s)
       else bindR (block_get (arr_members (mo_fArray mp2)) j) (\<lambda>g.
            bindR (eq (mf_value f) (mf_value g) s) (\<lambda>(b, s1).
              if \<not> b then Inr (False, s1) else mapping_eq_loop eq mp1 mp2 n (i + 1) s1)))))"

definition bal_mapping_eq_internal ::
  "(tagged \<Rightarrow> tagged \<Rightarrow> rt \<Rightarrow> fault + bool \<times> rt) \<Rightarrow> tagged \<Rightarrow> tagged \<Rightarrow> rt \<Rightarrow> fault + bool \<times> rt" where
  "bal_mapping_eq_internal eq p1 p2 s =
     bindR (mapping_at p1 s) (\<lambda>mp1.
     bindR (mapping_at p2 s) (\<lambda>mp2.
     let len = arr_length (mo_fArray mp1)
     in if arr_length (mo_fArray mp2) \<noteq> len then Inr (False, s)
        else mapping_eq_loop eq mp1 mp2 (nat len) 0 s))"

primrec taggedPtrEq :: "nat \<Rightarrow> tagged \<Rightarrow> tagged \<Rightarrow> eq_stack \<Rightarrow> rt \<Rightarrow> fault + bool \<times> rt" where
  "taggedPtrEq 0 = (\<lambda>tp1 tp2 stack s. Inl TooDeep)"
| "taggedPtrEq (Suc d) = (\<lambda>tp1 tp2 stack s.
     if tp1 = tp2 then Inr (True, s)
     else let tag1 = getTag tp1; tag2 = getTag tp2
     in if tag1 \<noteq> tag2 then Inr (False, s)
        else if tag1 = TAG_STRING then bindR (taggedStringEqual tp1 tp2 s) (\<lambda>b. Inr (b, s))
        else if tag1 = TAG_INT then bindR (int_at tp1 s) (\<lambda>n1. bindR (int_at tp2 s) (\<lambda>n2. Inr (n1 = n2, s)))
        else if tag1 = TAG_FLOAT
        then bindR (taggedToFloat tp1 s) (\<lambda>d1. bindR (taggedToFloat tp2 s) (\<lambda>d2. Inr (bal_float_eq d1 d2, s)))
        else if tag1 = TAG_DECIMAL then bindR (bal_decimal_cmp tp1 tp2 s) (\<lambda>c. Inr (c = 0, s))
        else if tag1 = TAG_LIST \<or> tag1 = TAG_MAPPING
        then (if (tp1, tp2) \<in> set stack then Inr (True, s)
              else let eq = (\<lambda>v1 v2. taggedPtrEq d v1 v2 ((tp1, tp2) # stack))
                   in if tag1 = TAG_LIST then bal_list_eq_internal eq tp1 tp2 s
                      else bal_mapping_eq_internal eq tp1 tp2 s)
        else Inr (False, s))"

definition bal_eq :: "nat \<Rightarrow> tagged \<Rightarrow> tagged \<Rightarrow> rt \<Rightarrow> fault + bool \<times> rt" where
  "bal_eq d tp1 tp2 s = taggedPtrEq d tp1 tp2 [] s"

definition bal_list_eq :: "nat \<Rightarrow> tagged \<Rightarrow> tagged \<Rightarrow> rt \<Rightarrow> fault + bool \<times> rt" where
  "bal_list_eq d p1 p2 s = bal_list_eq_internal (\<lambda>v1 v2. taggedPtrEq d v1 v2 []) p1 p2 s"

definition bal_mapping_eq :: "nat \<Rightarrow> tagged \<Rightarrow> tagged \<Rightarrow> rt \<Rightarrow> fault + bool \<times> rt" where
  "bal_mapping_eq d p1 p2 s = bal_mapping_eq_internal (\<lambda>v1 v2. taggedPtrEq d v1 v2 []) p1 p2 s"

text \<open>\<open>canonical\<close> is \<open>decQuadCanonical\<close> of the decimal library.\<close>

definition bal_decimal_exact_eq :: "(decQuad \<Rightarrow> decQuad) \<Rightarrow> tagged \<Rightarrow> tagged \<Rightarrow> rt \<Rightarrow> fault + bool" where
  "bal_decimal_exact_eq canonical tp1 tp2 s =
     bindR (taggedToDecQuad tp1 s) (\<lambda>d1. bindR (taggedToDecQuad tp2 s) (\<lambda>d2. Inr (canonical d1 = canonical d2)))"

definition bal_exact_eq :: "(decQuad \<Rightarrow> decQuad) \<Rightarrow> tagged \<Rightarrow> tagged \<Rightarrow> rt \<Rightarrow> fault + bool" where
  "bal_exact_eq canonical tp1 tp2 s =
     (if tp1 = tp2 then Inr True
      else let tag1 = getTag tp1; tag2 = getTag tp2
      in if tag1 \<noteq> tag2 then Inr False
         else if tag1 = TAG_STRING then taggedStringEqual tp1 tp2 s
         else if tag1 = TAG_INT then bindR (int_at tp1 s) (\<lambda>n1. bindR (int_at tp2 s) (\<lambda>n2. Inr (n1 = n2)))
         else if tag1 = TAG_FLOAT
         then bindR (taggedToFloat tp1 s) (\<lambda>d1. bindR (taggedToFloat tp2 s) (\<lambda>d2. Inr (bal_float_exact_eq d1 d2)))
         else if tag1 = TAG_DECIMAL then bal_decimal_exact_eq canonical tp1 tp2 s
         else if tag1 = TAG_LIST \<or> tag1 = TAG_MAPPING \<or> tag1 = TAG_FUNCTION then Inr (taggedToPtr tp1 = taggedToPtr tp2)
         else Inr False)"

section \<open>Wrappers (string\_inline.c, int\_inline.c, float\_inline.c, boolean\_inline.c, decimal\_inline.c)\<close>

definition bal_string_eq :: "tagged \<Rightarrow> tagged \<Rightarrow> rt \<Rightarrow> fault + bool" where
  "bal_string_eq tp1 tp2 s = taggedStringEqual tp1 tp2 s"

definition bal_string_is_char :: "tagged \<Rightarrow> bool" where
  "bal_string_is_char p = taggedStringIsChar p"

definition bal_opt_string_compare :: "tagged \<Rightarrow> tagged \<Rightarrow> rt \<Rightarrow> fault + int" where
  "bal_opt_string_compare lhs rhs s = optStringCompare lhs rhs s"

definition bal_opt_int_compare :: "tagged \<Rightarrow> tagged \<Rightarrow> rt \<Rightarrow> fault + int" where
  "bal_opt_int_compare lhs rhs s = optIntCompare lhs rhs s"

definition bal_opt_float_compare :: "tagged \<Rightarrow> tagged \<Rightarrow> rt \<Rightarrow> fault + int" where
  "bal_opt_float_compare lhs rhs s = optFloatCompare lhs rhs s"

definition bal_opt_boolean_compare :: "tagged \<Rightarrow> tagged \<Rightarrow> rt \<Rightarrow> fault + int" where
  "bal_opt_boolean_compare lhs rhs s = optBooleanCompare lhs rhs s"

definition bal_opt_decimal_compare :: "tagged \<Rightarrow> tagged \<Rightarrow> rt \<Rightarrow> fault + int" where
  "bal_opt_decimal_compare lhs rhs s = optDecimalCompare lhs rhs s"

definition bal_int_to_tagged :: "int \<Rightarrow> rt \<Rightarrow> fault + tagged \<times> rt" where
  "bal_int_to_tagged n s = intToTagged n s"

definition bal_tagged_to_int :: "tagged \<Rightarrow> rt \<Rightarrow> fault + int" where
  "bal_tagged_to_int p s = taggedToInt p s"

definition bal_float_to_tagged :: "u64 \<Rightarrow> rt \<Rightarrow> fault + tagged \<times> rt" where
  "bal_float_to_tagged d s = floatToTagged d s"

definition bal_tagged_to_float :: "tagged \<Rightarrow> rt \<Rightarrow> fault + u64" where
  "bal_tagged_to_float p s = taggedToFloat p s"

end
