(* ===== verification/Rt_Denote.thy ===== *)
theory Rt_Denote
  imports Rt_Compare Rt_List_Props Rt_Type_Props
begin

text \<open>
  What a tagged value denotes. \<open>val\<close> is the tree of Ballerina values without identity; \<open>denotes\<close> relates
  a tagged pointer to the value it stands for in a state, over all representations: immediate and
  boxed integers, the three kinds of strings, the four families of lists, and mappings. Reading
  a member of a list that denotes a value yields a pointer to the member's value, and denotations
  survive allocation.
\<close>

section \<open>Values\<close>

datatype val =
    VNil
  | VBool bool
  | VInt int
  | VFloat u64
  | VDec decQuad
  | VStr "byte list"
  | VList "val list"
  | VMap "(byte list \<times> val) list"

text \<open>The decimals that occur in a value.\<close>

fun decimals :: "val \<Rightarrow> decQuad set" where
  "decimals (VDec x) = {x}"
| "decimals (VList vs) = (\<Union>v \<in> set vs. decimals v)"
| "decimals (VMap fvs) = (\<Union>f \<in> set fvs. decimals (snd f))"
| "decimals v = {}"

lemma size_member: "v \<in> set vs \<Longrightarrow> size v < size (VList vs)"
  using size_list_estimation' [of v vs "size v" size] by simp

lemma size_field: "(k, v) \<in> set fvs \<Longrightarrow> size v < size (VMap fvs)"
  by (induction fvs) auto

section \<open>Growth of the state\<close>

definition grows :: "rt \<Rightarrow> rt \<Rightarrow> bool" where
  "grows s s1 \<longleftrightarrow> heap s \<subseteq>\<^sub>m heap s1 \<and> img s1 = img s \<and> (wf_rt s \<longrightarrow> wf_rt s1)"

text \<open>Sequencing: a call that can only run out of memory, followed by another.\<close>

lemma seq_outcome:
  assumes "case m of Inl e \<Rightarrow> e = OutOfMemory | Inr (x, s1) \<Rightarrow> P x s1"
    and "\<And>x s1. P x s1 \<Longrightarrow> (case f x s1 of Inl e \<Rightarrow> e = OutOfMemory | Inr (y, s2) \<Rightarrow> Q y s2)"
  shows "case bindR m (\<lambda>(x, s1). f x s1) of Inl e \<Rightarrow> e = OutOfMemory | Inr (y, s2) \<Rightarrow> Q y s2"
  using assms by (cases m) (auto simp: split_beta)

lemma grows_refl [simp]: "grows s s"
  by (simp add: grows_def)

lemma grows_trans: "grows s s1 \<Longrightarrow> grows s1 s2 \<Longrightarrow> grows s s2"
  by (auto simp: grows_def intro: map_le_trans)

lemma grows_heap: "grows s s1 \<Longrightarrow> heap s q = Some x \<Longrightarrow> heap s1 q = Some x"
  by (auto simp: grows_def map_le_def dom_def)

lemma grows_img: "grows s s1 \<Longrightarrow> img s1 = img s"
  by (simp add: grows_def)

lemma grows_wf: "grows s s1 \<Longrightarrow> wf_rt s \<Longrightarrow> wf_rt s1"
  by (simp add: grows_def)

lemma alloc_obj_grows:
  assumes "wf_rt s" "alloc_obj n x s = Inr (p, s1)"
  shows "grows s s1" "heap s1 p = Some x" "heap_addr p"
  using alloc_obj_ok [OF assms] by (auto simp: grows_def map_le_def)

section \<open>Denotation\<close>

definition int_rep :: "rt \<Rightarrow> tagged \<Rightarrow> int \<Rightarrow> bool" where
  "int_rep s p n \<longleftrightarrow>
     (if IMMEDIATE_INT_MIN \<le> n \<and> n \<le> IMMEDIATE_INT_MAX
      then p = IMMEDIATE_INT_TRUNCATE n OR IMMEDIATE_FLAG OR shifted_tag TAG_INT
      else (\<exists>q. heap_addr q \<and> p = ptrAddShiftedTag q (shifted_tag TAG_INT) \<and> heap s q = Some (ObjInt n)))"

definition boxed :: "nat \<Rightarrow> rt \<Rightarrow> tagged \<Rightarrow> obj \<Rightarrow> bool" where
  "boxed t s p x \<longleftrightarrow> (\<exists>q. heap_addr q \<and> p = ptrAddFlags q (shifted_tag t) \<and> heap s q = Some x)"

text \<open>A list object whose array is of the family that its descriptor names.\<close>

definition list_obj_at :: "rt \<Rightarrow> tagged \<Rightarrow> list_repr \<Rightarrow> list_array \<Rightarrow> bool" where
  "list_obj_at s p r a \<longleftrightarrow>
     (\<exists>desc ldp. getTag p = TAG_LIST \<and> heap s (taggedToPtr p) = Some (ObjList \<lparr>lo_desc = desc, lo_array = a\<rparr>) \<and>
        list_desc_at desc s = Inr ldp \<and> ld_repr ldp = r)"

inductive denotes :: "rt \<Rightarrow> tagged \<Rightarrow> val \<Rightarrow> bool" for s :: rt where
  nil: "denotes s NIL VNil"
| bool: "denotes s (if b then TAGGED_TRUE else TAGGED_FALSE) (VBool b)"
| int: "int_rep s p n \<Longrightarrow> denotes s p (VInt n)"
| float: "boxed TAG_FLOAT s p (ObjFloat x) \<Longrightarrow> denotes s p (VFloat x)"
| dec: "boxed TAG_DECIMAL s p (ObjDecimal x) \<Longrightarrow> denotes s p (VDec x)"
| str: "str_rep s p bs \<Longrightarrow> denotes s p (VStr bs)"
| list: "list_obj_at s p GenericList (TpArray ap) \<Longrightarrow> arr_inv 1 ap \<Longrightarrow> list_all2 (denotes s) (arr_list ap) vs \<Longrightarrow>
    denotes s p (VList vs)"
| ints: "list_obj_at s p IntArrayList (IArray iap) \<Longrightarrow> arr_inv 1 iap \<Longrightarrow> denotes s p (VList (map VInt (arr_list iap)))"
| bytes: "list_obj_at s p ByteArrayList (BArray bap) \<Longrightarrow> arr_inv 1 bap \<Longrightarrow>
    denotes s p (VList (map (VInt \<circ> uint) (arr_list bap)))"
| floats: "list_obj_at s p FloatArrayList (FArray fap) \<Longrightarrow> arr_inv 1 fap \<Longrightarrow> denotes s p (VList (map VFloat (arr_list fap)))"
| map: "getTag p = TAG_MAPPING \<Longrightarrow> heap s (taggedToPtr p) = Some (ObjMapping m) \<Longrightarrow> map_rep s m kvs \<Longrightarrow>
    list_all2 (denotes s) (map snd kvs) vs \<Longrightarrow> denotes s p (VMap (zip (map fst kvs) vs))"

inductive_cases denotes_nilE: "denotes s p VNil"
inductive_cases denotes_boolE: "denotes s p (VBool b)"
inductive_cases denotes_intE: "denotes s p (VInt n)"
inductive_cases denotes_floatE: "denotes s p (VFloat x)"
inductive_cases denotes_decE: "denotes s p (VDec x)"
inductive_cases denotes_strE: "denotes s p (VStr bs)"
inductive_cases denotes_listE: "denotes s p (VList vs)"
inductive_cases denotes_mapE: "denotes s p (VMap fvs)"

lemma int_rep_mono: "int_rep s p n \<Longrightarrow> grows s s1 \<Longrightarrow> int_rep s1 p n"
  unfolding int_rep_def by (meson grows_heap)

lemma boxed_mono: "boxed t s p x \<Longrightarrow> grows s s1 \<Longrightarrow> boxed t s1 p x"
  using grows_heap [of s s1 _ x] unfolding boxed_def by blast

lemma list_obj_at_mono: "list_obj_at s p r a \<Longrightarrow> grows s s1 \<Longrightarrow> list_obj_at s1 p r a"
  unfolding list_obj_at_def list_desc_at_def by (metis grows_heap grows_img)

lemma str_rep_grows: "str_rep s p bs \<Longrightarrow> grows s s1 \<Longrightarrow> str_rep s1 p bs"
  by (auto simp: grows_def intro: str_rep_mono)

lemma map_rep_grows: "map_rep s m kvs \<Longrightarrow> grows s s1 \<Longrightarrow> map_rep s1 m kvs"
  using map_rep_mono str_rep_grows grows_img by metis

lemma denotes_mono: "denotes s p v \<Longrightarrow> grows s s1 \<Longrightarrow> denotes s1 p v"
proof (induction rule: denotes.induct)
  case (list p ap vs)
  then show ?case by (intro denotes.list) (auto intro: list_obj_at_mono elim: list_all2_mono)
next
  case (map p m kvs vs)
  then show ?case by (intro denotes.map) (auto intro: map_rep_grows grows_heap elim: list_all2_mono)
qed (blast intro: denotes.intros int_rep_mono boxed_mono list_obj_at_mono str_rep_grows)+

section \<open>Tags\<close>

fun val_tag :: "val \<Rightarrow> nat" where
  "val_tag VNil = TAG_NIL"
| "val_tag (VBool b) = TAG_BOOLEAN"
| "val_tag (VInt n) = TAG_INT"
| "val_tag (VFloat x) = TAG_FLOAT"
| "val_tag (VDec x) = TAG_DECIMAL"
| "val_tag (VStr bs) = TAG_STRING"
| "val_tag (VList vs) = TAG_LIST"
| "val_tag (VMap fvs) = TAG_MAPPING"

lemma utTag_getTag: "getTag p < 32 \<Longrightarrow> utTag p = getTag p"
proof -
  assume "getTag p < 32"
  then have "take_bit 5 (getTag p) = getTag p" by (simp add: take_bit_nat_eq_self_iff)
  moreover have "utTag p = take_bit 5 (getTag p)"
    by (simp add: utTag_def UT_MASK_def take_bit_eq_mask mask_eq_exp_minus_1)
  ultimately show ?thesis by simp
qed

lemma getTag_byte: "getTag w = unat (word_byte w 7)"
  by (rule bit_eqI) (auto simp: bit_getTag bit_unsigned_iff bit_word_byte add.commute)

lemma getTag_immediate_string: "length bs \<le> 7 \<Longrightarrow> getTag (immediate_bits bs) = 0x25"
  by (simp add: getTag_byte word_byte_immediate nth_append)

lemma getTag_boxed:
  assumes "boxed t s p x" "t < 32"
  shows "getTag p = t" "\<not> is_immediate p" "heap s (taggedToPtr p) = Some x"
proof -
  obtain q where q: "heap_addr q" "p = ptrAddFlags q (shifted_tag t OR 0)" "heap s q = Some x"
    using assms(1) by (auto simp: boxed_def)
  show "getTag p = t" unfolding q(2) using q(1) assms(2) by (intro getTag_ptrAddFlags) simp_all
  show "\<not> is_immediate p" unfolding q(2) using q(1) assms(2) by (intro immediate_ptrAddFlags) simp_all
  have "taggedToPtr p = q" unfolding q(2) using q(1) by (intro taggedToPtr_ptrAddFlags) simp_all
  then show "heap s (taggedToPtr p) = Some x" using q(3) by simp
qed

lemma int_rep_cases:
  assumes "int_rep s p n"
  obtains (immediate) "IMMEDIATE_INT_MIN \<le> n" "n \<le> IMMEDIATE_INT_MAX" "is_immediate p"
      "p = IMMEDIATE_INT_TRUNCATE n OR IMMEDIATE_FLAG OR shifted_tag TAG_INT"
    | (heap) "\<not> (IMMEDIATE_INT_MIN \<le> n \<and> n \<le> IMMEDIATE_INT_MAX)" "boxed TAG_INT s p (ObjInt n)"
proof (cases "IMMEDIATE_INT_MIN \<le> n \<and> n \<le> IMMEDIATE_INT_MAX")
  case True
  then show thesis using assms immediate immediate_int_flag by (simp add: int_rep_def)
next
  case False
  then show thesis using assms heap
    by (auto simp: int_rep_def boxed_def ptrAddShiftedTag_def ptrAddFlags_def)
qed

lemma getTag_immediate_int: "getTag (IMMEDIATE_INT_TRUNCATE n OR IMMEDIATE_FLAG OR shifted_tag TAG_INT) = 0x22"
proof -
  have "word_byte (IMMEDIATE_INT_TRUNCATE n OR IMMEDIATE_FLAG OR shifted_tag TAG_INT) 7 =
      word_byte (IMMEDIATE_INT_TRUNCATE n) 7 OR word_byte (IMMEDIATE_FLAG OR shifted_tag TAG_INT) 7"
    by (rule bit_word_eqI) (simp add: bit_word_byte bit_or_iff)
  moreover have "word_byte (IMMEDIATE_INT_TRUNCATE n) 7 = 0"
    using bit_POINTER_MASK [unfolded POINTER_MASK_def]
    by (intro bit_word_eqI) (simp add: bit_word_byte IMMEDIATE_INT_TRUNCATE_def bit_and_iff del: TAG_SHIFT_def)
  moreover have "word_byte (IMMEDIATE_FLAG OR shifted_tag TAG_INT) 7 = 0x22" by code_simp
  ultimately show ?thesis unfolding getTag_byte by simp
qed

lemma taggedToInt_rep: "int_rep s p n \<Longrightarrow> taggedToInt p s = Inr n"
proof (erule int_rep_cases)
  assume i: "IMMEDIATE_INT_MIN \<le> n" "n \<le> IMMEDIATE_INT_MAX" "is_immediate p"
    "p = IMMEDIATE_INT_TRUNCATE n OR IMMEDIATE_FLAG OR shifted_tag TAG_INT"
  then show ?thesis using immediate_int_roundtrip [OF i(1,2)] by (simp add: taggedToInt_def is_immediate_def)
next
  assume b: "boxed TAG_INT s p (ObjInt n)"
  then show ?thesis using getTag_boxed [OF b] by (simp add: taggedToInt_def is_immediate_def)
qed

lemma getTag_str_rep:
  assumes "str_rep s p bs"
  shows "getTag p = (if immediate_rep bs then 0x25 else TAG_STRING)"
proof -
  have u: "utf8 bs" using assms by (rule str_repD)
  have low: "STRING_LARGE_FLAG < 8" "(0 :: u64) < 8" by (simp_all add: STRING_LARGE_FLAG_def)
  have h: "getTag (ptrAddFlags q (shifted_tag TAG_STRING OR l)) = TAG_STRING" if "heap_addr q" "l < 8" for q l
    using that by (intro getTag_ptrAddFlags) simp_all
  show ?thesis
    using assms h [OF _ low(1)] h [OF _ low(2)] getTag_immediate_string [OF immediate_length [OF u]]
    by (auto simp: str_rep_def split: if_splits)
qed

lemma getTag_int_rep:
  "int_rep s p n \<Longrightarrow> getTag p = (if IMMEDIATE_INT_MIN \<le> n \<and> n \<le> IMMEDIATE_INT_MAX then 0x22 else TAG_INT)"
  using getTag_immediate_int getTag_boxed(1) by (erule_tac int_rep_cases) auto

lemma getTag_constants: "getTag NIL = TAG_NIL" "getTag TAGGED_TRUE = TAG_BOOLEAN" "getTag TAGGED_FALSE = TAG_BOOLEAN"
  by code_simp+

text \<open>The tag byte of a value: the tag of its type, with the immediate flag for the immediate forms.\<close>

fun val_getTag :: "val \<Rightarrow> nat" where
  "val_getTag (VInt n) = (if IMMEDIATE_INT_MIN \<le> n \<and> n \<le> IMMEDIATE_INT_MAX then 0x22 else TAG_INT)"
| "val_getTag (VStr bs) = (if immediate_rep bs then 0x25 else TAG_STRING)"
| "val_getTag v = val_tag v"

lemma denotes_getTag: "denotes s p v \<Longrightarrow> getTag p = val_getTag v"
  by (induction rule: denotes.induct)
     (auto simp: getTag_int_rep getTag_str_rep getTag_constants list_obj_at_def dest: getTag_boxed(1))

lemma denotes_utTag: "denotes s p v \<Longrightarrow> utTag p = val_tag v"
proof -
  assume d: "denotes s p v"
  have "utTag p = val_getTag v AND UT_MASK" by (simp add: utTag_def denotes_getTag [OF d])
  also have "\<dots> = val_tag v" by (cases v) (simp_all add: UT_MASK_def)
  finally show ?thesis .
qed

end
