(* ===== verification/Rt_Value_Props.thy ===== *)
theory Rt_Value_Props
  imports Rt_Denote
begin

text \<open>
  Comparison and equality on denotations. \<open>vcompare\<close> and \<open>veq\<close> are the reference definitions on values;
  \<open>taggedPtrCompare\<close> and \<open>taggedPtrEq\<close> are shown to compute them, whatever the representations, with a
  depth bound above the size of the value.
\<close>

section \<open>A pointer denotes one value\<close>

lemma int_rep_fun: "int_rep s p m \<Longrightarrow> int_rep s p n \<Longrightarrow> m = n"
  by (metis taggedToInt_rep sum.inject(2))

lemma boxed_fun: "boxed t s p x \<Longrightarrow> boxed t s p y \<Longrightarrow> t < 32 \<Longrightarrow> x = y"
  by (metis getTag_boxed(3) option.inject)

lemma list_all2_fun:
  "list_all2 (\<lambda>p v. R p v \<and> (\<forall>w. R p w \<longrightarrow> v = w)) ps vs \<Longrightarrow> list_all2 R ps ws \<Longrightarrow> vs = ws"
  by (induction ps vs arbitrary: ws rule: list_all2_induct) (auto simp: list_all2_Cons1)

lemma map_rep_fun:
  assumes "map_rep s m kvs" "map_rep s m kvs'"
  shows "kvs = kvs'"
proof -
  have "list_all2 (\<lambda>p v. str_rep s p v \<and> (\<forall>w. str_rep s p w \<longrightarrow> v = w)) (map mf_key (arr_list (mo_fArray m))) (map fst kvs)"
    using map_repD(3) [OF assms(1)] by (rule list_all2_mono) (auto intro: str_rep_unique)
  then have "map fst kvs = map fst kvs'" using map_repD(3) [OF assms(2)] by (rule list_all2_fun)
  moreover have "map snd kvs = map snd kvs'" using map_repD(4) [OF assms(1)] map_repD(4) [OF assms(2)] by simp
  ultimately show ?thesis by (metis zip_map_fst_snd)
qed

lemma list_obj_at_fun: "list_obj_at s p r a \<Longrightarrow> list_obj_at s p r' a' \<Longrightarrow> a = a'"
  by (auto simp: list_obj_at_def)

lemma denotes_fun: "denotes s p v \<Longrightarrow> denotes s p w \<Longrightarrow> v = w"
proof (induction arbitrary: w rule: denotes.induct)
  case nil
  have "val_tag w = TAG_NIL" using denotes_utTag [OF nil] by (simp add: utTag_def getTag_constants UT_MASK_def)
  then show ?case by (cases w) auto
next
  case (bool b)
  have "val_tag w = TAG_BOOLEAN" using denotes_utTag [OF bool] by (auto simp: utTag_def getTag_constants UT_MASK_def split: if_splits)
  then obtain b' where w: "w = VBool b'" by (cases w) auto
  have "TAGGED_TRUE \<noteq> TAGGED_FALSE" by code_simp
  with bool w show ?case by (auto elim!: denotes_boolE split: if_splits)
next
  case (int p n)
  have "val_tag w = TAG_INT" using denotes_utTag [OF int(2)] denotes_utTag [OF denotes.int [OF int(1)]] by simp
  with int show ?case by (cases w) (auto elim!: denotes_intE dest: int_rep_fun)
next
  case (float p x)
  have "val_tag w = TAG_FLOAT" using denotes_utTag [OF float(2)] denotes_utTag [OF denotes.float [OF float(1)]] by simp
  with float show ?case by (cases w) (auto elim!: denotes_floatE dest: boxed_fun)
next
  case (dec p x)
  have "val_tag w = TAG_DECIMAL" using denotes_utTag [OF dec(2)] denotes_utTag [OF denotes.dec [OF dec(1)]] by simp
  with dec show ?case by (cases w) (auto elim!: denotes_decE dest: boxed_fun)
next
  case (str p bs)
  have "val_tag w = TAG_STRING" using denotes_utTag [OF str(2)] denotes_utTag [OF denotes.str [OF str(1)]] by simp
  with str show ?case by (cases w) (auto elim!: denotes_strE dest: str_rep_unique)
next
  case (list p ap vs)
  have "val_tag w = TAG_LIST" using denotes_utTag [OF list.prems] utTag_getTag [of p] list.hyps(1) by (simp add: list_obj_at_def)
  then obtain ws where w: "w = VList ws" by (cases w) auto
  have "list_all2 (denotes s) (arr_list ap) ws"
    using list.prems [unfolded w] list_obj_at_fun [OF list.hyps(1)] by (auto elim!: denotes_listE)
  with list.IH show ?case unfolding w by (auto intro: list_all2_fun)
next
  case (ints p iap)
  have "val_tag w = TAG_LIST" using denotes_utTag [OF ints.prems] utTag_getTag [of p] ints.hyps(1) by (simp add: list_obj_at_def)
  then obtain ws where w: "w = VList ws" by (cases w) auto
  show ?case using ints.prems [unfolded w] list_obj_at_fun [OF ints.hyps(1)] w by (auto elim!: denotes_listE)
next
  case (bytes p bap)
  have "val_tag w = TAG_LIST" using denotes_utTag [OF bytes.prems] utTag_getTag [of p] bytes.hyps(1) by (simp add: list_obj_at_def)
  then obtain ws where w: "w = VList ws" by (cases w) auto
  show ?case using bytes.prems [unfolded w] list_obj_at_fun [OF bytes.hyps(1)] w by (auto elim!: denotes_listE)
next
  case (floats p fap)
  have "val_tag w = TAG_LIST" using denotes_utTag [OF floats.prems] utTag_getTag [of p] floats.hyps(1) by (simp add: list_obj_at_def)
  then obtain ws where w: "w = VList ws" by (cases w) auto
  show ?case using floats.prems [unfolded w] list_obj_at_fun [OF floats.hyps(1)] w by (auto elim!: denotes_listE)
next
  case (map p m kvs vs)
  have "val_tag w = TAG_MAPPING" using denotes_utTag [OF map.prems] utTag_getTag [of p] map.hyps(1) by simp
  then obtain fvs where w: "w = VMap fvs" by (cases w) auto
  obtain m' kvs' vs' where m': "heap s (taggedToPtr p) = Some (ObjMapping m')" "map_rep s m' kvs'"
    "list_all2 (denotes s) (map snd kvs') vs'" "fvs = zip (map fst kvs') vs'"
    using map.prems [unfolded w] by (auto elim!: denotes_mapE)
  then have "kvs' = kvs" using map.hyps(2,3) map_rep_fun by simp
  with m'(3) map.IH have "vs = vs'" by (auto intro: list_all2_fun)
  with \<open>kvs' = kvs\<close> show ?case using m'(4) w by simp
qed

section \<open>Reading members\<close>

lemma denotes_list_cases [consumes 1, case_names generic ints bytes floats]:
  assumes "denotes s p (VList vs)"
  obtains (generic) ap where "list_obj_at s p GenericList (TpArray ap)" "arr_inv 1 ap" "list_all2 (denotes s) (arr_list ap) vs"
    | (ints) iap where "list_obj_at s p IntArrayList (IArray iap)" "arr_inv 1 iap" "vs = map VInt (arr_list iap)"
    | (bytes) bap where "list_obj_at s p ByteArrayList (BArray bap)" "arr_inv 1 bap" "vs = map (VInt \<circ> uint) (arr_list bap)"
    | (floats) fap where "list_obj_at s p FloatArrayList (FArray fap)" "arr_inv 1 fap" "vs = map VFloat (arr_list fap)"
  using assms by (rule denotes_listE) (use generic ints bytes floats in auto)

lemma floatToTagged_rep:
  assumes "wf_rt s"
  shows "case floatToTagged d s of Inl e \<Rightarrow> e = OutOfMemory | Inr (p, s1) \<Rightarrow> boxed TAG_FLOAT s1 p (ObjFloat d) \<and> grows s s1"
proof (cases "alloc_obj 8 (ObjFloat d) s")
  case (Inl e)
  then show ?thesis using alloc_obj_fault [OF Inl] by (auto simp: floatToTagged_def)
next
  case (Inr r)
  obtain p s1 where r: "r = (p, s1)" by (cases r)
  note g = alloc_obj_grows [OF assms Inr [unfolded r]]
  have "floatToTagged d s = Inr (ptrAddFlags p (shifted_tag TAG_FLOAT), s1)"
    using Inr r by (simp add: floatToTagged_def ptrAddShiftedTag_def ptrAddFlags_def)
  then show ?thesis using g by (auto simp: boxed_def)
qed

lemma createDecimal_new:
  assumes "wf_rt s"
  shows "case createDecimal x s of
      Inl e \<Rightarrow> e = OutOfMemory
    | Inr (p, s1) \<Rightarrow> boxed TAG_DECIMAL s1 p (ObjDecimal x) \<and> grows s s1 \<and> heap s (taggedToPtr p) = None"
proof (cases "alloc_obj 16 (ObjDecimal x) s")
  case (Inl e)
  then show ?thesis using alloc_obj_fault [OF Inl] by (auto simp: createDecimal_def)
next
  case (Inr r)
  obtain p s1 where r: "r = (p, s1)" by (cases r)
  note g = alloc_obj_grows [OF assms Inr [unfolded r]] and n = alloc_obj_ok(3) [OF assms Inr [unfolded r]]
  have c: "createDecimal x s = Inr (ptrAddFlags p (shifted_tag TAG_DECIMAL), s1)" using Inr r by (simp add: createDecimal_def)
  have "taggedToPtr (ptrAddFlags p (shifted_tag TAG_DECIMAL)) = p" using taggedToPtr_ptrAddFlags [OF g(3), of 0 TAG_DECIMAL] by simp
  then show ?thesis using g n c by (auto simp: boxed_def)
qed

lemma intToTagged_new:
  assumes "wf_rt s"
  shows "case intToTagged n s of
      Inl e \<Rightarrow> e = OutOfMemory
    | Inr (p, s1) \<Rightarrow> int_rep s1 p n \<and> grows s s1 \<and> (is_immediate p \<or> heap s (taggedToPtr p) = None)"
proof (cases "IMMEDIATE_INT_MIN \<le> n \<and> n \<le> IMMEDIATE_INT_MAX")
  case True
  then show ?thesis using immediate_int_flag [of n TAG_INT] by (simp add: intToTagged_def int_rep_def is_immediate_def)
next
  case False
  show ?thesis
  proof (cases "alloc_obj 8 (ObjInt n) s")
    case (Inl e)
    then show ?thesis using False alloc_obj_fault [OF Inl] by (auto simp: intToTagged_def)
  next
    case (Inr r)
    obtain p s1 where r: "r = (p, s1)" by (cases r)
    note g = alloc_obj_grows [OF assms Inr [unfolded r]] and n = alloc_obj_ok(3) [OF assms Inr [unfolded r]]
    have "intToTagged n s = Inr (ptrAddShiftedTag p (shifted_tag TAG_INT), s1)" using False Inr r by (auto simp: intToTagged_def)
    moreover have "taggedToPtr (ptrAddShiftedTag p (shifted_tag TAG_INT)) = p"
      using taggedToPtr_ptrAddFlags [OF g(3), of 0 TAG_INT] by (simp add: ptrAddShiftedTag_Flags)
    ultimately show ?thesis using False g n by (auto simp: int_rep_def)
  qed
qed

lemma intToTagged_rep:
  assumes "wf_rt s"
  shows "case intToTagged n s of Inl e \<Rightarrow> e = OutOfMemory | Inr (p, s1) \<Rightarrow> int_rep s1 p n \<and> grows s s1"
  using intToTagged_new [OF assms, of n] by (auto split: sum.splits)

text \<open>Reading member \<open>i\<close> of a list that denotes \<open>vs\<close>.\<close>

lemma list_get_denotes:
  assumes d: "denotes s p (VList vs)" and i: "i < length vs" and wf: "wf_rt s"
  shows "case list_get p (int i) s of Inl e \<Rightarrow> e = OutOfMemory | Inr (t, s1) \<Rightarrow> denotes s1 t (vs ! i) \<and> grows s s1"
  using d
proof (cases rule: denotes_list_cases)
  case (generic ap)
  have len: "length (arr_list ap) = length vs" using generic(3) by (rule list_all2_lengthD)
  then have g: "block_get (arr_members ap) (int i) = Inr (arr_list ap ! i)"
    using block_get_arr_list [OF generic(2), of "int i"] arr_list_length1 [OF generic(2)] i by simp
  have "denotes s (arr_list ap ! i) (vs ! i)" using generic(3) i len by (simp add: list_all2_nthD)
  then show ?thesis using generic(1) g
    by (auto simp: list_obj_at_def list_get_def list_at_def bal_list_generic_get_tagged_def tpArray_def)
next
  case (ints iap)
  have g: "block_get (arr_members iap) (int i) = Inr (arr_list iap ! i)"
    using block_get_arr_list [OF ints(2), of "int i"] arr_list_length1 [OF ints(2)] i ints(3) by simp
  have r: "list_get p (int i) s = intToTagged (arr_list iap ! i) s"
    using ints(1) g by (auto simp: list_obj_at_def list_get_def list_at_def bal_list_int_array_get_tagged_def iArray_def)
  show ?thesis unfolding r using intToTagged_rep [OF wf, of "arr_list iap ! i"] i ints(3)
    by (auto split: sum.splits intro: denotes.int)
next
  case (bytes bap)
  have g: "block_get (arr_members bap) (int i) = Inr (arr_list bap ! i)"
    using block_get_arr_list [OF bytes(2), of "int i"] arr_list_length1 [OF bytes(2)] i bytes(3) by simp
  have r: "list_get p (int i) s = intToTagged (uint (arr_list bap ! i)) s"
    using bytes(1) g by (auto simp: list_obj_at_def list_get_def list_at_def bal_list_byte_array_get_tagged_def bArray_def)
  show ?thesis unfolding r using intToTagged_rep [OF wf, of "uint (arr_list bap ! i)"] i bytes(3)
    by (auto split: sum.splits intro: denotes.int)
next
  case (floats fap)
  have g: "block_get (arr_members fap) (int i) = Inr (arr_list fap ! i)"
    using block_get_arr_list [OF floats(2), of "int i"] arr_list_length1 [OF floats(2)] i floats(3) by simp
  have r: "list_get p (int i) s = floatToTagged (arr_list fap ! i) s"
    using floats(1) g by (auto simp: list_obj_at_def list_get_def list_at_def bal_list_float_array_get_tagged_def fArray_def)
  show ?thesis unfolding r using floatToTagged_rep [OF wf, of "arr_list fap ! i"] i floats(3) denotes.float
    by (auto split: sum.splits)
qed

lemma list_length_denotes:
  assumes "denotes s p (VList vs)"
  shows "\<exists>lp. list_at p s = Inr lp \<and> array_length (lo_array lp) = int (length vs)"
  using assms
proof (cases rule: denotes_list_cases)
  case (generic ap)
  then show ?thesis using list_all2_lengthD [OF generic(3)] arr_list_length1 [OF generic(2)]
    by (auto simp: list_obj_at_def list_at_def array_length_def)
next
  case (ints iap)
  then show ?thesis using arr_list_length1 [OF ints(2)] by (auto simp: list_obj_at_def list_at_def array_length_def)
next
  case (bytes bap)
  then show ?thesis using arr_list_length1 [OF bytes(2)] by (auto simp: list_obj_at_def list_at_def array_length_def)
next
  case (floats fap)
  then show ?thesis using arr_list_length1 [OF floats(2)] by (auto simp: list_obj_at_def list_at_def array_length_def)
qed

text \<open>Reading the members at one index of two lists, as the loops over two lists do.\<close>

lemma read_members:
  assumes "denotes s p1 (VList vs)" "denotes s p2 (VList ws)" "i < length vs" "i < length ws" "wf_rt s"
  obtains (left_fault) "list_get p1 (int i) s = Inl OutOfMemory"
    | (right_fault) t1 s1 where "list_get p1 (int i) s = Inr (t1, s1)" "list_get p2 (int i) s1 = Inl OutOfMemory"
    | (both) t1 s1 t2 s2 where "list_get p1 (int i) s = Inr (t1, s1)" "list_get p2 (int i) s1 = Inr (t2, s2)"
        "denotes s2 t1 (vs ! i)" "denotes s2 t2 (ws ! i)" "grows s s2" "wf_rt s2"
        "denotes s2 p1 (VList vs)" "denotes s2 p2 (VList ws)"
proof (cases "list_get p1 (int i) s")
  case (Inl e)
  then show thesis using list_get_denotes [OF assms(1,3,5)] left_fault by simp
next
  case (Inr r1)
  obtain t1 s1 where r1: "list_get p1 (int i) s = Inr (t1, s1)" using Inr by (cases r1) auto
  then have g1: "denotes s1 t1 (vs ! i)" "grows s s1" using list_get_denotes [OF assms(1,3,5)] by simp_all
  have wf1: "wf_rt s1" "denotes s1 p2 (VList ws)" using g1(2) assms(2,5) by (auto intro: grows_wf denotes_mono)
  show thesis
  proof (cases "list_get p2 (int i) s1")
    case (Inl e)
    then show thesis using list_get_denotes [OF wf1(2) assms(4) wf1(1)] r1 right_fault by simp
  next
    case (Inr r2)
    obtain t2 s2 where r2: "list_get p2 (int i) s1 = Inr (t2, s2)" using Inr by (cases r2) auto
    then have g2: "denotes s2 t2 (ws ! i)" "grows s1 s2" using list_get_denotes [OF wf1(2) assms(4) wf1(1)] by simp_all
    have g: "grows s s2" using g1(2) g2(2) by (rule grows_trans)
    show thesis using both [OF r1 r2 denotes_mono [OF g1(1) g2(2)] g2(1) g grows_wf [OF g assms(5)]]
        denotes_mono [OF assms(1) g] denotes_mono [OF assms(2) g] by blast
  qed
qed

section \<open>Comparison\<close>

text \<open>\<open>dv\<close> is the numerical order of decimals. Lists compare lexicographically, nil only with nil.\<close>

fun vcompare :: "(decQuad \<Rightarrow> int) \<Rightarrow> val \<Rightarrow> val \<Rightarrow> int"
  and vlist_compare :: "(decQuad \<Rightarrow> int) \<Rightarrow> val list \<Rightarrow> val list \<Rightarrow> int" where
  "vcompare dv VNil VNil = COMPARE_EQ"
| "vcompare dv (VBool a) (VBool b) = intCompare (of_bool a) (of_bool b)"
| "vcompare dv (VInt m) (VInt n) = intCompare m n"
| "vcompare dv (VFloat x) (VFloat y) = floatCompare x y"
| "vcompare dv (VDec x) (VDec y) = intCompare (dv x) (dv y)"
| "vcompare dv (VStr as) (VStr bs) = intCompare (lex_cmp as bs) 0"
| "vcompare dv (VList vs) (VList ws) = vlist_compare dv vs ws"
| "vcompare dv _ _ = COMPARE_UN"
| "vlist_compare dv [] [] = COMPARE_EQ"
| "vlist_compare dv [] (w # ws) = COMPARE_LT"
| "vlist_compare dv (v # vs) [] = COMPARE_GT"
| "vlist_compare dv (v # vs) (w # ws) =
     (if vcompare dv v w \<noteq> COMPARE_EQ then vcompare dv v w else vlist_compare dv vs ws)"

text \<open>Values that the language allows to be compared, without NaN.\<close>

fun ordered :: "val \<Rightarrow> bool" where
  "ordered (VFloat x) \<longleftrightarrow> \<not> dbl_isnan x"
| "ordered (VList vs) \<longleftrightarrow> (\<forall>v \<in> set vs. ordered v)"
| "ordered (VMap fvs) \<longleftrightarrow> False"
| "ordered v \<longleftrightarrow> True"

lemma vlist_compare_refl: "(\<And>v. v \<in> set vs \<Longrightarrow> vcompare dv v v = COMPARE_EQ) \<Longrightarrow> vlist_compare dv vs vs = COMPARE_EQ"
  by (induction vs) auto

lemma vcompare_refl: "ordered v \<Longrightarrow> vcompare dv v v = COMPARE_EQ"
  by (induction v) (auto simp: intCompare_def floatCompare_def dbl_eq_def vlist_compare_refl)

lemma vcompare_tags: "val_tag v \<noteq> val_tag w \<Longrightarrow> vcompare dv v w = COMPARE_UN"
  by (cases v; cases w) auto

definition compares :: "decQuad set \<Rightarrow> (decQuad \<Rightarrow> int) \<Rightarrow> nat \<Rightarrow> (tagged \<Rightarrow> tagged \<Rightarrow> rt \<Rightarrow> fault + int \<times> rt) \<Rightarrow> bool" where
  "compares D dv n cmp \<longleftrightarrow>
     (\<forall>s t1 t2 v1 v2. wf_rt s \<longrightarrow> compares_values (img s) D dv \<longrightarrow> denotes s t1 v1 \<longrightarrow> denotes s t2 v2 \<longrightarrow>
        decimals v1 \<union> decimals v2 \<subseteq> D \<longrightarrow> ordered v1 \<longrightarrow> size v1 < n \<longrightarrow>
        (case cmp t1 t2 s of Inl e \<Rightarrow> e = OutOfMemory | Inr (r, s1) \<Rightarrow> r = vcompare dv v1 v2 \<and> grows s s1))"

lemma list_compare_loop_correct:
  assumes cmp: "compares D dv (size (VList vs)) cmp" and wf: "wf_rt s" and dq: "compares_values (img s) D dv"
    and d: "denotes s p1 (VList vs)" "denotes s p2 (VList ws)" and D: "decimals (VList vs) \<union> decimals (VList ws) \<subseteq> D"
    and o: "\<forall>v \<in> set vs. ordered v"
    and n: "i + n = min (length vs) (length ws)"
  shows "case list_compare_loop cmp p1 p2 n (int i) s of
      Inl e \<Rightarrow> e = OutOfMemory
    | Inr (r, s1) \<Rightarrow> (if r \<noteq> COMPARE_EQ then r else intCompare (int (length vs)) (int (length ws))) =
        vlist_compare dv (drop i vs) (drop i ws) \<and> grows s s1"
  using wf dq d n
proof (induction n arbitrary: i s)
  case 0
  have "vlist_compare dv (drop i vs) (drop i ws) = intCompare (int (length vs)) (int (length ws))"
  proof (cases "length vs \<le> length ws")
    case True
    then have "drop i vs = []" "i = length vs" using 0 by simp_all
    then show ?thesis using True by (cases "drop i ws") (auto simp: intCompare_def)
  next
    case False
    then have "drop i ws = []" "i = length ws" using 0 by simp_all
    then show ?thesis using False by (cases "drop i vs") (auto simp: intCompare_def)
  qed
  then show ?case by simp
next
  case (Suc n)
  have i: "i < length vs" "i < length ws" using Suc.prems(5) by simp_all
  then have dr: "drop i vs = vs ! i # drop (Suc i) vs" "drop i ws = ws ! i # drop (Suc i) ws" by (simp_all add: Cons_nth_drop_Suc)
  from Suc.prems(3,4) i Suc.prems(1) show ?case
  proof (cases rule: read_members)
    case (both t1 s1 t2 s2)
    have Di: "decimals (vs ! i) \<union> decimals (ws ! i) \<subseteq> D" using D i by (auto dest!: nth_mem)
    have dq2: "compares_values (img s2) D dv" using Suc.prems(2) both(5) by (simp add: grows_img)
    have c: "case cmp t1 t2 s2 of Inl e \<Rightarrow> e = OutOfMemory | Inr (r, s3) \<Rightarrow> r = vcompare dv (vs ! i) (ws ! i) \<and> grows s2 s3"
      using cmp both(3,4,6) dq2 Di o i(1) size_member [of "vs ! i" vs] unfolding compares_def by fastforce
    show ?thesis
    proof (cases "cmp t1 t2 s2")
      case (Inl e)
      then show ?thesis using c both(1,2) by simp
    next
      case (Inr r3)
      obtain r s3 where r3: "cmp t1 t2 s2 = Inr (r, s3)" using Inr by (cases r3) auto
      have g3: "r = vcompare dv (vs ! i) (ws ! i)" "grows s s3" using c r3 both(5) by (auto intro: grows_trans)
      have ni: "Suc i + n = min (length vs) (length ws)" using Suc.prems(5) by simp
      have wf3: "wf_rt s3" "compares_values (img s3) D dv" "denotes s3 p1 (VList vs)" "denotes s3 p2 (VList ws)"
        using g3(2) Suc.prems(1-4) by (auto intro: grows_wf denotes_mono simp: grows_img)
      show ?thesis using Suc.IH [OF wf3 ni] both(1,2) r3 g3 dr grows_trans [OF g3(2)]
        by (auto simp: add.commute split: sum.splits)
    qed
  qed simp_all
qed

lemma optListDoCompare_correct:
  assumes cmp: "compares D dv (size (VList vs)) cmp" and wf: "wf_rt s" and dq: "compares_values (img s) D dv"
    and d: "denotes s p1 (VList vs)" "denotes s p2 (VList ws)" and D: "decimals (VList vs) \<union> decimals (VList ws) \<subseteq> D"
    and o: "\<forall>v \<in> set vs. ordered v"
  shows "case optListDoCompare p1 p2 cmp s of
      Inl e \<Rightarrow> e = OutOfMemory
    | Inr (r, s1) \<Rightarrow> r = vlist_compare dv vs ws \<and> grows s s1"
proof (cases "p1 = p2")
  case True
  then have "ws = vs" using d denotes_fun by blast
  then show ?thesis using True o vcompare_refl vlist_compare_refl [of vs dv] by (simp add: optListDoCompare_def)
next
  case False
  have "getTag p1 = TAG_LIST" "getTag p2 = TAG_LIST" using denotes_getTag [OF d(1)] denotes_getTag [OF d(2)] by simp_all
  then have nn: "p1 \<noteq> NIL" "p2 \<noteq> NIL" using getTag_constants(1) by auto
  obtain lp1 where l1: "list_at p1 s = Inr lp1" "array_length (lo_array lp1) = int (length vs)" using list_length_denotes [OF d(1)] by blast
  obtain lp2 where l2: "list_at p2 s = Inr lp2" "array_length (lo_array lp2) = int (length ws)" using list_length_denotes [OF d(2)] by blast
  have n: "0 + nat (if int (length vs) \<le> int (length ws) then int (length vs) else int (length ws)) = min (length vs) (length ws)" by simp
  from list_compare_loop_correct [OF cmp wf dq d D o n] show ?thesis
    using False nn l1 l2 by (auto simp: optListDoCompare_def Let_def split: sum.splits if_splits)
qed

lemma bal_decimal_cmp_denotes:
  assumes "boxed TAG_DECIMAL s p (ObjDecimal x)" "boxed TAG_DECIMAL s q (ObjDecimal y)" "compares_values (img s) D dv" "{x, y} \<subseteq> D"
  shows "bal_decimal_cmp p q s = Inr (if dv x = dv y then 0 else if dv x < dv y then - 1 else 1)"
  using getTag_boxed(3) [OF assms(1)] getTag_boxed(3) [OF assms(2)] assms(3,4)
  by (simp add: bal_decimal_cmp_def taggedToDecQuad_def compares_values_def)

lemma taggedToFloat_boxed: "boxed TAG_FLOAT s p (ObjFloat x) \<Longrightarrow> taggedToFloat p s = Inr x"
  using getTag_boxed(3) [of TAG_FLOAT s p "ObjFloat x"] by (simp add: taggedToFloat_def)

lemma taggedToDecQuad_denotes: "denotes s p (VDec x) \<Longrightarrow> taggedToDecQuad p s = Inr x"
  using getTag_boxed(3) by (auto elim!: denotes_decE simp: taggedToDecQuad_def)

lemma taggedToInt_denotes: "denotes s p (VInt n) \<Longrightarrow> taggedToInt p s = Inr n"
  by (auto elim!: denotes_intE intro: taggedToInt_rep)

lemma taggedToFloat_denotes: "denotes s p (VFloat x) \<Longrightarrow> taggedToFloat p s = Inr x"
  by (auto elim!: denotes_floatE intro: taggedToFloat_boxed)

lemma taggedToBoolean_constants: "taggedToBoolean TAGGED_TRUE = 1" "taggedToBoolean TAGGED_FALSE = 0" "TAGGED_TRUE \<noteq> TAGGED_FALSE"
  by code_simp+

lemma intCompare_sgn: "sgn c = r \<Longrightarrow> intCompare c 0 = intCompare r 0"
  by (auto simp: intCompare_def sgn_if split: if_splits)

lemma taggedPtrCompare_leaf:
  assumes "denotes s t1 v1" "denotes s t2 v2" "compares_values (img s) D dv" "val_tag v1 = val_tag v2" "ordered v1"
    "val_tag v1 \<noteq> TAG_LIST" "decimals v1 \<union> decimals v2 \<subseteq> D"
  shows "taggedPtrCompare (Suc d) t1 t2 s = Inr (vcompare dv v1 v2, s)"
proof -
  have t: "utTag t1 = val_tag v1" "utTag t2 = val_tag v1" using denotes_utTag assms(1,2,4) by simp_all
  show ?thesis
  proof (cases v1)
    case (VBool a)
    then obtain b where v2: "v2 = VBool b" using assms(4) by (cases v2) auto
    then show ?thesis using assms(1,2) t VBool taggedToBoolean_constants
      by (auto elim!: denotes_boolE simp: lift_compare_def taggedBooleanCompare_def intCompare_def)
  next
    case (VInt m)
    then obtain n where v2: "v2 = VInt n" using assms(4) by (cases v2) auto
    then show ?thesis using assms(1,2) t VInt
      by (auto elim!: denotes_intE simp: lift_compare_def taggedIntCompare_def taggedToInt_rep)
  next
    case (VFloat x)
    then obtain y where v2: "v2 = VFloat y" using assms(4) by (cases v2) auto
    have "taggedToFloat t1 s = Inr x" "taggedToFloat t2 s = Inr y"
      using assms(1,2) VFloat v2 taggedToFloat_boxed by (auto elim!: denotes_floatE)
    then show ?thesis using t VFloat v2 by (simp add: lift_compare_def taggedFloatCompare_def)
  next
    case (VDec x)
    then obtain y where v2: "v2 = VDec y" using assms(4) by (cases v2) auto
    have "boxed TAG_DECIMAL s t1 (ObjDecimal x)" "boxed TAG_DECIMAL s t2 (ObjDecimal y)"
      using assms(1,2) VDec v2 by (auto elim!: denotes_decE)
    then show ?thesis using t VDec v2 assms(7) bal_decimal_cmp_denotes [OF _ _ assms(3)] by (auto simp: intCompare_def)
  next
    case (VStr as)
    then obtain bs where v2: "v2 = VStr bs" using assms(4) by (cases v2) auto
    have r: "str_rep s t1 as" "str_rep s t2 bs" using assms(1,2) VStr v2 by (auto elim!: denotes_strE)
    obtain c where c: "bal_string_cmp t1 t2 s = Inr c" "sgn c = lex_cmp as bs" using bal_string_cmp_rep [OF r] by blast
    show ?thesis using t VStr v2 c(1) intCompare_sgn [OF c(2)] by simp
  qed (use assms(4,5,6) t in \<open>cases v2; auto\<close>)+
qed

lemma taggedPtrCompare_correct: "compares D dv d (taggedPtrCompare d)"
proof (induction d)
  case 0
  then show ?case by (simp add: compares_def)
next
  case (Suc d)
  show ?case unfolding compares_def
  proof (intro allI impI)
    fix s t1 t2 v1 v2
    assume a: "wf_rt s" "compares_values (img s) D dv" "denotes s t1 v1" "denotes s t2 v2" "decimals v1 \<union> decimals v2 \<subseteq> D"
      "ordered v1" "size v1 < Suc d"
    have t: "utTag t1 = val_tag v1" "utTag t2 = val_tag v2" using denotes_utTag a(3,4) by simp_all
    show "case taggedPtrCompare (Suc d) t1 t2 s of Inl e \<Rightarrow> e = OutOfMemory | Inr (r, s1) \<Rightarrow> r = vcompare dv v1 v2 \<and> grows s s1"
    proof (cases "val_tag v1 = val_tag v2 \<and> val_tag v1 = TAG_LIST")
      case True
      then obtain vs ws where v: "v1 = VList vs" "v2 = VList ws" by (cases v1; cases v2) auto
      have "compares D dv (size (VList vs)) (taggedPtrCompare d)" using Suc.IH a(7) v(1) by (fastforce simp: compares_def)
      from optListDoCompare_correct [OF this a(1,2) a(3) [unfolded v] a(4) [unfolded v] a(5) [unfolded v]] show ?thesis
        using t v a(6) unfolding v vcompare.simps by simp
    next
      case False
      then show ?thesis
        using t taggedPtrCompare_leaf [OF a(3,4,2) _ a(6) _ a(5), of d] vcompare_tags [of v1 v2 dv] by (cases "val_tag v1 = val_tag v2") auto
    qed
  qed
qed

end
