(* ===== verification/Rt_Equality_Props.thy ===== *)
theory Rt_Equality_Props
  imports Rt_Value_Props
begin

text \<open>
  Equality on values that are trees: \<open>taggedPtrEq\<close> decides the reference equality \<open>veq\<close> of the values,
  whatever their representations.
\<close>

section \<open>Reference equality\<close>

text \<open>Decimals are equal when their values \<open>dv\<close> are, mappings when they have equal fields in any order.\<close>

fun veq :: "(decQuad \<Rightarrow> int) \<Rightarrow> val \<Rightarrow> val \<Rightarrow> bool"
  and veqs :: "(decQuad \<Rightarrow> int) \<Rightarrow> val list \<Rightarrow> val list \<Rightarrow> bool"
  and veqm :: "(decQuad \<Rightarrow> int) \<Rightarrow> (byte list \<times> val) list \<Rightarrow> (byte list \<times> val) list \<Rightarrow> bool" where
  "veq dv VNil VNil = True"
| "veq dv (VBool a) (VBool b) = (a = b)"
| "veq dv (VInt m) (VInt n) = (m = n)"
| "veq dv (VFloat x) (VFloat y) = bal_float_eq x y"
| "veq dv (VDec x) (VDec y) = (dv x = dv y)"
| "veq dv (VStr as) (VStr bs) = (as = bs)"
| "veq dv (VList vs) (VList ws) = (length vs = length ws \<and> veqs dv vs ws)"
| "veq dv (VMap fs) (VMap gs) = (length fs = length gs \<and> veqm dv fs gs)"
| "veq dv _ _ = False"
| "veqs dv (v # vs) (w # ws) = (veq dv v w \<and> veqs dv vs ws)"
| "veqs dv _ _ = True"
| "veqm dv [] gs = True"
| "veqm dv ((k, v) # fs) gs = ((case map_of gs k of None \<Rightarrow> False | Some w \<Rightarrow> veq dv v w) \<and> veqm dv fs gs)"

lemma veqs_refl: "(\<And>v. v \<in> set vs \<Longrightarrow> veq dv v v) \<Longrightarrow> veqs dv vs vs"
  by (induction vs) auto

lemma veqm_sub:
  assumes "\<forall>(k, v) \<in> set fs. map_of gs k = Some v \<and> veq dv v v"
  shows "veqm dv fs gs"
  using assms by (induction fs) auto

text \<open>Mappings have distinct keys throughout.\<close>

fun distinct_keys :: "val \<Rightarrow> bool" where
  "distinct_keys (VList vs) \<longleftrightarrow> (\<forall>v \<in> set vs. distinct_keys v)"
| "distinct_keys (VMap fvs) \<longleftrightarrow> distinct (map fst fvs) \<and> (\<forall>f \<in> set fvs. distinct_keys (snd f))"
| "distinct_keys v \<longleftrightarrow> True"

lemma veq_refl: "distinct_keys v \<Longrightarrow> veq dv v v"
proof (induction v)
  case (VFloat x)
  then show ?case by (simp add: bal_float_eq_def dbl_eq_def)
next
  case (VList vs)
  then show ?case by (simp add: veqs_refl)
next
  case (VMap fvs)
  then show ?case by (auto intro!: veqm_sub simp: map_of_eq_Some_iff)
qed simp_all

lemma denotes_distinct_keys: "denotes s p v \<Longrightarrow> distinct_keys v"
proof (induction rule: denotes.induct)
  case (list p ap vs)
  then show ?case by (auto simp: list_all2_conv_all_nth in_set_conv_nth)
next
  case (map p m kvs vs)
  have len: "length kvs = length vs" using list_all2_lengthD [OF map.IH] by simp
  have "\<forall>v \<in> set vs. distinct_keys v" using map.IH by (auto simp: list_all2_conv_all_nth in_set_conv_nth)
  moreover have "map fst (zip (map fst kvs) vs) = map fst kvs" using len by simp
  ultimately show ?case using map_repD(5) [OF map.hyps(3)] by (auto dest: set_zip_rightD)
qed auto

lemma veq_getTag: "veq dv v w \<Longrightarrow> val_getTag v = val_getTag w"
  by (cases v; cases w) auto

section \<open>Correctness on trees\<close>

definition equates :: "decQuad set \<Rightarrow> (decQuad \<Rightarrow> int) \<Rightarrow> rt \<Rightarrow> nat \<Rightarrow> (tagged \<Rightarrow> tagged \<Rightarrow> rt \<Rightarrow> fault + bool \<times> rt) \<Rightarrow> bool" where
  "equates D dv s0 n eq \<longleftrightarrow>
     (\<forall>s t1 t2 v1 v2. grows s0 s \<longrightarrow> wf_rt s \<longrightarrow> denotes s t1 v1 \<longrightarrow> denotes s t2 v2 \<longrightarrow>
        decimals v1 \<union> decimals v2 \<subseteq> D \<longrightarrow> size v1 < n \<longrightarrow>
        (case eq t1 t2 s of Inl e \<Rightarrow> e = OutOfMemory | Inr (b, s1) \<Rightarrow> b = veq dv v1 v2 \<and> grows s s1))"

lemma equatesD:
  assumes "equates D dv s0 n eq" "grows s0 s" "wf_rt s" "denotes s t1 v1" "denotes s t2 v2"
    "decimals v1 \<union> decimals v2 \<subseteq> D" "size v1 < n"
  shows "case eq t1 t2 s of Inl e \<Rightarrow> e = OutOfMemory | Inr (b, s1) \<Rightarrow> b = veq dv v1 v2 \<and> grows s s1"
  using assms unfolding equates_def by blast

lemma list_eq_loop_correct:
  assumes eq: "equates D dv s0 (size (VList vs)) eq"
    and g: "grows s0 s" and wf: "wf_rt s" and d: "denotes s p1 (VList vs)" "denotes s p2 (VList ws)"
    and D: "decimals (VList vs) \<union> decimals (VList ws) \<subseteq> D"
    and n: "i + n = length vs" "length ws = length vs"
  shows "case list_eq_loop eq p1 p2 n (int i) s of
      Inl e \<Rightarrow> e = OutOfMemory
    | Inr (b, s1) \<Rightarrow> b = veqs dv (drop i vs) (drop i ws) \<and> grows s s1"
  using g wf d n(1)
proof (induction n arbitrary: i s)
  case 0
  then show ?case using n(2) by simp
next
  case (Suc n)
  have i: "i < length vs" "i < length ws" using Suc.prems(5) n(2) by simp_all
  then have dr: "drop i vs = vs ! i # drop (Suc i) vs" "drop i ws = ws ! i # drop (Suc i) ws" by (simp_all add: Cons_nth_drop_Suc)
  from Suc.prems(3,4) i Suc.prems(2) show ?case
  proof (cases rule: read_members)
    case (both t1 s1 t2 s2)
    have c: "case eq t1 t2 s2 of Inl e \<Rightarrow> e = OutOfMemory | Inr (b, s3) \<Rightarrow> b = veq dv (vs ! i) (ws ! i) \<and> grows s2 s3"
      using i D by (intro equatesD [OF eq grows_trans [OF Suc.prems(1) both(5)] both(6,3,4)] size_member) (auto dest!: nth_mem)
    show ?thesis
    proof (cases "eq t1 t2 s2")
      case (Inl e)
      then show ?thesis using c both(1,2) by simp
    next
      case (Inr r3)
      obtain b s3 where r3: "eq t1 t2 s2 = Inr (b, s3)" using Inr by (cases r3) auto
      have g3: "b = veq dv (vs ! i) (ws ! i)" "grows s s3" using c r3 both(5) by (auto intro: grows_trans)
      have wf3: "grows s0 s3" "wf_rt s3" "denotes s3 p1 (VList vs)" "denotes s3 p2 (VList ws)"
        using g3(2) Suc.prems(1-4) by (auto intro: grows_wf denotes_mono grows_trans)
      have ni: "Suc i + n = length vs" using Suc.prems(5) by simp
      show ?thesis using Suc.IH [OF wf3 ni] both(1,2) r3 g3 dr grows_trans [OF g3(2)]
        by (auto simp: add.commute split: sum.splits)
    qed
  qed simp_all
qed

lemma bal_list_eq_internal_correct:
  assumes eq: "equates D dv s (size (VList vs)) eq" and wf: "wf_rt s" and d: "denotes s p1 (VList vs)" "denotes s p2 (VList ws)"
    and D: "decimals (VList vs) \<union> decimals (VList ws) \<subseteq> D"
  shows "case bal_list_eq_internal eq p1 p2 s of
      Inl e \<Rightarrow> e = OutOfMemory
    | Inr (b, s1) \<Rightarrow> b = veq dv (VList vs) (VList ws) \<and> grows s s1"
proof -
  obtain lp1 where l1: "list_at p1 s = Inr lp1" "array_length (lo_array lp1) = int (length vs)" using list_length_denotes [OF d(1)] by blast
  obtain lp2 where l2: "list_at p2 s = Inr lp2" "array_length (lo_array lp2) = int (length ws)" using list_length_denotes [OF d(2)] by blast
  show ?thesis
  proof (cases "length ws = length vs")
    case False
    then show ?thesis using l1 l2 by (simp add: bal_list_eq_internal_def Let_def)
  next
    case True
    have "0 + nat (int (length vs)) = length vs" by simp
    from list_eq_loop_correct [OF eq grows_refl wf d D this True] show ?thesis
      using l1 l2 True by (auto simp: bal_list_eq_internal_def Let_def split: sum.splits)
  qed
qed

text \<open>One round of the loop: field \<open>i\<close> of the first mapping against the field of the second with its key.\<close>

lemma mapping_eq_loop_step:
  assumes r1: "map_rep s m1 kts" and r2: "map_rep s m2 lus" and i: "i < length kts"
  shows "mapping_eq_loop eq m1 m2 (Suc n) (int i) s =
     (case map_of lus (fst (kts ! i)) of
        None \<Rightarrow> Inr (False, s)
      | Some u \<Rightarrow> bindR (eq (snd (kts ! i)) u s) (\<lambda>(b, s1).
          if \<not> b then Inr (False, s1) else mapping_eq_loop eq m1 m2 n (int i + 1) s1))"
proof -
  define k where "k = fst (kts ! i)"
  define f where "f = arr_list (mo_fArray m1) ! i"
  have bg: "block_get (arr_members (mo_fArray m1)) (int i) = Inr f"
    unfolding f_def using block_get_arr_list [OF map_repD(1) [OF r1], of "int i"] map_repD(9) [OF r1] i by simp
  have key: "str_rep s (mf_key f) k"
    using map_repD(3) [OF r1] i map_repD(8) [OF r1] by (simp add: f_def k_def list_all2_conv_all_nth)
  have v1: "mf_value f = snd (kts ! i)" using map_repD(4) [OF r1] map_repD(8) [OF r1] i by (metis f_def nth_map)
  note h = bal_string_hash_rep [OF key]
  show ?thesis
  proof (cases "k \<in> fst ` set lus")
    case False
    obtain j where j: "lookup m2 (mf_key f) (hashFinish (hash_content (hashInit s) k) s) s = Inr j" "j < 0"
      using lookup_rep_absent [OF r2 key False] by auto
    have "map_of lus k = None" using False by (simp add: map_of_eq_None_iff)
    then show ?thesis using bg h j by (simp add: k_def)
  next
    case True
    then obtain x where x: "x < length lus" "fst (lus ! x) = k" by (auto simp: in_set_conv_nth)
    note lk = lookup_rep_present [OF r2 key x]
    have bg2: "block_get (arr_members (mo_fArray m2)) (int x) = Inr (arr_list (mo_fArray m2) ! x)"
      using block_get_arr_list [OF map_repD(1) [OF r2], of "int x"] map_repD(9) [OF r2] x by simp
    have v2: "mf_value (arr_list (mo_fArray m2) ! x) = snd (lus ! x)"
      using map_repD(4) [OF r2] map_repD(8) [OF r2] x by (metis nth_map)
    have "map_of lus k = Some (snd (lus ! x))"
      using map_repD(5) [OF r2] x by (metis map_of_is_SomeI nth_mem prod.collapse)
    then show ?thesis using bg h lk bg2 v1 v2 by (simp add: k_def)
  qed
qed

lemma mapping_eq_loop_correct:
  assumes eq: "equates D dv s0 N eq" and N: "\<And>v. v \<in> set vs1 \<Longrightarrow> size v < N"
    and r0: "map_rep s0 m1 kvs1" "map_rep s0 m2 kvs2"
    and l0: "list_all2 (denotes s0) (map snd kvs1) vs1" "list_all2 (denotes s0) (map snd kvs2) vs2"
    and D: "(\<Union>v \<in> set vs1. decimals v) \<union> (\<Union>v \<in> set vs2. decimals v) \<subseteq> D"
    and g: "grows s0 s" and wf: "wf_rt s" and n: "i + n = length kvs1"
  shows "case mapping_eq_loop eq m1 m2 n (int i) s of
      Inl e \<Rightarrow> e = OutOfMemory
    | Inr (b, s1) \<Rightarrow> b = veqm dv (drop i (zip (map fst kvs1) vs1)) (zip (map fst kvs2) vs2) \<and> grows s s1"
  using g wf n
proof (induction n arbitrary: i s)
  case 0
  then show ?case by simp
next
  case (Suc n)
  define k where "k = fst (kvs1 ! i)"
  have i: "i < length kvs1" using Suc.prems(3) by simp
  have len: "length vs1 = length kvs1" "length vs2 = length kvs2" using l0 list_all2_lengthD by fastforce+
  note step = mapping_eq_loop_step [OF map_rep_grows [OF r0(1) Suc.prems(1)] map_rep_grows [OF r0(2) Suc.prems(1)] i]
  have dr: "drop i (zip (map fst kvs1) vs1) = (k, vs1 ! i) # drop (Suc i) (zip (map fst kvs1) vs1)"
    using i len(1) by (simp add: Cons_nth_drop_Suc [symmetric] k_def)
  have v1: "denotes s (snd (kvs1 ! i)) (vs1 ! i)" using l0(1) i denotes_mono [OF _ Suc.prems(1)] by (simp add: list_all2_conv_all_nth)
  show ?case
  proof (cases "map_of kvs2 k")
    case None
    then have "map_of (zip (map fst kvs2) vs2) k = None" using len(2) by (auto simp: map_of_eq_None_iff dest: set_zip_leftD)
    then show ?thesis using step None dr by (simp add: k_def del: mapping_eq_loop.simps)
  next
    case (Some u)
    then obtain x where x: "x < length kvs2" "kvs2 ! x = (k, u)" by (metis in_set_conv_nth map_of_SomeD)
    have v2: "denotes s u (vs2 ! x)" using l0(2) x denotes_mono [OF _ Suc.prems(1)] by (auto simp: list_all2_conv_all_nth)
    have mo: "map_of (zip (map fst kvs2) vs2) k = Some (vs2 ! x)"
      using map_of_zip_nth [of "map fst kvs2" vs2 x] len(2) map_repD(5) [OF r0(2)] x by simp
    have "vs1 ! i \<in> set vs1" "vs2 ! x \<in> set vs2" using i x(1) len by simp_all
    then have Dx: "decimals (vs1 ! i) \<union> decimals (vs2 ! x) \<subseteq> D" using D by blast
    have c: "case eq (snd (kvs1 ! i)) u s of
        Inl e \<Rightarrow> e = OutOfMemory | Inr (b, s1) \<Rightarrow> b = veq dv (vs1 ! i) (vs2 ! x) \<and> grows s s1"
      using i len(1) by (intro equatesD [OF eq Suc.prems(1,2) v1 v2 Dx] N) simp
    show ?thesis
    proof (cases "eq (snd (kvs1 ! i)) u s")
      case (Inl e)
      then show ?thesis using c step Some by (simp add: k_def del: mapping_eq_loop.simps)
    next
      case (Inr r)
      obtain b s3 where r: "eq (snd (kvs1 ! i)) u s = Inr (b, s3)" using Inr by (cases r) auto
      have g3: "b = veq dv (vs1 ! i) (vs2 ! x)" "grows s s3" using c r by simp_all
      have wf3: "grows s0 s3" "wf_rt s3" "Suc i + n = length kvs1"
        using g3(2) Suc.prems by (auto intro: grows_wf grows_trans)
      show ?thesis using Suc.IH [OF wf3] step Some r g3 dr mo grows_trans [OF g3(2)]
        by (auto simp: add.commute k_def split: sum.splits simp del: mapping_eq_loop.simps)
    qed
  qed
qed

lemma bal_mapping_eq_internal_correct:
  assumes eq: "equates D dv s (size (VMap fs)) eq" and wf: "wf_rt s" and d: "denotes s p1 (VMap fs)" "denotes s p2 (VMap gs)"
    and D: "decimals (VMap fs) \<union> decimals (VMap gs) \<subseteq> D"
  shows "case bal_mapping_eq_internal eq p1 p2 s of
      Inl e \<Rightarrow> e = OutOfMemory
    | Inr (b, s1) \<Rightarrow> b = veq dv (VMap fs) (VMap gs) \<and> grows s s1"
proof -
  obtain m1 kvs1 vs1 where m1: "heap s (taggedToPtr p1) = Some (ObjMapping m1)" "map_rep s m1 kvs1"
    "list_all2 (denotes s) (map snd kvs1) vs1" "fs = zip (map fst kvs1) vs1" using d(1) by (auto elim!: denotes_mapE)
  obtain m2 kvs2 vs2 where m2: "heap s (taggedToPtr p2) = Some (ObjMapping m2)" "map_rep s m2 kvs2"
    "list_all2 (denotes s) (map snd kvs2) vs2" "gs = zip (map fst kvs2) vs2" using d(2) by (auto elim!: denotes_mapE)
  have at: "mapping_at p1 s = Inr m1" "mapping_at p2 s = Inr m2" using m1(1) m2(1) by (simp_all add: mapping_at_def)
  have len: "length vs1 = length kvs1" "length vs2 = length kvs2" using m1(3) m2(3) list_all2_lengthD by fastforce+
  have al: "arr_length (mo_fArray m1) = int (length kvs1)" "arr_length (mo_fArray m2) = int (length kvs2)"
    using map_repD(9) m1(2) m2(2) by blast+
  show ?thesis
  proof (cases "length kvs2 = length kvs1")
    case False
    then show ?thesis using at al len m1(4) m2(4) by (simp add: bal_mapping_eq_internal_def Let_def)
  next
    case True
    have N: "size v < size (VMap fs)" if "v \<in> set vs1" for v
    proof -
      obtain i where "i < length vs1" "v = vs1 ! i" using \<open>v \<in> set vs1\<close> by (auto simp: in_set_conv_nth)
      then have "(map fst kvs1 ! i, v) \<in> set fs" using m1(4) len(1) nth_mem [of i fs] by simp
      then show ?thesis by (rule size_field)
    qed
    have n: "0 + nat (int (length kvs1)) = length kvs1" by simp
    have "(\<Union>f \<in> set (zip ks vs). decimals (snd f)) = (\<Union>v \<in> set vs. decimals v)" if "length ks = length vs"
      for ks :: "byte list list" and vs using map_snd_zip [OF that] by (metis image_image set_map)
    then have vsD: "(\<Union>v \<in> set vs1. decimals v) \<union> (\<Union>v \<in> set vs2. decimals v) \<subseteq> D" using D len m1(4) m2(4) by simp
    from mapping_eq_loop_correct [OF eq N m1(2) m2(2) m1(3) m2(3) vsD grows_refl wf n] show ?thesis
      using at al len True m1(4) m2(4) by (auto simp: bal_mapping_eq_internal_def Let_def split: sum.splits)
  qed
qed

lemma int_at_boxed: "boxed TAG_INT s p (ObjInt n) \<Longrightarrow> int_at p s = Inr n"
  using getTag_boxed(3) [of TAG_INT s p "ObjInt n"] by (simp add: int_at_def)

lemma str_rep_immediate: "str_rep s p bs \<Longrightarrow> immediate_rep bs \<Longrightarrow> p = immediate_bits bs"
  by (simp add: str_rep_def)

text \<open>
  Two pointers that differ and have the same tag, to values without members: what their
  representations can be.
\<close>

definition leaf :: "val \<Rightarrow> bool" where
  "leaf v \<longleftrightarrow> val_tag v \<noteq> TAG_LIST \<and> val_tag v \<noteq> TAG_MAPPING"

lemma leaf_pair_cases:
  assumes d: "denotes s t1 v1" "denotes s t2 v2" and ne: "t1 \<noteq> t2" and tag: "val_getTag v1 = val_getTag v2" and lf: "leaf v1"
  obtains (bool) a where "v1 = VBool a" "v2 = VBool (\<not> a)" "val_getTag v1 = TAG_BOOLEAN"
    | (immediate_int) m n where "v1 = VInt m" "v2 = VInt n" "m \<noteq> n" "val_getTag v1 = 0x22"
    | (int) m n where "v1 = VInt m" "v2 = VInt n" "int_at t1 s = Inr m" "int_at t2 s = Inr n" "val_getTag v1 = TAG_INT"
    | (float) x y where "v1 = VFloat x" "v2 = VFloat y" "taggedToFloat t1 s = Inr x" "taggedToFloat t2 s = Inr y" "val_getTag v1 = TAG_FLOAT"
    | (dec) x y where "v1 = VDec x" "v2 = VDec y" "boxed TAG_DECIMAL s t1 (ObjDecimal x)" "boxed TAG_DECIMAL s t2 (ObjDecimal y)" "val_getTag v1 = TAG_DECIMAL"
    | (immediate_string) as bs where "v1 = VStr as" "v2 = VStr bs" "as \<noteq> bs" "val_getTag v1 = 0x25"
    | (string) as bs where "v1 = VStr as" "v2 = VStr bs" "taggedStringEqual t1 t2 s = Inr (as = bs)" "val_getTag v1 = TAG_STRING"
proof (cases v1)
  case VNil
  then have "v2 = VNil" using tag by (cases v2) (auto split: if_splits)
  then have False using VNil d ne by (auto elim!: denotes_nilE)
  then show thesis ..
next
  case (VBool a)
  then obtain b where v2: "v2 = VBool b" using tag by (cases v2) (auto split: if_splits)
  then have "b = (\<not> a)" using VBool d ne by (auto elim!: denotes_boolE split: if_splits)
  then show thesis using bool VBool v2 by simp
next
  case (VInt m)
  then obtain k where v2: "v2 = VInt k" using tag by (cases v2) (auto split: if_splits)
  have r: "int_rep s t1 m" "int_rep s t2 k" using d VInt v2 by (auto elim!: denotes_intE)
  show thesis
  proof (cases "IMMEDIATE_INT_MIN \<le> m \<and> m \<le> IMMEDIATE_INT_MAX")
    case True
    then have "m \<noteq> k" using r ne by (auto simp: int_rep_def)
    then show thesis using immediate_int VInt v2 True by simp
  next
    case False
    then have "\<not> (IMMEDIATE_INT_MIN \<le> k \<and> k \<le> IMMEDIATE_INT_MAX)" using tag VInt v2 by (auto split: if_splits)
    then have "int_at t1 s = Inr m" "int_at t2 s = Inr k" using False r int_at_boxed by (metis int_rep_cases)+
    then show thesis using int [OF VInt v2] False VInt by auto
  qed
next
  case (VFloat x)
  then obtain y where v2: "v2 = VFloat y" using tag by (cases v2) (auto split: if_splits)
  have "taggedToFloat t1 s = Inr x" "taggedToFloat t2 s = Inr y"
    using d VFloat v2 taggedToFloat_boxed by (auto elim!: denotes_floatE)
  then show thesis using float VFloat v2 by simp
next
  case (VDec x)
  then obtain y where v2: "v2 = VDec y" using tag by (cases v2) (auto split: if_splits)
  have "boxed TAG_DECIMAL s t1 (ObjDecimal x)" "boxed TAG_DECIMAL s t2 (ObjDecimal y)"
    using d VDec v2 by (auto elim!: denotes_decE)
  then show thesis using dec VDec v2 by simp
next
  case (VStr as)
  then obtain bs where v2: "v2 = VStr bs" using tag by (cases v2) (auto split: if_splits)
  have r: "str_rep s t1 as" "str_rep s t2 bs" using d VStr v2 by (auto elim!: denotes_strE)
  show thesis
  proof (cases "immediate_rep as")
    case True
    then have "as \<noteq> bs" using r ne str_rep_immediate by blast
    then show thesis using immediate_string VStr v2 True by simp
  next
    case False
    then show thesis using string [OF VStr v2 taggedStringEqual_rep [OF r]] VStr by simp
  qed
qed (use lf in \<open>auto simp: leaf_def\<close>)

lemma taggedPtrEq_leaf:
  assumes d: "denotes s t1 v1" "denotes s t2 v2" and dq: "compares_values (img s) D dv" "decimals v1 \<union> decimals v2 \<subseteq> D" and ne: "t1 \<noteq> t2"
    and tag: "val_getTag v1 = val_getTag v2" and lf: "leaf v1"
  shows "taggedPtrEq (Suc n) t1 t2 stack s = Inr (veq dv v1 v2, s)"
proof -
  have t: "getTag t1 = val_getTag v1" "getTag t2 = val_getTag v1" using denotes_getTag d tag by simp_all
  from d ne tag lf show ?thesis
    by (cases rule: leaf_pair_cases) (use t ne dq(2) bal_decimal_cmp_denotes [OF _ _ dq(1)] in auto)
qed

text \<open>The pairs on the stack are being compared: their values are larger than the current one.\<close>

definition stack_above :: "rt \<Rightarrow> eq_stack \<Rightarrow> nat \<Rightarrow> bool" where
  "stack_above s stack n \<longleftrightarrow> (\<forall>(q1, q2) \<in> set stack. \<exists>w. denotes s q1 w \<and> n \<le> size w)"

lemma stack_above_mono: "stack_above s stack n \<Longrightarrow> grows s s1 \<Longrightarrow> m \<le> n \<Longrightarrow> stack_above s1 stack m"
  unfolding stack_above_def by (fastforce intro: denotes_mono)

lemma stack_above_new: "stack_above s stack n \<Longrightarrow> denotes s t1 v1 \<Longrightarrow> size v1 < n \<Longrightarrow> (t1, t2) \<notin> set stack"
  unfolding stack_above_def using denotes_fun by fastforce

lemma taggedPtrEq_correct:
  assumes "wf_rt s" "compares_values (img s) D dv" "denotes s t1 v1" "denotes s t2 v2" "size v1 < d" "stack_above s stack (Suc (size v1))"
    "decimals v1 \<union> decimals v2 \<subseteq> D"
  shows "case taggedPtrEq d t1 t2 stack s of Inl e \<Rightarrow> e = OutOfMemory | Inr (b, s1) \<Rightarrow> b = veq dv v1 v2 \<and> grows s s1"
  using assms
proof (induction d arbitrary: s t1 t2 v1 v2 stack)
  case 0
  then show ?case by simp
next
  case (Suc d)
  let ?eq = "\<lambda>a b. taggedPtrEq d a b ((t1, t2) # stack)"
  have new: "(t1, t2) \<notin> set stack" using stack_above_new [OF Suc.prems(6,3)] by simp
  have eq: "equates D dv s (size v1) ?eq" unfolding equates_def
  proof (intro allI impI)
    fix s' u1 u2 w1 w2
    assume a: "grows s s'" "wf_rt s'" "denotes s' u1 w1" "denotes s' u2 w2" "decimals w1 \<union> decimals w2 \<subseteq> D" "size w1 < size v1"
    have "stack_above s' ((t1, t2) # stack) (Suc (size w1))"
      using stack_above_mono [OF Suc.prems(6) a(1), of "Suc (size w1)"] denotes_mono [OF Suc.prems(3) a(1)] a(6)
      by (auto simp: stack_above_def)
    then show "case ?eq u1 u2 s' of Inl e \<Rightarrow> e = OutOfMemory | Inr (b, s1) \<Rightarrow> b = veq dv w1 w2 \<and> grows s' s1"
      using Suc.prems(2,5) a by (intro Suc.IH) (simp_all add: grows_img)
  qed
  have t: "getTag t1 = val_getTag v1" "getTag t2 = val_getTag v2" using denotes_getTag Suc.prems(3,4) by simp_all
  show ?case
  proof (cases "t1 = t2 \<or> val_getTag v1 \<noteq> val_getTag v2")
    case True
    show ?thesis
    proof (cases "t1 = t2")
      case True
      then have "v2 = v1" using Suc.prems(3,4) denotes_fun by blast
      then show ?thesis using True veq_refl denotes_distinct_keys [OF Suc.prems(3)] by simp
    next
      case False
      then have "val_getTag v1 \<noteq> val_getTag v2" using True by simp
      then have "\<not> veq dv v1 v2" using veq_getTag by blast
      then show ?thesis using False True t by simp
    qed
  next
    case False
    then have ne: "t1 \<noteq> t2" and tag: "val_getTag v1 = val_getTag v2" by simp_all
    consider vs ws where "v1 = VList vs" "v2 = VList ws" | fs gs where "v1 = VMap fs" "v2 = VMap gs"
      | "leaf v1"
      using tag by (cases v1; cases v2) (auto simp: leaf_def split: if_splits)
    then show ?thesis
    proof cases
      case 1
      from bal_list_eq_internal_correct [OF eq [unfolded 1] Suc.prems(1) Suc.prems(3,4,7) [unfolded 1]]
      show ?thesis using ne t tag new unfolding 1 by simp
    next
      case 2
      from bal_mapping_eq_internal_correct [OF eq [unfolded 2] Suc.prems(1) Suc.prems(3,4,7) [unfolded 2]]
      show ?thesis using ne t tag new unfolding 2 by simp
    next
      case 3
      from taggedPtrEq_leaf [OF Suc.prems(3,4,2,7) ne tag 3] show ?thesis by (simp del: taggedPtrEq.simps)
    qed
  qed
qed

end
