(* ===== verification/Rt_Equality_Graph.thy ===== *)
theory Rt_Equality_Graph
  imports Rt_Equality_Props
begin

text \<open>
  Equality on values with cycles and sharing. A finite set of structures closed under members is a
  graph; two of its nodes are equal when a bisimulation relates them. \<open>taggedPtrEq\<close>, whose stack
  holds the pairs under comparison, always ends on a graph and decides bisimilarity.
\<close>

section \<open>Views of structures\<close>

text \<open>
  A member of a list is a pointer, or a value that has no pointer until it is read (the members of
  the primitive lists).
\<close>

type_synonym view = "tagged + val"

definition list_view :: "rt \<Rightarrow> tagged \<Rightarrow> view list \<Rightarrow> bool" where
  "list_view s p xs \<longleftrightarrow>
     (\<exists>ap. list_obj_at s p GenericList (TpArray ap) \<and> arr_inv 1 ap \<and> xs = map Inl (arr_list ap)) \<or>
     (\<exists>vs r a. list_obj_at s p r a \<and> r \<noteq> GenericList \<and> denotes s p (VList vs) \<and> xs = map Inr vs)"

definition map_view :: "rt \<Rightarrow> tagged \<Rightarrow> (byte list \<times> tagged) list \<Rightarrow> bool" where
  "map_view s p kts \<longleftrightarrow>
     (\<exists>m. getTag p = TAG_MAPPING \<and> heap s (taggedToPtr p) = Some (ObjMapping m) \<and> map_rep s m kts)"

fun view_leaf :: "rt \<Rightarrow> view \<Rightarrow> val \<Rightarrow> bool" where
  "view_leaf s (Inl t) v \<longleftrightarrow> denotes s t v \<and> leaf v"
| "view_leaf s (Inr w) v \<longleftrightarrow> w = v \<and> leaf v \<and> decimals v = {}"

fun reads :: "rt \<Rightarrow> view \<Rightarrow> tagged \<Rightarrow> bool" where
  "reads s (Inl t) u \<longleftrightarrow> u = t"
| "reads s (Inr v) u \<longleftrightarrow> denotes s u v"

definition view_ok :: "rt \<Rightarrow> tagged set \<Rightarrow> view \<Rightarrow> bool" where
  "view_ok s U x \<longleftrightarrow> (\<exists>t \<in> U. x = Inl t) \<or> (\<exists>v. view_leaf s x v)"

definition value_graph :: "rt \<Rightarrow> tagged set \<Rightarrow> bool" where
  "value_graph s U \<longleftrightarrow> finite U \<and>
     (\<forall>p \<in> U. (\<exists>xs. list_view s p xs \<and> (\<forall>x \<in> set xs. view_ok s U x)) \<or>
              (\<exists>kts. map_view s p kts \<and> (\<forall>kt \<in> set kts. view_ok s U (Inl (snd kt)))))"

lemma list_view_getTag: "list_view s p xs \<Longrightarrow> getTag p = TAG_LIST"
  by (auto simp: list_view_def list_obj_at_def)

lemma map_view_getTag: "map_view s p kts \<Longrightarrow> getTag p = TAG_MAPPING"
  by (auto simp: map_view_def)

lemma list_obj_at_fun_repr: "list_obj_at s p r a \<Longrightarrow> list_obj_at s p r' a' \<Longrightarrow> r = r'"
  by (auto simp: list_obj_at_def)

lemma list_view_fun: "list_view s p xs \<Longrightarrow> list_view s p ys \<Longrightarrow> xs = ys"
  unfolding list_view_def using list_obj_at_fun list_obj_at_fun_repr denotes_fun
  by (metis list_array.inject(1) val.inject(6))

lemma map_view_fun: "map_view s p kts \<Longrightarrow> map_view s p lus \<Longrightarrow> kts = lus"
  by (auto simp: map_view_def intro: map_rep_fun)

lemma view_leaf_getTag: "view_leaf s (Inl t) v \<Longrightarrow> getTag t \<noteq> TAG_LIST \<and> getTag t \<noteq> TAG_MAPPING"
  by (cases v) (auto simp: leaf_def denotes_getTag)

text \<open>
  The decimals in memory; every decimal among the values without members is one of them, since the primitive
  lists hold integers and floats.
\<close>

definition heap_decimals :: "rt \<Rightarrow> decQuad set" where
  "heap_decimals s = {x. \<exists>q. heap s q = Some (ObjDecimal x)}"

lemma view_leaf_decimals: "view_leaf s x v \<Longrightarrow> decimals v \<subseteq> heap_decimals s"
  by (cases x; cases v) (auto simp: leaf_def heap_decimals_def boxed_def elim!: denotes_decE)

lemma reads_mono: "reads s x t \<Longrightarrow> grows s s1 \<Longrightarrow> reads s1 x t"
  by (cases x) (auto intro: denotes_mono)

lemma reads_leaf: "view_leaf s0 x v \<Longrightarrow> reads s x t \<Longrightarrow> grows s0 s \<Longrightarrow> denotes s t v"
  by (cases x) (auto intro: denotes_mono)

lemma list_view_length:
  assumes "list_view s0 p xs" "grows s0 s"
  shows "\<exists>lp. list_at p s = Inr lp \<and> array_length (lo_array lp) = int (length xs)"
  using assms(1) unfolding list_view_def
proof (elim disjE exE conjE)
  fix ap assume a: "list_obj_at s0 p GenericList (TpArray ap)" "arr_inv 1 ap" "xs = map Inl (arr_list ap)"
  then show ?thesis using list_obj_at_mono [OF a(1) assms(2)] arr_list_length1 [OF a(2)]
    by (auto simp: list_obj_at_def list_at_def array_length_def)
next
  fix vs r a assume a: "denotes s0 p (VList vs)" "xs = map Inr vs"
  then show ?thesis using list_length_denotes [OF denotes_mono [OF a(1) assms(2)]] by simp
qed

lemma list_get_view:
  assumes "list_view s0 p xs" "grows s0 s" "wf_rt s" "i < length xs"
  shows "case list_get p (int i) s of Inl e \<Rightarrow> e = OutOfMemory | Inr (t, s1) \<Rightarrow> reads s1 (xs ! i) t \<and> grows s s1"
  using assms(1) unfolding list_view_def
proof (elim disjE exE conjE)
  fix ap assume a: "list_obj_at s0 p GenericList (TpArray ap)" "arr_inv 1 ap" "xs = map Inl (arr_list ap)"
  have g: "block_get (arr_members ap) (int i) = Inr (arr_list ap ! i)"
    using block_get_arr_list [OF a(2), of "int i"] arr_list_length1 [OF a(2)] a(3) assms(4) by simp
  show ?thesis using list_obj_at_mono [OF a(1) assms(2)] g a(3) assms(4)
    by (auto simp: list_obj_at_def list_get_def list_at_def bal_list_generic_get_tagged_def tpArray_def)
next
  fix vs r a assume a: "denotes s0 p (VList vs)" "xs = map Inr vs"
  then show ?thesis using list_get_denotes [OF denotes_mono [OF a(1) assms(2)] _ assms(3), of i] assms(4)
    by (auto split: sum.splits)
qed

section \<open>Bisimulation\<close>

text \<open>Two members are related by \<open>R\<close>, or are the same pointer, or are equal values without members.\<close>

inductive related :: "(decQuad \<Rightarrow> int) \<Rightarrow> rt \<Rightarrow> (tagged \<times> tagged) set \<Rightarrow> view \<Rightarrow> view \<Rightarrow> bool"
  for dv :: "decQuad \<Rightarrow> int" and s :: rt and R :: "(tagged \<times> tagged) set" where
  pair: "(t, u) \<in> R \<Longrightarrow> related dv s R (Inl t) (Inl u)"
| same: "related dv s R (Inl t) (Inl t)"
| leaves: "view_leaf s x v \<Longrightarrow> view_leaf s y w \<Longrightarrow> veq dv v w \<Longrightarrow> related dv s R x y"

definition fields_related ::
  "(decQuad \<Rightarrow> int) \<Rightarrow> rt \<Rightarrow> (tagged \<times> tagged) set \<Rightarrow> (byte list \<times> tagged) list \<Rightarrow> (byte list \<times> tagged) list \<Rightarrow> bool" where
  "fields_related dv s R kts lus \<longleftrightarrow>
     (\<forall>(k, t) \<in> set kts. \<exists>u. map_of lus k = Some u \<and> related dv s R (Inl t) (Inl u))"

definition step :: "(decQuad \<Rightarrow> int) \<Rightarrow> rt \<Rightarrow> (tagged \<times> tagged) set \<Rightarrow> tagged \<times> tagged \<Rightarrow> bool" where
  "step dv s R = (\<lambda>(p, q). p = q \<or>
     (\<exists>xs ys. list_view s p xs \<and> list_view s q ys \<and> list_all2 (related dv s R) xs ys) \<or>
     (\<exists>kts lus. map_view s p kts \<and> map_view s q lus \<and> length kts = length lus \<and> fields_related dv s R kts lus))"

definition bisim :: "(decQuad \<Rightarrow> int) \<Rightarrow> rt \<Rightarrow> (tagged \<times> tagged) set \<Rightarrow> bool" where
  "bisim dv s R \<longleftrightarrow> (\<forall>pq \<in> R. step dv s R pq)"

definition bisimilar :: "(decQuad \<Rightarrow> int) \<Rightarrow> rt \<Rightarrow> tagged \<Rightarrow> tagged \<Rightarrow> bool" where
  "bisimilar dv s p q \<longleftrightarrow> (\<exists>R. bisim dv s R \<and> related dv s R (Inl p) (Inl q))"

lemma related_mono: "R \<subseteq> R' \<Longrightarrow> related dv s R x y \<Longrightarrow> related dv s R' x y"
  by (auto elim!: related.cases intro: related.intros)

lemma fields_related_mono: "R \<subseteq> R' \<Longrightarrow> fields_related dv s R kts lus \<Longrightarrow> fields_related dv s R' kts lus"
  unfolding fields_related_def using related_mono [of R R' dv s] by fastforce

lemma members_related_mono: "R \<subseteq> R' \<Longrightarrow> list_all2 (related dv s R) xs ys \<Longrightarrow> list_all2 (related dv s R') xs ys"
  by (erule list_all2_mono) (rule related_mono)

lemma step_mono: "R \<subseteq> R' \<Longrightarrow> step dv s R pq \<Longrightarrow> step dv s R' pq"
  unfolding step_def case_prod_beta
  by (elim disjE exE conjE) (meson members_related_mono fields_related_mono)+

text \<open>
  The outcome \<open>b\<close> of a comparison under the pairs \<open>st\<close> of the stack: a positive answer has a set of pairs
  that is a bisimulation up to \<open>st\<close>, a negative one excludes every bisimulation.
\<close>

definition verdict ::
  "(decQuad \<Rightarrow> int) \<Rightarrow> rt \<Rightarrow> (tagged \<times> tagged) set \<Rightarrow> bool \<Rightarrow> ((tagged \<times> tagged) set \<Rightarrow> bool) \<Rightarrow> bool" where
  "verdict dv s st b P \<longleftrightarrow>
     (if b then \<exists>V. (\<forall>pq \<in> V. step dv s (V \<union> st) pq) \<and> P (V \<union> st) else \<forall>R. bisim dv s R \<longrightarrow> \<not> P R)"

lemma verdict_trivial: "P st \<Longrightarrow> verdict dv s st True P"
  unfolding verdict_def by (auto intro: exI [of _ "{}"])

lemma verdict_conj:
  assumes "verdict dv s st a P" a "verdict dv s st b Q" and mono: "\<And>R R'. R \<subseteq> R' \<Longrightarrow> P R \<Longrightarrow> P R'" "\<And>R R'. R \<subseteq> R' \<Longrightarrow> Q R \<Longrightarrow> Q R'"
  shows "verdict dv s st b (\<lambda>R. P R \<and> Q R)"
proof (cases b)
  case True
  obtain V where V: "\<forall>pq \<in> V. step dv s (V \<union> st) pq" "P (V \<union> st)" using assms(1,2) by (auto simp: verdict_def)
  obtain W where W: "\<forall>pq \<in> W. step dv s (W \<union> st) pq" "Q (W \<union> st)" using assms(3) True by (auto simp: verdict_def)
  have sub: "V \<union> st \<subseteq> (V \<union> W) \<union> st" "W \<union> st \<subseteq> (V \<union> W) \<union> st" by auto
  have "\<forall>pq \<in> V \<union> W. step dv s ((V \<union> W) \<union> st) pq" using V(1) W(1) step_mono [OF sub(1)] step_mono [OF sub(2)] by blast
  moreover have "P ((V \<union> W) \<union> st)" "Q ((V \<union> W) \<union> st)" using mono(1) [OF sub(1) V(2)] mono(2) [OF sub(2) W(2)] by simp_all
  ultimately show ?thesis using True unfolding verdict_def by auto
next
  case False
  then show ?thesis using assms(3) by (auto simp: verdict_def)
qed

lemma verdict_weaken: "verdict dv s st b P \<Longrightarrow> \<not> b \<Longrightarrow> (\<And>R. Q R \<Longrightarrow> P R) \<Longrightarrow> verdict dv s st b Q"
  by (auto simp: verdict_def)

text \<open>The pair under comparison moves from the stack into the bisimulation.\<close>

lemma verdict_pop:
  assumes v: "verdict dv s (insert (t1, t2) st) b P" and ne: "t1 \<noteq> t2"
    and st: "\<And>R. P R \<Longrightarrow> step dv s R (t1, t2)"
    and inv: "\<And>R. step dv s R (t1, t2) \<Longrightarrow> P R" and tag: "getTag t1 = TAG_LIST \<or> getTag t1 = TAG_MAPPING"
  shows "verdict dv s st b (\<lambda>R. related dv s R (Inl t1) (Inl t2))"
proof (cases b)
  case True
  then obtain V where V: "\<forall>pq \<in> V. step dv s (V \<union> insert (t1, t2) st) pq" "P (V \<union> insert (t1, t2) st)"
    using v by (auto simp: verdict_def)
  have eq: "V \<union> insert (t1, t2) st = insert (t1, t2) V \<union> st" by simp
  have "\<forall>pq \<in> insert (t1, t2) V. step dv s (insert (t1, t2) V \<union> st) pq" using V st unfolding eq by simp
  then show ?thesis using True unfolding verdict_def by (auto intro!: exI [of _ "insert (t1, t2) V"] related.pair)
next
  case False
  then have no: "\<not> P R" if "bisim dv s R" for R using v that by (simp add: verdict_def)
  have "\<not> related dv s R (Inl t1) (Inl t2)" if R: "bisim dv s R" for R
  proof
    assume "related dv s R (Inl t1) (Inl t2)"
    then have "(t1, t2) \<in> R" using ne tag view_leaf_getTag [of s t1] by (cases rule: related.cases) auto
    then have "step dv s R (t1, t2)" using R by (simp add: bisim_def)
    then show False using inv no [OF R] by blast
  qed
  then show ?thesis using False by (simp add: verdict_def)
qed

section \<open>Equality decides bisimilarity\<close>

definition decides ::
  "(decQuad \<Rightarrow> int) \<Rightarrow> rt \<Rightarrow> tagged set \<Rightarrow> (tagged \<times> tagged) set \<Rightarrow> (tagged \<Rightarrow> tagged \<Rightarrow> rt \<Rightarrow> fault + bool \<times> rt) \<Rightarrow> bool" where
  "decides dv s0 U st eq \<longleftrightarrow>
     (\<forall>s x y t1 t2. grows s0 s \<longrightarrow> wf_rt s \<longrightarrow> view_ok s0 U x \<longrightarrow> view_ok s0 U y \<longrightarrow> reads s x t1 \<longrightarrow> reads s y t2 \<longrightarrow>
        (case eq t1 t2 s of
           Inl e \<Rightarrow> e = OutOfMemory
         | Inr (b, s1) \<Rightarrow> grows s s1 \<and> verdict dv s0 st b (\<lambda>R. related dv s0 R x y)))"

lemma decidesD:
  assumes "decides dv s0 U st eq" "grows s0 s" "wf_rt s" "view_ok s0 U x" "view_ok s0 U y" "reads s x t1" "reads s y t2"
  shows "case eq t1 t2 s of
      Inl e \<Rightarrow> e = OutOfMemory
    | Inr (b, s1) \<Rightarrow> grows s s1 \<and> verdict dv s0 st b (\<lambda>R. related dv s0 R x y)"
  using assms unfolding decides_def by blast

lemma list_eq_loop_decides:
  assumes eq: "decides dv s0 U st eq"
    and v: "list_view s0 p1 xs" "list_view s0 p2 ys" and ok: "\<forall>x \<in> set xs. view_ok s0 U x" "\<forall>y \<in> set ys. view_ok s0 U y"
    and g: "grows s0 s" and wf: "wf_rt s" and n: "i + n = length xs" "length ys = length xs"
  shows "case list_eq_loop eq p1 p2 n (int i) s of
      Inl e \<Rightarrow> e = OutOfMemory
    | Inr (b, s1) \<Rightarrow> grows s s1 \<and> verdict dv s0 st b (\<lambda>R. list_all2 (related dv s0 R) (drop i xs) (drop i ys))"
  using g wf n(1)
proof (induction n arbitrary: i s)
  case 0
  then show ?case using n(2) by (auto intro: verdict_trivial)
next
  case (Suc n)
  have i: "i < length xs" "i < length ys" using Suc.prems(3) n(2) by simp_all
  have dr: "drop i xs = xs ! i # drop (Suc i) xs" "drop i ys = ys ! i # drop (Suc i) ys" using i by (simp_all add: Cons_nth_drop_Suc)
  show ?case unfolding list_eq_loop.simps
  proof (rule seq_outcome [OF list_get_view [OF v(1) Suc.prems(1,2) i(1)]], goal_cases)
    case r1: (1 t1 s1)
    then have w1: "grows s0 s1" "wf_rt s1" using Suc.prems(1,2) by (auto intro: grows_trans grows_wf)
    show ?case
    proof (rule seq_outcome [OF list_get_view [OF v(2) w1 i(2)]], goal_cases)
      case r2: (1 t2 s2)
      then have w2: "grows s0 s2" "wf_rt s2" "grows s s2" using w1 r1 by (auto intro: grows_trans grows_wf)
      have o: "view_ok s0 U (xs ! i)" "view_ok s0 U (ys ! i)" "reads s2 (xs ! i) t1" "reads s2 (ys ! i) t2"
        using i ok r1 r2 reads_mono by auto
      show ?case
      proof (rule seq_outcome [OF decidesD [OF eq w2(1,2) o]], goal_cases)
        case (1 b s3)
        then have g3: "grows s s3" "verdict dv s0 st b (\<lambda>R. related dv s0 R (xs ! i) (ys ! i))" using w2(3) by (auto intro: grows_trans)
        have w3: "grows s0 s3" "wf_rt s3" "Suc i + n = length xs" using g3(1) Suc.prems by (auto intro: grows_trans grows_wf)
        have "verdict dv s0 st b (\<lambda>R. list_all2 (related dv s0 R) (drop i xs) (drop i ys))" if "\<not> b"
          by (rule verdict_weaken [OF g3(2)]) (use that in \<open>simp_all add: dr\<close>)
        moreover have "verdict dv s0 st b' (\<lambda>R. list_all2 (related dv s0 R) (drop i xs) (drop i ys))"
          if "verdict dv s0 st b' (\<lambda>R. list_all2 (related dv s0 R) (drop (Suc i) xs) (drop (Suc i) ys))" b for b'
          unfolding dr list_all2_Cons by (rule verdict_conj [OF g3(2) that(2,1)]) (blast intro: related_mono members_related_mono)+
        ultimately show ?case using Suc.IH [OF w3] g3(1) grows_trans [OF g3(1)] by (auto simp: add.commute split: sum.splits)
      qed
    qed
  qed
qed

lemma fields_related_step:
  "i < length kts \<Longrightarrow> fields_related dv s R (drop i kts) lus \<longleftrightarrow>
     (\<exists>u. map_of lus (fst (kts ! i)) = Some u \<and> related dv s R (Inl (snd (kts ! i))) (Inl u)) \<and>
     fields_related dv s R (drop (Suc i) kts) lus"
  by (cases "kts ! i") (simp add: fields_related_def Cons_nth_drop_Suc [symmetric])

lemma mapping_eq_loop_decides:
  assumes eq: "decides dv s0 U st eq"
    and r: "map_rep s0 m1 kts" "map_rep s0 m2 lus"
    and ok: "\<forall>kt \<in> set kts. view_ok s0 U (Inl (snd kt))" "\<forall>lu \<in> set lus. view_ok s0 U (Inl (snd lu))"
    and g: "grows s0 s" and wf: "wf_rt s" and n: "i + n = length kts"
  shows "case mapping_eq_loop eq m1 m2 n (int i) s of
      Inl e \<Rightarrow> e = OutOfMemory
    | Inr (b, s1) \<Rightarrow> grows s s1 \<and> verdict dv s0 st b (\<lambda>R. fields_related dv s0 R (drop i kts) lus)"
  using g wf n
proof (induction n arbitrary: i s)
  case 0
  then show ?case by (auto simp: fields_related_def intro: verdict_trivial)
next
  case (Suc n)
  have i: "i < length kts" using Suc.prems(3) by simp
  note step = mapping_eq_loop_step [OF map_rep_grows [OF r(1) Suc.prems(1)] map_rep_grows [OF r(2) Suc.prems(1)] i]
  note fr = fields_related_step [OF i, of dv s0 _ lus]
  show ?case
  proof (cases "map_of lus (fst (kts ! i))")
    case None
    have "verdict dv s0 st False (\<lambda>R. fields_related dv s0 R (drop i kts) lus)" by (simp add: verdict_def fr None)
    then show ?thesis using None step by (simp del: mapping_eq_loop.simps)
  next
    case (Some u)
    have ok': "view_ok s0 U (Inl (snd (kts ! i)))" "view_ok s0 U (Inl u)" using ok i map_of_SomeD [OF Some] by auto
    have c: "case eq (snd (kts ! i)) u s of Inl e \<Rightarrow> e = OutOfMemory
        | Inr (b, s1) \<Rightarrow> grows s s1 \<and> verdict dv s0 st b (\<lambda>R. related dv s0 R (Inl (snd (kts ! i))) (Inl u))"
      by (rule decidesD [OF eq Suc.prems(1,2) ok']) simp_all
    show ?thesis
    proof (cases "eq (snd (kts ! i)) u s")
      case (Inl e)
      then show ?thesis using c Some step by (simp del: mapping_eq_loop.simps)
    next
      case (Inr r3)
      obtain b s3 where r3: "eq (snd (kts ! i)) u s = Inr (b, s3)" using Inr by (cases r3) auto
      have g3: "grows s s3" "verdict dv s0 st b (\<lambda>R. related dv s0 R (Inl (snd (kts ! i))) (Inl u))"
        using c r3 by auto
      show ?thesis
      proof (cases b)
        case False
        have "verdict dv s0 st b (\<lambda>R. fields_related dv s0 R (drop i kts) lus)"
          by (rule verdict_weaken [OF g3(2) False]) (simp add: fr Some)
        then show ?thesis using False Some step r3 g3(1) by (simp del: mapping_eq_loop.simps)
      next
        case True
        have w3: "grows s0 s3" "wf_rt s3" "Suc i + n = length kts" using g3(1) Suc.prems by (auto intro: grows_trans grows_wf)
        have cj: "verdict dv s0 st b' (\<lambda>R. fields_related dv s0 R (drop i kts) lus)"
          if "verdict dv s0 st b' (\<lambda>R. fields_related dv s0 R (drop (Suc i) kts) lus)" for b'
          using verdict_conj [OF g3(2) True that related_mono fields_related_mono] by (simp add: fr Some)
        show ?thesis using Suc.IH [OF w3] True Some step r3 cj grows_trans [OF g3(1)]
          by (auto simp: add.commute simp del: mapping_eq_loop.simps split: sum.splits)
      qed
    qed
  qed
qed

lemma bal_list_eq_internal_decides:
  assumes eq: "decides dv s0 U (insert (p1, p2) st) eq" and ne: "p1 \<noteq> p2"
    and v: "list_view s0 p1 xs" "list_view s0 p2 ys" and ok: "\<forall>x \<in> set xs. view_ok s0 U x" "\<forall>y \<in> set ys. view_ok s0 U y"
    and g: "grows s0 s" and wf: "wf_rt s"
  shows "case bal_list_eq_internal eq p1 p2 s of
      Inl e \<Rightarrow> e = OutOfMemory
    | Inr (b, s1) \<Rightarrow> grows s s1 \<and> verdict dv s0 st b (\<lambda>R. related dv s0 R (Inl p1) (Inl p2))"
proof -
  obtain lp1 where l1: "list_at p1 s = Inr lp1" "array_length (lo_array lp1) = int (length xs)" using list_view_length [OF v(1) g] by blast
  obtain lp2 where l2: "list_at p2 s = Inr lp2" "array_length (lo_array lp2) = int (length ys)" using list_view_length [OF v(2) g] by blast
  have tag: "getTag p1 = TAG_LIST" using v(1) by (rule list_view_getTag)
  have st: "step dv s0 R (p1, p2) \<longleftrightarrow> list_all2 (related dv s0 R) xs ys" for R
    using ne v tag by (auto simp: step_def dest: list_view_fun map_view_getTag)
  have pop: "verdict dv s0 st b (\<lambda>R. related dv s0 R (Inl p1) (Inl p2))"
    if "verdict dv s0 (insert (p1, p2) st) b (\<lambda>R. list_all2 (related dv s0 R) xs ys)" for b
    using that ne by (rule verdict_pop) (use st tag in simp_all)
  show ?thesis
  proof (cases "length ys = length xs")
    case False
    then have "verdict dv s0 (insert (p1, p2) st) False (\<lambda>R. list_all2 (related dv s0 R) xs ys)"
      by (auto simp: verdict_def dest: list_all2_lengthD)
    then show ?thesis using False l1 l2 pop by (simp add: bal_list_eq_internal_def Let_def)
  next
    case True
    have n: "0 + nat (int (length xs)) = length xs" by simp
    from list_eq_loop_decides [OF eq v ok g wf n True] show ?thesis
      using l1 l2 True pop by (auto simp: bal_list_eq_internal_def Let_def split: sum.splits)
  qed
qed

lemma bal_mapping_eq_internal_decides:
  assumes eq: "decides dv s0 U (insert (p1, p2) st) eq" and ne: "p1 \<noteq> p2"
    and v: "map_view s0 p1 kts" "map_view s0 p2 lus"
    and ok: "\<forall>kt \<in> set kts. view_ok s0 U (Inl (snd kt))" "\<forall>lu \<in> set lus. view_ok s0 U (Inl (snd lu))"
    and g: "grows s0 s" and wf: "wf_rt s"
  shows "case bal_mapping_eq_internal eq p1 p2 s of
      Inl e \<Rightarrow> e = OutOfMemory
    | Inr (b, s1) \<Rightarrow> grows s s1 \<and> verdict dv s0 st b (\<lambda>R. related dv s0 R (Inl p1) (Inl p2))"
proof -
  obtain m1 where m1: "heap s0 (taggedToPtr p1) = Some (ObjMapping m1)" "map_rep s0 m1 kts" using v(1) by (auto simp: map_view_def)
  obtain m2 where m2: "heap s0 (taggedToPtr p2) = Some (ObjMapping m2)" "map_rep s0 m2 lus" using v(2) by (auto simp: map_view_def)
  have at: "mapping_at p1 s = Inr m1" "mapping_at p2 s = Inr m2"
    using grows_heap [OF g m1(1)] grows_heap [OF g m2(1)] by (simp_all add: mapping_at_def)
  have al: "arr_length (mo_fArray m1) = int (length kts)" "arr_length (mo_fArray m2) = int (length lus)"
    using map_repD(9) m1(2) m2(2) by blast+
  have tag: "getTag p1 = TAG_MAPPING" using v(1) by (rule map_view_getTag)
  have st: "step dv s0 R (p1, p2) \<longleftrightarrow> length kts = length lus \<and> fields_related dv s0 R kts lus" for R
    using ne v tag by (auto simp: step_def dest: map_view_fun list_view_getTag)
  have pop: "verdict dv s0 st b (\<lambda>R. related dv s0 R (Inl p1) (Inl p2))"
    if "verdict dv s0 (insert (p1, p2) st) b (\<lambda>R. length kts = length lus \<and> fields_related dv s0 R kts lus)" for b
    using that ne by (rule verdict_pop) (use st tag in simp_all)
  show ?thesis
  proof (cases "length lus = length kts")
    case False
    then show ?thesis using at al pop [of False] by (simp add: bal_mapping_eq_internal_def Let_def verdict_def)
  next
    case True
    have n: "0 + nat (int (length kts)) = length kts" by simp
    from mapping_eq_loop_decides [OF eq m1(2) m2(2) ok g wf n] show ?thesis
      using at al True pop by (auto simp: bal_mapping_eq_internal_def Let_def split: sum.splits)
  qed
qed

text \<open>A value without members against any other: the answer is that of \<open>veq\<close>, and no bisimulation changes it.\<close>

lemma taggedPtrEq_view_leaf:
  assumes dq: "compares_values (img s0) (heap_decimals s0) dv" and g: "grows s0 s" and x: "view_leaf s0 x v" and y: "view_leaf s0 y w"
    and r: "reads s x t1" "reads s y t2"
  shows "\<exists>b. taggedPtrEq (Suc d) t1 t2 stack s = Inr (b, s) \<and> verdict dv s0 st b (\<lambda>R. related dv s0 R x y)"
proof -
  have d: "denotes s t1 v" "denotes s t2 w" using reads_leaf x y r g by blast+
  have dq': "compares_values (img s) (heap_decimals s0) dv" "decimals v \<union> decimals w \<subseteq> heap_decimals s0"
    using dq g view_leaf_decimals [OF x] view_leaf_decimals [OF y] by (simp_all add: grows_img)
  have lf: "leaf v" "leaf w" using x y by (cases x, auto) (cases y, auto)
  have "taggedPtrEq (Suc d) t1 t2 stack s = Inr (veq dv v w, s)"
  proof (cases "t1 = t2")
    case True
    then have "v = w" using d denotes_fun by blast
    then show ?thesis using True veq_refl denotes_distinct_keys [OF d(1)] by simp
  next
    case False
    show ?thesis
    proof (cases "val_getTag v = val_getTag w")
      case True
      then show ?thesis using taggedPtrEq_leaf [OF d dq' False True] lf by (simp add: leaf_def del: taggedPtrEq.simps)
    next
      case ne: False
      have "getTag t1 \<noteq> getTag t2" using ne d denotes_getTag by simp
      then show ?thesis using False ne veq_getTag [of dv v w] by auto
    qed
  qed
  moreover have "verdict dv s0 st (veq dv v w) (\<lambda>R. related dv s0 R x y)"
  proof (cases "veq dv v w")
    case True
    then show ?thesis using related.leaves [OF x y True] by (simp add: verdict_trivial)
  next
    case False
    have "\<not> related dv s0 R x y" if R: "bisim dv s0 R" for R
    proof
      assume "related dv s0 R x y"
      then show False
      proof cases
        case (pair t u)
        have "getTag t \<noteq> TAG_LIST" "getTag t \<noteq> TAG_MAPPING" using x pair view_leaf_getTag by blast+
        moreover have "step dv s0 R (t, u)" using R pair by (auto simp: bisim_def)
        ultimately have "t = u" by (auto simp: step_def dest: list_view_getTag map_view_getTag)
        then have "v = w" using d r pair denotes_fun by auto
        then show False using False veq_refl denotes_distinct_keys [OF d(1)] by blast
      next
        case (same t)
        then have "v = w" using d r denotes_fun by auto
        then show False using False veq_refl denotes_distinct_keys [OF d(1)] by blast
      next
        case (leaves v' w')
        have "v' = v" using leaves(1) x denotes_fun by (cases x) auto
        moreover have "w' = w" using leaves(2) y denotes_fun by (cases y) auto
        ultimately show False using leaves(3) False by simp
      qed
    qed
    then show ?thesis using False by (simp add: verdict_def)
  qed
  ultimately show ?thesis by blast
qed

lemma view_ok_cases:
  assumes "value_graph s U" "view_ok s U x"
  obtains (list) t xs where "x = Inl t" "t \<in> U" "list_view s t xs" "\<forall>y \<in> set xs. view_ok s U y" "getTag t = TAG_LIST"
    | (mapping) t kts where "x = Inl t" "t \<in> U" "map_view s t kts" "\<forall>kt \<in> set kts. view_ok s U (Inl (snd kt))" "getTag t = TAG_MAPPING"
    | (leaf) v where "view_leaf s x v"
proof (cases "\<exists>v. view_leaf s x v")
  case True
  then show thesis using leaf by blast
next
  case False
  then obtain t where t: "t \<in> U" "x = Inl t" using assms(2) by (auto simp: view_ok_def)
  then consider xs where "list_view s t xs" "\<forall>y \<in> set xs. view_ok s U y"
    | kts where "map_view s t kts" "\<forall>kt \<in> set kts. view_ok s U (Inl (snd kt))"
    using assms(1) unfolding value_graph_def by blast
  then show thesis using list [OF t(2,1)] mapping [OF t(2,1)] list_view_getTag map_view_getTag by cases blast+
qed

lemma reads_getTag_leaf: "view_leaf s0 x v \<Longrightarrow> reads s x t \<Longrightarrow> grows s0 s \<Longrightarrow> getTag t \<noteq> TAG_LIST \<and> getTag t \<noteq> TAG_MAPPING"
proof -
  assume a: "view_leaf s0 x v" "reads s x t" "grows s0 s"
  have "leaf v" using a(1) by (cases x) auto
  then show ?thesis using reads_leaf [OF a] view_leaf_getTag [of s t v] by simp
qed

text \<open>Views of different kinds are told apart by their tags, and no bisimulation relates them.\<close>

lemma taggedPtrEq_tags_differ:
  assumes r: "reads s x t1" "reads s y t2" and ne: "getTag t1 \<noteq> getTag t2" and g: "grows s0 s"
    and str: "x = Inl t1 \<and> (getTag t1 = TAG_LIST \<or> getTag t1 = TAG_MAPPING) \<or> y = Inl t2 \<and> (getTag t2 = TAG_LIST \<or> getTag t2 = TAG_MAPPING)"
  shows "taggedPtrEq (Suc d) t1 t2 stack s = Inr (False, s) \<and> verdict dv s0 st False (\<lambda>R. related dv s0 R x y)"
proof -
  have "\<not> related dv s0 R x y" if R: "bisim dv s0 R" for R
  proof
    assume "related dv s0 R x y"
    then show False
    proof cases
      case (pair t u)
      then have "step dv s0 R (t1, t2)" using R r by (auto simp: bisim_def)
      then have "getTag t1 = getTag t2" unfolding step_def by (auto simp: list_view_getTag map_view_getTag)
      with ne show False by contradiction
    next
      case (same t)
      then show False using r ne by simp
    next
      case (leaves v w)
      then show False using str view_leaf_getTag by metis
    qed
  qed
  then show ?thesis using ne by (auto simp: verdict_def)
qed

lemma card_pairs_less:
  assumes "finite U" "t1 \<in> U" "t2 \<in> U" "(t1, t2) \<notin> set stack"
  shows "card (U \<times> U - set ((t1, t2) # stack)) < card (U \<times> U - set stack)"
  using assms by (intro psubset_card_mono) auto

text \<open>Two structures: the same pair, a pair under comparison, or a pair whose members are compared.\<close>

lemma taggedPtrEq_known:
  assumes "t1 = t2 \<or> (t1, t2) \<in> set stack" "getTag t1 = getTag t2" "getTag t1 = TAG_LIST \<or> getTag t1 = TAG_MAPPING"
  shows "case taggedPtrEq (Suc d) t1 t2 stack s of Inl e \<Rightarrow> e = OutOfMemory
    | Inr (b, s1) \<Rightarrow> grows s s1 \<and> verdict dv s0 (set stack) b (\<lambda>R. related dv s0 R (Inl t1) (Inl t2))"
  using assms by (auto intro!: verdict_trivial intro: related.same related.pair)

lemma taggedPtrEq_lists_decide:
  assumes rec: "t1 \<noteq> t2 \<Longrightarrow> (t1, t2) \<notin> set stack \<Longrightarrow> decides dv s0 U (insert (t1, t2) (set stack)) (\<lambda>v1 v2. taggedPtrEq d v1 v2 ((t1, t2) # stack))"
    and v: "list_view s0 t1 xs" "list_view s0 t2 ys" and ok: "\<forall>x \<in> set xs. view_ok s0 U x" "\<forall>y \<in> set ys. view_ok s0 U y"
    and g: "grows s0 s" and wf: "wf_rt s"
  shows "case taggedPtrEq (Suc d) t1 t2 stack s of Inl e \<Rightarrow> e = OutOfMemory
    | Inr (b, s1) \<Rightarrow> grows s s1 \<and> verdict dv s0 (set stack) b (\<lambda>R. related dv s0 R (Inl t1) (Inl t2))"
proof (cases "t1 = t2 \<or> (t1, t2) \<in> set stack")
  case True
  then show ?thesis using list_view_getTag [OF v(1)] list_view_getTag [OF v(2)] by (intro taggedPtrEq_known) simp_all
next
  case False
  then have n: "t1 \<noteq> t2" "(t1, t2) \<notin> set stack" by simp_all
  from bal_list_eq_internal_decides [OF rec [OF n] n(1) v ok g wf] show ?thesis
    using False list_view_getTag [OF v(1)] list_view_getTag [OF v(2)] by simp
qed

lemma taggedPtrEq_mappings_decide:
  assumes rec: "t1 \<noteq> t2 \<Longrightarrow> (t1, t2) \<notin> set stack \<Longrightarrow> decides dv s0 U (insert (t1, t2) (set stack)) (\<lambda>v1 v2. taggedPtrEq d v1 v2 ((t1, t2) # stack))"
    and v: "map_view s0 t1 kts" "map_view s0 t2 lus"
    and ok: "\<forall>kt \<in> set kts. view_ok s0 U (Inl (snd kt))" "\<forall>lu \<in> set lus. view_ok s0 U (Inl (snd lu))"
    and g: "grows s0 s" and wf: "wf_rt s"
  shows "case taggedPtrEq (Suc d) t1 t2 stack s of Inl e \<Rightarrow> e = OutOfMemory
    | Inr (b, s1) \<Rightarrow> grows s s1 \<and> verdict dv s0 (set stack) b (\<lambda>R. related dv s0 R (Inl t1) (Inl t2))"
proof (cases "t1 = t2 \<or> (t1, t2) \<in> set stack")
  case True
  then show ?thesis using map_view_getTag [OF v(1)] map_view_getTag [OF v(2)] by (intro taggedPtrEq_known) simp_all
next
  case False
  then have n: "t1 \<noteq> t2" "(t1, t2) \<notin> set stack" by simp_all
  from bal_mapping_eq_internal_decides [OF rec [OF n] n(1) v ok g wf] show ?thesis
    using False map_view_getTag [OF v(1)] map_view_getTag [OF v(2)] by simp
qed

lemma taggedPtrEq_step:
  assumes U: "value_graph s0 U" and dq: "compares_values (img s0) (heap_decimals s0) dv"
    and rec: "\<And>t1 t2. t1 \<in> U \<Longrightarrow> t2 \<in> U \<Longrightarrow> (t1, t2) \<notin> set stack \<Longrightarrow>
      decides dv s0 U (insert (t1, t2) (set stack)) (\<lambda>v1 v2. taggedPtrEq d v1 v2 ((t1, t2) # stack))"
    and g: "grows s0 s" and wf: "wf_rt s" and x: "view_ok s0 U x" and y: "view_ok s0 U y" and r: "reads s x t1" "reads s y t2"
  shows "case taggedPtrEq (Suc d) t1 t2 stack s of Inl e \<Rightarrow> e = OutOfMemory
    | Inr (b, s1) \<Rightarrow> grows s s1 \<and> verdict dv s0 (set stack) b (\<lambda>R. related dv s0 R x y)" (is ?goal)
proof -
  have differ: ?goal if "getTag t1 \<noteq> getTag t2"
    "x = Inl t1 \<and> (getTag t1 = TAG_LIST \<or> getTag t1 = TAG_MAPPING) \<or> y = Inl t2 \<and> (getTag t2 = TAG_LIST \<or> getTag t2 = TAG_MAPPING)"
    using taggedPtrEq_tags_differ [OF r that(1) g that(2), of d stack dv "set stack"] by (simp del: taggedPtrEq.simps)
  note rl = reads_getTag_leaf [OF _ _ g]
  from U x show ?thesis
  proof (cases rule: view_ok_cases)
    case (list t xs)
    note X = list
    from U y show ?thesis
    proof (cases rule: view_ok_cases)
      case (list u ys)
      then have e: "t = t1" "u = t2" "x = Inl t1" "y = Inl t2" "t1 \<in> U" "t2 \<in> U" using X(1,2) r by simp_all
      from taggedPtrEq_lists_decide [OF rec [OF e(5,6)] X(3) [unfolded e(1)] list(3) [unfolded e(2)] X(4) list(4) g wf]
      show ?thesis unfolding e(3,4) .
    qed (use differ X r rl [OF _ r(2)] in \<open>simp_all del: taggedPtrEq.simps\<close>)
  next
    case (mapping t kts)
    note X = mapping
    from U y show ?thesis
    proof (cases rule: view_ok_cases)
      case (mapping u lus)
      then have e: "t = t1" "u = t2" "x = Inl t1" "y = Inl t2" "t1 \<in> U" "t2 \<in> U" using X(1,2) r by simp_all
      from taggedPtrEq_mappings_decide [OF rec [OF e(5,6)] X(3) [unfolded e(1)] mapping(3) [unfolded e(2)] X(4) mapping(4) g wf]
      show ?thesis unfolding e(3,4) .
    qed (use differ X r rl [OF _ r(2)] in \<open>simp_all del: taggedPtrEq.simps\<close>)
  next
    case (leaf v)
    note X = leaf
    from U y show ?thesis
    proof (cases rule: view_ok_cases)
      case (leaf w)
      from taggedPtrEq_view_leaf [OF dq g X leaf r, of d stack "set stack"] show ?thesis by (auto simp del: taggedPtrEq.simps)
    qed (use differ r rl [OF X r(1)] in \<open>simp_all del: taggedPtrEq.simps\<close>)
  qed
qed

lemma taggedPtrEq_decides:
  assumes U: "value_graph s0 U" and dq: "compares_values (img s0) (heap_decimals s0) dv" and c: "card (U \<times> U - set stack) < d"
  shows "decides dv s0 U (set stack) (\<lambda>t1 t2. taggedPtrEq d t1 t2 stack)"
  using c
proof (induction d arbitrary: stack)
  case (Suc d)
  have fin: "finite U" using U by (simp add: value_graph_def)
  have "decides dv s0 U (insert (t1, t2) (set stack)) (\<lambda>v1 v2. taggedPtrEq d v1 v2 ((t1, t2) # stack))"
    if "t1 \<in> U" "t2 \<in> U" "(t1, t2) \<notin> set stack" for t1 t2
    using Suc.IH [of "(t1, t2) # stack"] card_pairs_less [OF fin that] Suc.prems by simp
  from taggedPtrEq_step [OF U dq this] show ?case unfolding decides_def by blast
qed simp

end
