(* ===== verification/Rt_Value_Samples.thy ===== *)
theory Rt_Value_Samples
  imports Rt_Samples Rt_Equality_Graph
begin

text \<open>
  Concrete heaps of values: lists that contain themselves, lists of integers in both representations, and
  lists with \<open>NaN\<close>.
\<close>

section \<open>A heap with cycles\<close>

text \<open>At 0x2000 and 0x3000 a list whose only member is the list itself, at 0x4000 the list \<open>[1, 2]\<close>, at 0x5000 the \<open>int[]\<close> list \<open>[1, 3]\<close>.\<close>

definition sample_ptr :: "u64 \<Rightarrow> tagged" where
  "sample_ptr a = ptrAddFlags a (shifted_tag TAG_LIST)"

definition sample_int :: "int \<Rightarrow> tagged" where
  "sample_int n = IMMEDIATE_INT_TRUNCATE n OR IMMEDIATE_FLAG OR shifted_tag TAG_INT"

definition sample_members :: "'a list \<Rightarrow> 'a c_array" where
  "sample_members xs = \<lparr>arr_length = int (length xs), arr_capacity = int (length xs), arr_members = map Some xs\<rparr>"

definition sample_list_obj :: "tagged list \<Rightarrow> obj" where
  "sample_list_obj xs = ObjList \<lparr>lo_desc = 0x100, lo_array = TpArray (sample_members xs)\<rparr>"

definition sample_cycle_rt :: rt where
  "sample_cycle_rt = sample_rt\<lparr>pool := [0x6000, 0x7000],
     heap := [0x2000 \<mapsto> sample_list_obj [sample_ptr 0x2000], 0x3000 \<mapsto> sample_list_obj [sample_ptr 0x3000],
              0x4000 \<mapsto> sample_list_obj [sample_int 1, sample_int 2],
              0x5000 \<mapsto> ObjList \<lparr>lo_desc = 0x108, lo_array = IArray (sample_members [1, 3])\<rparr>,
              0x5008 \<mapsto> ObjList \<lparr>lo_desc = 0x108, lo_array = IArray (sample_members [1, 2])\<rparr>]\<rparr>"

lemma sample_cycle_wf: "wf_rt sample_cycle_rt"
  by (simp add: wf_rt_def sample_cycle_rt_def heap_addr_def POINTER_MASK_def ALIGN_MASK_def HEAP_ALIGNMENT_def)

lemma sample_cycle_img: "img sample_cycle_rt = sample_image"
  by (simp add: sample_cycle_rt_def)

lemma sample_ptrs:
  "taggedToPtr (sample_ptr 0x2000) = 0x2000" "taggedToPtr (sample_ptr 0x3000) = 0x3000"
  "taggedToPtr (sample_ptr 0x4000) = 0x4000" "taggedToPtr (sample_ptr 0x5000) = 0x5000" "taggedToPtr (sample_ptr 0x5008) = 0x5008"
  "getTag (sample_ptr 0x2000) = TAG_LIST" "getTag (sample_ptr 0x3000) = TAG_LIST"
  "getTag (sample_ptr 0x4000) = TAG_LIST" "getTag (sample_ptr 0x5000) = TAG_LIST" "getTag (sample_ptr 0x5008) = TAG_LIST"
  by code_simp+

lemma sample_members_inv: "int (length xs) \<le> ARRAY_LENGTH_MAX \<Longrightarrow> arr_inv 1 (sample_members xs)"
  by (auto simp: arr_inv_def sample_members_def)

lemma sample_members_list: "arr_list (sample_members xs) = xs"
  by (simp add: arr_list_def sample_members_def comp_def)

lemma sample_decimals: "compares_values sample_image numbers uint"
  by (simp add: compares_values_def numbers_def sample_image_def word_less_def word_uint_eq_iff)

lemma sample_list_at:
  assumes "heap s (taggedToPtr p) = Some (sample_list_obj xs)" "img s = sample_image" "getTag p = TAG_LIST"
  shows "list_obj_at s p GenericList (TpArray (sample_members xs))"
  using assms by (simp add: list_obj_at_def sample_list_obj_def list_desc_at_def sample_image_def sample_list_desc_def)

lemma sample_cycle_graph: "value_graph sample_cycle_rt {sample_ptr 0x2000, sample_ptr 0x3000}"
proof -
  have v: "list_view sample_cycle_rt (sample_ptr a) [Inl (sample_ptr a)]" if "a \<in> {0x2000, 0x3000}" for a
  proof -
    have "list_obj_at sample_cycle_rt (sample_ptr a) GenericList (TpArray (sample_members [sample_ptr a]))"
      by (rule sample_list_at) (use that in \<open>auto simp: sample_ptrs sample_cycle_rt_def\<close>)
    then show ?thesis using sample_members_inv [of "[sample_ptr a]"] sample_members_list [of "[sample_ptr a]"]
      by (auto simp: list_view_def ARRAY_LENGTH_MAX_eq)
  qed
  have "list_view sample_cycle_rt (sample_ptr 0x2000) [Inl (sample_ptr 0x2000)]"
    "list_view sample_cycle_rt (sample_ptr 0x3000) [Inl (sample_ptr 0x3000)]" by (rule v, simp)+
  then show ?thesis unfolding value_graph_def view_ok_def by auto
qed

lemma sample_cycle_lists:
  "list_at (sample_ptr 0x2000) sample_cycle_rt = Inr \<lparr>lo_desc = 0x100, lo_array = TpArray (sample_members [sample_ptr 0x2000])\<rparr>"
  "list_at (sample_ptr 0x3000) sample_cycle_rt = Inr \<lparr>lo_desc = 0x100, lo_array = TpArray (sample_members [sample_ptr 0x3000])\<rparr>"
  "list_desc_at 0x100 sample_cycle_rt = Inr (sample_list_desc GenericList 0x24 0)"
  by (simp_all add: list_at_def sample_ptrs sample_cycle_rt_def sample_list_obj_def list_desc_at_def sample_image_def)

lemma sample_cycle_get:
  "list_get (sample_ptr 0x2000) 0 sample_cycle_rt = Inr (sample_ptr 0x2000, sample_cycle_rt)"
  "list_get (sample_ptr 0x3000) 0 sample_cycle_rt = Inr (sample_ptr 0x3000, sample_cycle_rt)"
  by (simp_all add: list_get_def bal_list_generic_get_tagged_def sample_cycle_lists sample_list_desc_def tpArray_def
      sample_members_def block_get_def)

lemma sample_ptr_ne: "sample_ptr 0x2000 \<noteq> sample_ptr 0x3000"
  by code_simp

lemma sample_int_rep: "n \<in> {0..1000} \<Longrightarrow> denotes s (sample_int n) (VInt n)"
  by (rule denotes.int) (simp add: int_rep_def sample_int_def IMMEDIATE_INT_MIN_def IMMEDIATE_INT_MAX_def)

lemma sample_tree_list: "denotes sample_cycle_rt (sample_ptr 0x4000) (VList [VInt 1, VInt 2])"
proof -
  have "list_obj_at sample_cycle_rt (sample_ptr 0x4000) GenericList (TpArray (sample_members [sample_int 1, sample_int 2]))"
    by (rule sample_list_at) (simp_all add: sample_ptrs sample_cycle_rt_def)
  moreover have "arr_inv 1 (sample_members [sample_int 1, sample_int 2])"
    by (rule sample_members_inv) (simp add: ARRAY_LENGTH_MAX_eq)
  ultimately show ?thesis by (rule denotes.list) (simp add: sample_members_list sample_int_rep)
qed

lemma sample_tree_ints:
  "list_obj_at sample_cycle_rt (sample_ptr 0x5000) IntArrayList (IArray (sample_members [1, 3]))"
  "list_obj_at sample_cycle_rt (sample_ptr 0x5008) IntArrayList (IArray (sample_members [1, 2]))"
  by (simp_all add: list_obj_at_def sample_ptrs sample_cycle_rt_def list_desc_at_def sample_image_def sample_list_desc_def)

lemma sample_ints_inv: "arr_inv 1 (sample_members [1 :: int, 3])" "arr_inv 1 (sample_members [1 :: int, 2])"
  by (rule sample_members_inv, simp add: ARRAY_LENGTH_MAX_eq)+

lemma sample_tree_int_lists:
  "denotes sample_cycle_rt (sample_ptr 0x5000) (VList [VInt 1, VInt 3])"
  "denotes sample_cycle_rt (sample_ptr 0x5008) (VList [VInt 1, VInt 2])"
  using denotes.ints [OF sample_tree_ints(1) sample_ints_inv(1)] denotes.ints [OF sample_tree_ints(2) sample_ints_inv(2)]
  by (simp_all add: sample_members_list)

lemma sample_cycle_decimals: "compares_values (img sample_cycle_rt) numbers uint"
  using sample_decimals by (simp add: sample_cycle_img)

text \<open>Two \<open>float[]\<close> values at 0x5000 and 0x5008, both \<open>[NaN]\<close>.\<close>

definition sample_nan_rt :: rt where
  "sample_nan_rt = sample_rt\<lparr>pool := [0x6000, 0x7000],
     heap := [0x5000 \<mapsto> ObjList \<lparr>lo_desc = 0x118, lo_array = FArray (sample_members [0x7FF8000000000000])\<rparr>,
              0x5008 \<mapsto> ObjList \<lparr>lo_desc = 0x118, lo_array = FArray (sample_members [0x7FF8000000000000])\<rparr>]\<rparr>"

lemma sample_nan_lists:
  "denotes sample_nan_rt (sample_ptr 0x5000) (VList [VFloat 0x7FF8000000000000])"
  "denotes sample_nan_rt (sample_ptr 0x5008) (VList [VFloat 0x7FF8000000000000])"
proof -
  have o: "list_obj_at sample_nan_rt (sample_ptr a) FloatArrayList (FArray (sample_members [0x7FF8000000000000]))"
    if "a = 0x5000 \<or> a = 0x5008" for a
    using that by (auto simp: list_obj_at_def sample_ptrs sample_nan_rt_def list_desc_at_def sample_image_def sample_list_desc_def)
  have i: "arr_inv 1 (sample_members [0x7FF8000000000000 :: u64])" by (rule sample_members_inv) (simp add: ARRAY_LENGTH_MAX_eq)
  show "denotes sample_nan_rt (sample_ptr 0x5000) (VList [VFloat 0x7FF8000000000000])"
    "denotes sample_nan_rt (sample_ptr 0x5008) (VList [VFloat 0x7FF8000000000000])"
    using denotes.floats [OF o i] by (simp_all add: sample_members_list)
qed

end
