(* ===== verification/Types_Correct.thy ===== *)
theory Types_Correct
  imports Rt_Value_Samples Rt_Type_Props
begin

text \<open>
  Theorems about run-time types: each \<open>contains\<close> function decides membership in the set of values
  that its subtype descriptor describes, the dispatch of a complex type reaches the right
  subtype, and the tests on structure types are sound for the members the structure admits.
\<close>

section \<open>Simple subtypes\<close>

text \<open>
  A structure belongs to a precomputed subtype exactly when its type id is in the sorted table;
  the binary search ends and stays inside the table.
\<close>

lemma precomputed_subtype_membership:
  assumes "structure_tid p s = Inr t" "sorted_wrt (<) tids"
  shows "subtype_contains (PrecomputedSubtype tids) p s = Inr (t \<in> set tids)"
  using tidListContains_decides [OF assms(2)] by (simp add: bal_precomputed_subtype_contains_def assms(1))

text \<open>
  An integer, immediate or boxed, belongs to an int subtype exactly when one of the disjoint
  sorted ranges holds it.
\<close>

lemma int_subtype_membership:
  assumes "taggedToInt tp s = Inr n" "rs \<noteq> []" "sorted_ranges rs"
  shows "subtype_contains (IntSubtype rs) tp s = Inr (\<exists>r \<in> set rs. range_min r \<le> n \<and> n \<le> range_max r)"
  using intRangeListContains_decides [OF assms(2,3)] by (simp add: bal_int_subtype_contains_def assms(1))

text \<open>
  A float belongs to a float subtype according to its table, which starts with a NaN when NaN is
  listed and is sorted otherwise: NaN is compared with the first entry only, every other value
  by IEEE equality (so both zeros match), and \<open>included\<close> selects members or non-members.
\<close>

lemma float_subtype_membership:
  assumes "taggedToFloat tp s = Inr d" "sorted_floats ds" "nans = [] \<and> ds \<noteq> [] \<or> nans = [x] \<and> dbl_isnan x"
  shows "subtype_contains (FloatSubtype included (nans @ ds)) tp s =
     Inr ((if dbl_isnan d then nans \<noteq> [] else \<exists>y \<in> set ds. dbl_eq d y) = included)"
proof -
  have nan: "dbl_isnan d \<Longrightarrow> \<not> dbl_eq d y" for y by (simp add: dbl_eq_def)
  show ?thesis
    using assms(3) floatSubtypeContainsFloat_plain [OF _ assms(2), of included d] floatSubtypeContainsFloat_nan [OF _ assms(2), of x included d] nan
    by (auto simp: bal_float_subtype_contains_def assms(1))
qed

text \<open>
  If the decimal library compares by value, a decimal belongs to a decimal subtype exactly when
  the sorted table has an entry of the same value (or, with \<open>included\<close> false, has none).
\<close>

lemma decimal_subtype_membership:
  assumes "taggedToDecQuad tp s = Inr dq" "compares_values (img s) D val" "dq \<in> D" "set ds \<subseteq> D" "sorted_wrt (\<lambda>a b. val a < val b) ds"
  shows "subtype_contains (DecimalSubtype included ds) tp s = Inr ((\<exists>x \<in> set ds. val dq = val x) = included)"
  using decimalListContains_decides [OF assms(2-5)] by (simp add: bal_decimal_subtype_contains_def assms(1))

text \<open>
  The values that a descriptor describes, as \<open>balrt.h\<close> says: the member predicate of a subtype, the
  well-formedness of its table, and the basic type it belongs to.
\<close>

fun subtype_member :: "rt \<Rightarrow> (decQuad \<Rightarrow> int) \<Rightarrow> uniform_subtype \<Rightarrow> val \<Rightarrow> bool" where
  "subtype_member s dv TrueSubtype (VBool b) \<longleftrightarrow> b"
| "subtype_member s dv FalseSubtype (VBool b) \<longleftrightarrow> \<not> b"
| "subtype_member s dv (IntSubtype rs) (VInt n) \<longleftrightarrow> (\<exists>r \<in> set rs. range_min r \<le> n \<and> n \<le> range_max r)"
| "subtype_member s dv (FloatSubtype included ds) (VFloat d) \<longleftrightarrow> (\<exists>x \<in> set ds. dbl_eq d x \<or> dbl_isnan d \<and> dbl_isnan x) = included"
| "subtype_member s dv (DecimalSubtype included ds) (VDec d) \<longleftrightarrow> (\<exists>x \<in> set ds. dv d = dv x) = included"
| "subtype_member s dv (StringSubtype charIncl nonCharIncl strs) (VStr bs) \<longleftrightarrow>
     (\<exists>t \<in> set strs. str_rep s t bs) = (if code_points bs = 1 then charIncl else nonCharIncl)"
| "subtype_member s dv _ _ \<longleftrightarrow> False"

fun simple_subtype :: "rt \<Rightarrow> (decQuad \<Rightarrow> int) \<Rightarrow> uniform_subtype \<Rightarrow> nat \<Rightarrow> bool" where
  "simple_subtype s dv TrueSubtype t \<longleftrightarrow> t = TAG_BOOLEAN"
| "simple_subtype s dv FalseSubtype t \<longleftrightarrow> t = TAG_BOOLEAN"
| "simple_subtype s dv (IntSubtype rs) t \<longleftrightarrow> t = TAG_INT \<and> rs \<noteq> [] \<and> sorted_ranges rs"
| "simple_subtype s dv (FloatSubtype _ ds) t \<longleftrightarrow> t = TAG_FLOAT \<and> ds \<noteq> [] \<and> sorted_floats (if dbl_isnan (hd ds) then tl ds else ds)"
| "simple_subtype s dv (DecimalSubtype _ ds) t \<longleftrightarrow> t = TAG_DECIMAL \<and> set ds \<subseteq> numbers \<and> sorted_wrt (\<lambda>a b. dv a < dv b) ds"
| "simple_subtype s dv (StringSubtype _ _ strs) t \<longleftrightarrow>
     t = TAG_STRING \<and> (\<exists>bss. list_all2 (str_rep s) strs bss \<and> sorted_wrt (\<lambda>a b. lex_cmp a b < 0) bss)"
| "simple_subtype s dv _ t \<longleftrightarrow> False"

lemma float_subtype_member:
  assumes "taggedToFloat p s = Inr d" "simple_subtype s dv (FloatSubtype included ds) TAG_FLOAT"
  shows "subtype_contains (FloatSubtype included ds) p s = Inr (subtype_member s dv (FloatSubtype included ds) (VFloat d))"
proof (cases "dbl_isnan (hd ds)")
  case True
  obtain x xs where ds: "ds = [x] @ xs" using assms(2) by (cases ds) auto
  then have x: "dbl_isnan x" "sorted_floats xs" using assms(2) True by simp_all
  have "(\<exists>y \<in> set ([x] @ xs). dbl_eq d y \<or> dbl_isnan d \<and> dbl_isnan y) \<longleftrightarrow> (if dbl_isnan d then [x] \<noteq> [] else \<exists>y \<in> set xs. dbl_eq d y)"
    using x by (auto simp: dbl_eq_def)
  then show ?thesis unfolding ds subtype_member.simps using x(1) by (subst float_subtype_membership [OF assms(1) x(2)]) simp_all
next
  case False
  then have ds: "ds \<noteq> []" "sorted_floats ds" using assms(2) by simp_all
  have "(\<exists>x \<in> set ds. dbl_eq d x \<or> dbl_isnan d \<and> dbl_isnan x) \<longleftrightarrow> \<not> dbl_isnan d \<and> (\<exists>y \<in> set ds. dbl_eq d y)"
    using ds(2) by (auto simp: sorted_floats_def dbl_eq_def)
  then show ?thesis using float_subtype_membership [OF assms(1) ds(2), of "[]" 0 included] ds(1) by simp
qed

lemma string_subtype_member:
  assumes "str_rep s p bs" "simple_subtype s dv (StringSubtype charIncl nonCharIncl strs) TAG_STRING"
  shows "subtype_contains (StringSubtype charIncl nonCharIncl strs) p s =
     Inr (subtype_member s dv (StringSubtype charIncl nonCharIncl strs) (VStr bs))"
proof -
  obtain bss where b: "list_all2 (str_rep s) strs bss" "sorted_wrt (\<lambda>a b. lex_cmp a b < 0) bss" using assms(2) by auto
  have "bs \<in> set bss \<longleftrightarrow> (\<exists>t \<in> set strs. str_rep s t bs)"
  proof
    assume "bs \<in> set bss"
    then obtain i where "i < length bss" "bss ! i = bs" by (auto simp: in_set_conv_nth)
    then have "strs ! i \<in> set strs" "str_rep s (strs ! i) bs" using b(1) by (auto simp: list_all2_conv_all_nth)
    then show "\<exists>t \<in> set strs. str_rep s t bs" by blast
  next
    assume "\<exists>t \<in> set strs. str_rep s t bs"
    then obtain i where i: "i < length strs" "str_rep s (strs ! i) bs" by (auto simp: in_set_conv_nth)
    then have "bss ! i = bs" "i < length bss" using b(1) by (auto simp: list_all2_conv_all_nth intro: str_rep_unique)
    then show "bs \<in> set bss" by auto
  qed
  then show ?thesis using bal_string_subtype_contains_rep [OF assms(1) b(1)] b(2) by (simp add: sorted_wrt_iff_nth_less)
qed

text \<open>
  C29: For every subtype of a basic type with simple values (the descriptors of \<open>boolean\<close>, \<open>int\<close>, \<open>float\<close>, \<open>decimal\<close> and
  \<open>string\<close>), \<open>contains\<close> decides membership in the set that the sorted table describes, for a
  value in any representation: the binary searches end and stay inside their tables, \<open>NaN\<close> matches only a
  listed \<open>NaN\<close>, both zeros match, decimals match by value, and \<open>included\<close> selects members or non-members. For a
  decimal, it and the table are numbers, not \<open>NaN\<close>, which \<open>decQuadCompare\<close> orders by value.
\<close>

theorem simple_subtype_membership:
  assumes "denotes s p v" "simple_subtype s dv st (val_tag v)"
    "\<forall>d. v = VDec d \<longrightarrow> d \<in> numbers \<and> compares_values (img s) numbers dv"
  shows "subtype_contains st p s = Inr (subtype_member s dv st v)"
proof (cases v)
  case (VBool b)
  then have "p = (if b then TAGGED_TRUE else TAGGED_FALSE)" using assms(1) by (auto elim: denotes_boolE)
  then show ?thesis using VBool assms(2) taggedToBoolean_constants
    by (cases st) (auto simp: bal_true_subtype_contains_def bal_false_subtype_contains_def)
next
  case (VInt n)
  then show ?thesis using assms(1,2) int_subtype_membership [OF taggedToInt_denotes] by (cases st) auto
next
  case (VFloat d)
  then show ?thesis using assms(1,2) float_subtype_member [OF taggedToFloat_denotes] by (cases st) auto
next
  case (VDec d)
  then show ?thesis using assms decimal_subtype_membership [OF taggedToDecQuad_denotes, where D = numbers and val = dv] by (cases st) auto
next
  case (VStr bs)
  then have "str_rep s p bs" using assms(1) by (auto elim: denotes_strE)
  then show ?thesis using VStr assms(2) string_subtype_member [of s p bs dv] by (cases st) auto
qed (use assms(2) in \<open>cases st; simp\<close>)+

theorem simple_subtype_membership_witness:
  "subtype_contains (FloatSubtype True [0x7FF8000000000000, 0])
     (ptrAddFlags 0x2000 (shifted_tag TAG_FLOAT)) (store 0x2000 (ObjFloat 0x8000000000000000) sample_rt) = Inr True \<and>
   subtype_contains (DecimalSubtype False [3, 5])
     (ptrAddFlags 0x2000 (shifted_tag TAG_DECIMAL)) (store 0x2000 (ObjDecimal 5) sample_rt) = Inr False"
proof -
  let ?s = "store 0x2000 (ObjFloat 0x8000000000000000) sample_rt" and ?d = "store 0x2000 (ObjDecimal 5) sample_rt"
  have a: "heap_addr 0x2000" by code_simp
  have d: "denotes ?s (ptrAddFlags 0x2000 (shifted_tag TAG_FLOAT)) (VFloat 0x8000000000000000)"
    "denotes ?d (ptrAddFlags 0x2000 (shifted_tag TAG_DECIMAL)) (VDec 5)"
    using a by (auto intro!: denotes.float denotes.dec simp: boxed_def)
  have f: "sorted_floats [0]" "dbl_isnan 0x7FF8000000000000" "dbl_eq 0x8000000000000000 0" by code_simp+
  have "\<not> dec_isnan 3" "\<not> dec_isnan 5" by code_simp+
  then have n: "3 \<in> numbers" "5 \<in> numbers" by (simp_all add: numbers_def)
  have c: "compares_values (img ?d) numbers uint" using sample_decimals by simp
  show ?thesis using simple_subtype_membership [OF d(1), of uint "FloatSubtype True [0x7FF8000000000000, 0]"]
      simple_subtype_membership [OF d(2), of uint "DecimalSubtype False [3, 5]"] f n c by simp
qed

section \<open>Complex types\<close>

text \<open>
  C19: The test of a value against a complex type uses the subtype of the value's own basic type: with
  the subtypes of a type listed in the order of the bits of \<open>some\<close>, counting the bits below the
  value's bit finds its entry; a basic type in \<open>all\<close> is accepted and one in neither is rejected.
\<close>

theorem complex_type_dispatch:
  assumes "subtypes_of f ctp"
  shows "bal_type_contains ctp p s =
     (if bit (ct_all ctp) (utTag p) then Inr True
      else if bit (ct_some ctp) (utTag p) then subtype_contains (f (utTag p)) p s
      else Inr False)"
  unfolding bal_type_contains_def using assms by (rule complexTypeContainsTagged_dispatch)

definition sample_complex :: complex_type where
  "sample_complex = \<lparr>ct_all = 0x20, ct_some = 0xC,
     ct_subtypes = [IntSubtype [\<lparr>range_min = 0, range_max = 255\<rparr>], FloatSubtype True [0]]\<rparr>"

definition sample_subtypes :: "nat \<Rightarrow> uniform_subtype" where
  "sample_subtypes t = (if t = 2 then IntSubtype [\<lparr>range_min = 0, range_max = 255\<rparr>] else FloatSubtype True [0])"

lemma sample_complex_subtypes: "subtypes_of sample_subtypes sample_complex"
  by code_simp

theorem complex_type_dispatch_witness: "bal_type_contains sample_complex TAGGED_INT_ZERO sample_rt = Inr True"
proof -
  have "utTag TAGGED_INT_ZERO = 2" "\<not> bit (ct_all sample_complex) 2" "bit (ct_some sample_complex) 2"
    "subtype_contains (sample_subtypes 2) TAGGED_INT_ZERO sample_rt = Inr True" by code_simp+
  then show ?thesis using complex_type_dispatch [OF sample_complex_subtypes, of TAGGED_INT_ZERO sample_rt] by simp
qed

text \<open>
  C20: The tests on unboxed values agree with the test on the tagged value: \<open>_bal_type_contains_int\<close> and
  \<open>_bal_type_contains_float\<close> answer what \<open>_bal_type_contains\<close> answers for the boxed integer or float.
\<close>

theorem unboxed_tests_agree:
  assumes "subtypes_of f ctp" "\<exists>rs. f TAG_INT = IntSubtype rs" "\<exists>i ds. f TAG_FLOAT = FloatSubtype i ds"
  shows "(utTag p = TAG_INT \<longrightarrow> taggedToInt p s = Inr n \<longrightarrow> bal_type_contains_int ctp n = bal_type_contains ctp p s) \<and>
    (utTag p = TAG_FLOAT \<longrightarrow> taggedToFloat p s = Inr d \<longrightarrow> bal_type_contains_float ctp d = bal_type_contains ctp p s)"
proof -
  have usd: "complexTypeUniformSubtypeData ctp t =
      (if bit (ct_all ctp) t then Inr (Inl True) else if bit (ct_some ctp) t then Inr (Inr (f t)) else Inr (Inl False))"
    if "t < 32" for t
    unfolding complexTypeUniformSubtypeData_def Let_def flag_bit flag_bit_zero
    using subtypes_elem_at [OF assms(1) that] by simp
  have "bal_type_contains_int ctp n = bal_type_contains ctp p s" if "utTag p = TAG_INT" "taggedToInt p s = Inr n"
    using that unfolding bal_type_contains_def complexTypeContainsTagged_dispatch [OF assms(1)]
    using usd [of 2] assms(2) by (auto simp: bal_type_contains_int_def bal_int_subtype_contains_def)
  moreover have "bal_type_contains_float ctp d = bal_type_contains ctp p s" if "utTag p = TAG_FLOAT" "taggedToFloat p s = Inr d"
    using that unfolding bal_type_contains_def complexTypeContainsTagged_dispatch [OF assms(1)]
    using usd [of 3] assms(3) by (auto simp: bal_type_contains_float_def bal_float_subtype_contains_def)
  ultimately show ?thesis by blast
qed

theorem unboxed_tests_agree_witness: "bal_type_contains_int sample_complex 0 = bal_type_contains sample_complex TAGGED_INT_ZERO sample_rt"
proof -
  have "\<exists>rs. sample_subtypes TAG_INT = IntSubtype rs" "\<exists>i ds. sample_subtypes TAG_FLOAT = FloatSubtype i ds"
    by (auto simp: sample_subtypes_def)
  note agree = unboxed_tests_agree [OF sample_complex_subtypes this]
  have "utTag TAGGED_INT_ZERO = TAG_INT" "taggedToInt TAGGED_INT_ZERO sample_rt = Inr 0" by code_simp+
  then show ?thesis using agree by blast
qed

section \<open>Structure types\<close>

text \<open>The shape of a list descriptor that the comments of \<open>balrt.h\<close> prescribe.\<close>

definition wf_list_desc :: "list_desc \<Rightarrow> bool" where
  "wf_list_desc ldp \<longleftrightarrow>
     0 \<le> ld_nMemberTypes ldp \<and> ld_nMemberTypes ldp \<le> ld_minLength ldp \<and> i64 (ld_minLength ldp) \<and>
     (0 < ld_minLength ldp \<longrightarrow> 0 < ld_nMemberTypes ldp) \<and> ld_nMemberTypes ldp = int (length (ld_memberTypes ldp))"

lemma allowed_member_type:
  assumes "wf_list_desc ldp" "0 \<le> index" "i64 index" "listDescAllowsTaggedAt ldp index v s = Inr True"
  shows "\<exists>m \<in> insert (ld_restType ldp) (set (ld_memberTypes ldp)). memberTypeContainsTagged m v s = Inr True"
proof (cases "index < ld_minLength ldp")
  case True
  define i where "i = (if index < ld_nMemberTypes ldp then index else ld_nMemberTypes ldp - 1)"
  have "0 \<le> ld_minLength ldp" using assms(1) by (simp add: wf_list_desc_def)
  then have c: "cast_u64 index < cast_u64 (ld_minLength ldp)"
    using cast_u64_less [of index "ld_minLength ldp"] assms(1-3) True by (simp add: wf_list_desc_def)
  have "0 \<le> i" "i < int (length (ld_memberTypes ldp))" using assms(1,2) True by (auto simp: i_def wf_list_desc_def)
  then have "elem_at (ld_memberTypes ldp) i = Inr (ld_memberTypes ldp ! nat i)" "ld_memberTypes ldp ! nat i \<in> set (ld_memberTypes ldp)"
    by (simp_all add: elem_at_def nat_less_iff)
  then show ?thesis using assms(4) c by (auto simp: listDescAllowsTaggedAt_def i_def)
next
  case False
  have "0 \<le> ld_minLength ldp" using assms(1) by (simp add: wf_list_desc_def)
  then have "\<not> cast_u64 index < cast_u64 (ld_minLength ldp)"
    using cast_u64_less [of index "ld_minLength ldp"] assms(1-3) False by (simp add: wf_list_desc_def)
  then show ?thesis using assms(4) by (auto simp: listDescAllowsTaggedAt_def)
qed

text \<open>
  C18: The test of a list against an array type is sound: when \<open>_bal_array_subtype_contains\<close> accepts a
  list for a union of basic types, every value that the list's own descriptor admits at any
  index has a basic type in this union, so no later store can break the type.
\<close>

theorem array_subtype_sound:
  assumes "bal_array_subtype_contains b p s = Inr True" "list_at p s = Inr lp" "list_desc_at (lo_desc lp) s = Inr ldp"
    "wf_list_desc ldp" "0 \<le> index" "i64 index" "listDescAllowsTaggedAt ldp index v s = Inr True"
  shows "bit b (utTag v)"
proof -
  have "first_n (ld_nMemberTypes ldp) (ld_memberTypes ldp) = Inr (ld_memberTypes ldp)"
    using assms(4) by (simp add: wf_list_desc_def first_n_def)
  then have "\<forall>m \<in> insert (ld_restType ldp) (set (ld_memberTypes ldp)). memberTypeIsSubtypeSimple m b s = Inr True"
    using assms(1-3) by (auto simp: bal_array_subtype_contains_def all_subtypes_simple_iff split: if_splits)
  then show ?thesis using allowed_member_type [OF assms(4-7)] memberTypeIsSubtypeSimple_sound by blast
qed

theorem array_subtype_sound_witness:
  "bal_array_subtype_contains 0x24 (ptrAddFlags 0x2000 (shifted_tag TAG_LIST)) sample_list_rt = Inr True \<and> bit (0x24 :: u32) (utTag TAGGED_INT_ZERO)"
proof -
  let ?lp = "\<lparr>lo_desc = 0x100, lo_array = TpArray \<lparr>arr_length = 0, arr_capacity = 0, arr_members = []\<rparr>\<rparr>"
  let ?ldp = "sample_list_desc GenericList 0x24 0"
  have c: "bal_array_subtype_contains 0x24 (ptrAddFlags 0x2000 (shifted_tag TAG_LIST)) sample_list_rt = Inr True" by code_simp
  have "taggedToPtr (ptrAddFlags 0x2000 (shifted_tag TAG_LIST)) = 0x2000" by code_simp
  then have l: "list_at (ptrAddFlags 0x2000 (shifted_tag TAG_LIST)) sample_list_rt = Inr ?lp"
    by (simp add: list_at_def sample_list_rt_def)
  have d: "list_desc_at (lo_desc ?lp) sample_list_rt = Inr ?ldp" by (simp add: list_desc_at_def sample_list_rt_def sample_image_def)
  have w: "wf_list_desc ?ldp" by (simp add: wf_list_desc_def sample_list_desc_def i64_def)
  have i: "0 \<le> (5 :: int)" "i64 5" by (simp_all add: i64_def)
  have a: "listDescAllowsTaggedAt ?ldp 5 TAGGED_INT_ZERO sample_list_rt = Inr True" by code_simp
  show ?thesis using array_subtype_sound [OF c l d w i a] c by simp
qed

text \<open>
  C21: A function belongs to a function type of basic-type unions exactly when it requires no more
  parameters than the type passes, its return type is covered by that of the type, and each
  parameter (or the rest type beyond the declared parameters) covers the type's parameter:
  covariant in the result, contravariant in the parameters.
\<close>

theorem function_subtype_membership:
  assumes "utTag p = TAG_FUNCTION" "function_at p s = Inr fp" "function_desc_at (fo_desc fp) s = Inr fdp"
    "fd_nRequiredParams fdp = int (length (fd_paramTypes fdp))"
    "\<forall>m \<in> insert (fd_restType fdp) (insert (fd_returnType fdp) (set (fd_paramTypes fdp))). memberBitSet m s = Inr (bits m)"
  shows "subtype_contains (EasyFunctionSubtype returnBitSet paramBitSets) p s =
     Inr ((\<forall>n. bit (bits (fd_returnType fdp)) n \<longrightarrow> bit returnBitSet n) \<and> length (fd_paramTypes fdp) \<le> length paramBitSets \<and>
          (\<forall>i < length paramBitSets. \<forall>n. bit (paramBitSets ! i) n \<longrightarrow>
             bit (bits (if i < length (fd_paramTypes fdp) then fd_paramTypes fdp ! i else fd_restType fdp)) n))"
proof -
  let ?t = "\<lambda>i. if i < length (fd_paramTypes fdp) then fd_paramTypes fdp ! i else fd_restType fdp"
  have sup: "memberTypeIsSupertypeSimple (?t i) b s = Inr (\<forall>n. bit b n \<longrightarrow> bit (bits (?t i)) n)" for i b
    using assms(5) by (auto simp: memberTypeIsSupertypeSimple_iff)
  have pm: "params_match bs fdp i s = Inr (\<forall>j < length bs. \<forall>n. bit (bs ! j) n \<longrightarrow> bit (bits (?t (i + j))) n)" for bs i
  proof (induction bs arbitrary: i)
    case Nil
    then show ?case by simp
  next
    case (Cons b bs)
    have el: "(if int i < fd_nRequiredParams fdp then elem_at (fd_paramTypes fdp) (int i) else Inr (fd_restType fdp)) = Inr (?t i)"
      by (simp add: assms(4) elem_at_def)
    show ?case unfolding params_match.simps el bindR_simps sup Cons.IH
      by (simp add: All_less_Suc2)
  qed
  have ret: "memberTypeIsSubtypeSimple (fd_returnType fdp) returnBitSet s = Inr (\<forall>n. bit (bits (fd_returnType fdp)) n \<longrightarrow> bit returnBitSet n)"
    using assms(5) by (auto simp: memberTypeIsSubtypeSimple_iff)
  show ?thesis using assms(1-4) ret pm [of paramBitSets 0] by (auto simp: bal_function_subtype_contains_def Let_def)
qed

definition sample_function_desc :: function_desc where
  "sample_function_desc =
     \<lparr>fd_tid = 3, fd_returnType = BITSET_MEMBER_TYPE 4, fd_restType = BITSET_MEMBER_TYPE 0, fd_nRequiredParams = 1,
      fd_paramTypes = [BITSET_MEMBER_TYPE 0x24]\<rparr>"

definition sample_function_rt :: rt where
  "sample_function_rt =
     (store 0x2000 (ObjFunction \<lparr>fo_desc = 0x400, fo_code = 0, fo_captured = []\<rparr>) sample_rt)
       \<lparr>img := sample_image\<lparr>functionDescs := [0x400 \<mapsto> sample_function_desc]\<rparr>\<rparr>"

theorem function_subtype_membership_witness:
  "subtype_contains (EasyFunctionSubtype 0xC [4]) (ptrAddFlags 0x2000 (shifted_tag TAG_FUNCTION)) sample_function_rt = Inr True"
proof -
  let ?p = "ptrAddFlags 0x2000 (shifted_tag TAG_FUNCTION)"
  have p: "utTag ?p = TAG_FUNCTION" "taggedToPtr ?p = 0x2000" by code_simp+
  have f: "function_at ?p sample_function_rt = Inr \<lparr>fo_desc = 0x400, fo_code = 0, fo_captured = []\<rparr>"
    unfolding function_at_def p(2) by (simp add: sample_function_rt_def)
  have d: "function_desc_at (fo_desc \<lparr>fo_desc = 0x400, fo_code = 0, fo_captured = []\<rparr>) sample_function_rt = Inr sample_function_desc"
    by (simp add: function_desc_at_def sample_function_rt_def)
  have n: "fd_nRequiredParams sample_function_desc = int (length (fd_paramTypes sample_function_desc))"
    by (simp add: sample_function_desc_def)
  define bits :: "memberType \<Rightarrow> u32" where "bits m = ucast (drop_bit 1 m)" for m
  have bs: "bits (BITSET_MEMBER_TYPE b) = b" for b
    using bitset_member_type(2) [of b] by (auto simp: memberBitSet_def bits_def BITSET_MEMBER_TYPE_def split: if_splits)
  have m: "\<forall>m \<in> insert (fd_restType sample_function_desc) (insert (fd_returnType sample_function_desc) (set (fd_paramTypes sample_function_desc))).
      memberBitSet m sample_function_rt = Inr (bits m)"
    by (simp add: sample_function_desc_def bitset_member_type(2) bs)
  have b: "bit (4 :: u32) n \<Longrightarrow> bit (0xC :: u32) n" "bit (4 :: u32) n \<Longrightarrow> bit (0x24 :: u32) n" for n
    by (auto simp: bit_numeral_rec split: nat.splits)
  show ?thesis using function_subtype_membership [OF p(1) f d n m, of "0xC" "[4]"] b by (simp add: sample_function_desc_def bs)
qed

end
