(* ===== verification/Rt_Fillers.thy ===== *)
theory Rt_Fillers
  imports Rt_List_Props Rt_Value_Props
begin

text \<open>
  Fillers. \<open>filler_value\<close> says which values a filler descriptor describes; creating a filler only
  allocates, ends within a bound on the nesting of the descriptors (\<open>filler_ok\<close>), and gives such a value, a
  new one each time when it has an identity.
\<close>

section \<open>The values of a filler descriptor\<close>

fun has_identity :: "filler_desc \<Rightarrow> bool" where
  "has_identity (ListFiller _) = True"
| "has_identity (FixedLengthListFiller _ _) = True"
| "has_identity (MappingFiller _) = True"
| "has_identity _ = False"

definition empty_array :: "list_array \<Rightarrow> bool" where
  "empty_array a \<longleftrightarrow>
     (case a of TpArray b \<Rightarrow> arr_inv 1 b \<and> arr_list b = [] | IArray b \<Rightarrow> arr_inv 1 b \<and> arr_list b = []
      | BArray b \<Rightarrow> arr_inv 1 b \<and> arr_list b = [] | FArray b \<Rightarrow> arr_inv 1 b \<and> arr_list b = [])"

definition member_filler :: "u64 list \<Rightarrow> nat \<Rightarrow> u64" where
  "member_filler fs i = fs ! (if i < length fs then i else length fs - 1)"

text \<open>A filler built outside the addresses \<open>A\<close>.\<close>

inductive filler_value :: "u64 set \<Rightarrow> rt \<Rightarrow> u64 \<Rightarrow> tagged \<Rightarrow> bool" for A :: "u64 set" and s :: rt where
  generic: "fillerDescs (img s) f = Some (GenericFiller v) \<Longrightarrow> filler_value A s f v"
| int: "fillerDescs (img s) f = Some (IntFiller n) \<Longrightarrow> int_rep s v n \<Longrightarrow> is_immediate v \<or> taggedToPtr v \<notin> A \<Longrightarrow> filler_value A s f v"
| float: "fillerDescs (img s) f = Some (FloatFiller x) \<Longrightarrow> filler_value A s f (bal_float_filler_create f)"
| dec: "fillerDescs (img s) f = Some (DecimalFiller x) \<Longrightarrow> boxed TAG_DECIMAL s v (ObjDecimal x) \<Longrightarrow> taggedToPtr v \<notin> A \<Longrightarrow>
    filler_value A s f v"
| list: "fillerDescs (img s) f = Some (ListFiller ld) \<Longrightarrow> getTag v = TAG_LIST \<Longrightarrow> taggedToPtr v \<notin> A \<Longrightarrow>
    heap s (taggedToPtr v) = Some (ObjList \<lparr>lo_desc = ld, lo_array = a\<rparr>) \<Longrightarrow> empty_array a \<Longrightarrow> filler_value A s f v"
| fixed: "fillerDescs (img s) f = Some (FixedLengthListFiller ld fs) \<Longrightarrow> getTag v = TAG_LIST \<Longrightarrow> taggedToPtr v \<notin> A \<Longrightarrow>
    list_desc_at ld s = Inr ldp \<Longrightarrow> holds TpArray s v ld vs \<Longrightarrow> int (length vs) = ld_minLength ldp \<Longrightarrow>
    (\<And>i. i < length vs \<Longrightarrow> filler_value A s (member_filler fs i) (vs ! i)) \<Longrightarrow> filler_value A s f v"
| mapping: "fillerDescs (img s) f = Some (MappingFiller md) \<Longrightarrow> getTag v = TAG_MAPPING \<Longrightarrow> taggedToPtr v \<notin> A \<Longrightarrow>
    heap s (taggedToPtr v) = Some (ObjMapping m) \<Longrightarrow> mo_desc m = md \<Longrightarrow> map_rep s m [] \<Longrightarrow> filler_value A s f v"

lemma map_rep_Nil: "map_rep s m [] \<Longrightarrow> img s1 = img s \<Longrightarrow> map_rep s1 m []"
  unfolding map_rep_def by (simp add: string_keys.homes_def)

lemma holds_at: "holds C s p desc xs \<Longrightarrow> heap s (taggedToPtr p) \<noteq> None"
  by (auto simp: holds_def)

lemma boxed_outside:
  assumes "boxed t s v x" "t < 32" "taggedToPtr v \<notin> A" "\<And>q. q \<notin> A \<Longrightarrow> heap s q \<noteq> None \<Longrightarrow> heap s1 q = heap s q"
  shows "boxed t s1 v x"
proof -
  obtain q where q: "heap_addr q" "v = ptrAddFlags q (shifted_tag t)" "heap s q = Some x" using assms(1) by (auto simp: boxed_def)
  have "taggedToPtr v = q" unfolding q(2) using taggedToPtr_ptrAddFlags [OF q(1), of 0 t] by simp
  then show ?thesis using q assms(3,4) by (auto simp: boxed_def)
qed

lemma int_rep_outside:
  assumes "int_rep s v n" "is_immediate v \<or> taggedToPtr v \<notin> A" "\<And>q. q \<notin> A \<Longrightarrow> heap s q \<noteq> None \<Longrightarrow> heap s1 q = heap s q"
  shows "int_rep s1 v n"
proof (cases "IMMEDIATE_INT_MIN \<le> n \<and> n \<le> IMMEDIATE_INT_MAX")
  case True
  then show ?thesis using assms(1) by (simp add: int_rep_def)
next
  case False
  then obtain q where q: "heap_addr q" "v = ptrAddShiftedTag q (shifted_tag TAG_INT)" "heap s q = Some (ObjInt n)"
    using assms(1) by (auto simp: int_rep_def)
  have b: "boxed TAG_INT s v (ObjInt n)" using q ptrAddShiftedTag_Flags by (auto simp: boxed_def)
  have "\<not> is_immediate v" "taggedToPtr v = q" using getTag_boxed(2) [OF b] taggedToPtr_ptrAddFlags [OF q(1), of 0 TAG_INT] q(2)
    by (simp_all add: ptrAddShiftedTag_Flags)
  then show ?thesis using False q assms(2,3) by (auto simp: int_rep_def)
qed

text \<open>A filler is not affected by changes inside \<open>A\<close> nor by allocation.\<close>

lemma filler_value_outside:
  assumes "filler_value A s f v" "img s1 = img s" "\<And>q. q \<notin> A \<Longrightarrow> heap s q \<noteq> None \<Longrightarrow> heap s1 q = heap s q"
  shows "filler_value A s1 f v"
  using assms(1)
proof induction
  case (int f n v)
  then show ?case using int_rep_outside [OF int(2,3) assms(3)] assms(2) by (intro filler_value.int) auto
next
  case (dec f x v)
  then show ?case using boxed_outside [OF dec(2) _ dec(3) assms(3)] assms(2) by (intro filler_value.dec) auto
next
  case (fixed f ld fs v ldp vs)
  have "list_desc_at ld s1 = Inr ldp" using fixed(4) assms(2) by (simp add: list_desc_at_def)
  moreover have "holds TpArray s1 v ld vs" using holds_at [OF fixed(5)] assms(3) [OF fixed(3)] by (intro holds_same [OF fixed(5)]) simp
  ultimately show ?case using fixed(1) assms(2) by (intro filler_value.fixed [OF _ fixed(2,3) _ _ fixed(6,8)]) simp_all
next
  case (mapping f md v m)
  have "heap s1 (taggedToPtr v) = Some (ObjMapping m)" using mapping(4) assms(3) [OF mapping(3)] by simp
  then show ?case using mapping(1-3,5) map_rep_Nil [OF mapping(6) assms(2)] assms(2) by (intro filler_value.mapping) simp_all
next
  case (list f ld v a)
  have "heap s1 (taggedToPtr v) = Some (ObjList \<lparr>lo_desc = ld, lo_array = a\<rparr>)" using list(4) assms(3) [OF list(3)] by simp
  then show ?case using list(1-3,5) assms(2) by (intro filler_value.list) simp_all
qed (simp_all add: assms(2) filler_value.generic filler_value.float)

lemma filler_value_grows: "filler_value A s f v \<Longrightarrow> grows s s1 \<Longrightarrow> filler_value A s1 f v"
  by (erule filler_value_outside) (auto simp: grows_img dest: grows_heap)

lemma filler_value_subset: "filler_value A s f v \<Longrightarrow> B \<subseteq> A \<Longrightarrow> filler_value B s f v"
  by (induction rule: filler_value.induct) (auto intro: filler_value.intros)

section \<open>Filling loops\<close>

text \<open>The three loops that fill members are one loop, with different ways to make the member \<open>i\<close>.\<close>

fun fill_loop :: "(nat \<Rightarrow> rt \<Rightarrow> fault + tagged \<times> rt) \<Rightarrow> nat \<Rightarrow> nat \<Rightarrow> tagged option list \<Rightarrow> rt \<Rightarrow> fault + tagged option list \<times> rt" where
  "fill_loop mk 0 i ms s = Inr (ms, s)"
| "fill_loop mk (Suc n) i ms s =
     bindR (mk i s) (\<lambda>(v, s1). bindR (block_set ms (int i) v) (\<lambda>ms1. fill_loop mk n (Suc i) ms1 s1))"

lemma elem_at_member_filler:
  "fs \<noteq> [] \<Longrightarrow> elem_at fs (if int i < int (length fs) then int i else int (length fs) - 1) = Inr (member_filler fs i)"
  by (cases fs) (auto simp: elem_at_def member_filler_def nat_diff_distrib)

lemma fixed_length_fill_loop:
  "fs \<noteq> [] \<Longrightarrow> fixed_length_fill mk fs n (int i) ms s = fill_loop (\<lambda>i. mk (member_filler fs i)) n i ms s"
proof (induction n arbitrary: i ms s)
  case (Suc n)
  have "int i + 1 = int (Suc i)" by simp
  then show ?case unfolding fixed_length_fill.simps fill_loop.simps elem_at_member_filler [OF Suc.prems] bindR_simps
    using Suc.IH [OF Suc.prems, of "Suc i"] by presburger
qed simp

definition each_filler :: "nat \<Rightarrow> u64 \<Rightarrow> rt \<Rightarrow> fault + tagged \<times> rt" where
  "each_filler d f s = bindR (structCreateFiller d f False s) (\<lambda>((v, fill), s1). Inr (v, s1))"

lemma gap_fill_each: "gap_fill d FILL_EACH f n (int i) v ms s = fill_loop (\<lambda>_. each_filler d f) n i ms s"
proof (induction n arbitrary: i v ms s)
  case (Suc n)
  have "int i + 1 = int (Suc i)" by simp
  then show ?case unfolding gap_fill.simps fill_loop.simps each_filler_def [symmetric] using Suc.IH [of "Suc i"] by presburger
qed simp

lemma gap_fill_copy: "fill \<noteq> FILL_EACH \<Longrightarrow> gap_fill d fill f n (int i) v ms s = fill_loop (\<lambda>_ s. Inr (v, s)) n i ms s"
proof (induction n arbitrary: i ms s)
  case (Suc n)
  have "int i + 1 = int (Suc i)" by simp
  then show ?case using Suc.IH [OF Suc.prems, of "Suc i"] Suc.prems by (simp only: gap_fill.simps fill_loop.simps if_False bindR_simps prod.case)
qed simp

text \<open>
  A way to make members: it only allocates, the member \<open>i\<close> satisfies \<open>P i\<close>, also after more allocation, and
  is new when \<open>fresh\<close> holds.
\<close>

definition makes :: "rt \<Rightarrow> bool \<Rightarrow> (nat \<Rightarrow> rt \<Rightarrow> tagged \<Rightarrow> bool) \<Rightarrow> (nat \<Rightarrow> rt \<Rightarrow> fault + tagged \<times> rt) \<Rightarrow> bool" where
  "makes s0 fresh P mk \<longleftrightarrow>
     (\<forall>i s. grows s0 s \<and> wf_rt s \<longrightarrow>
        (case mk i s of
           Inl e \<Rightarrow> e = OutOfMemory
         | Inr (v, s1) \<Rightarrow> grows s s1 \<and> P i s1 v \<and> (fresh \<longrightarrow> heap s (taggedToPtr v) = None \<and> heap s1 (taggedToPtr v) \<noteq> None))) \<and>
     (\<forall>i s s1 v. P i s v \<and> grows s s1 \<longrightarrow> P i s1 v)"

lemma makesD:
  assumes "makes s0 fresh P mk" "grows s0 s" "wf_rt s"
  shows "mk i s = Inl e \<Longrightarrow> e = OutOfMemory"
    and "mk i s = Inr (v, s1) \<Longrightarrow> grows s s1 \<and> wf_rt s1 \<and> P i s1 v \<and> (fresh \<longrightarrow> heap s (taggedToPtr v) = None \<and> heap s1 (taggedToPtr v) \<noteq> None)"
    and "P i s v \<Longrightarrow> grows s s2 \<Longrightarrow> P i s2 v"
proof -
  have c: "case mk i s of
      Inl e \<Rightarrow> e = OutOfMemory
    | Inr (v, s1) \<Rightarrow> grows s s1 \<and> P i s1 v \<and> (fresh \<longrightarrow> heap s (taggedToPtr v) = None \<and> heap s1 (taggedToPtr v) \<noteq> None)"
    using assms unfolding makes_def by blast
  show "mk i s = Inl e \<Longrightarrow> e = OutOfMemory" using c by simp
  show "mk i s = Inr (v, s1) \<Longrightarrow> grows s s1 \<and> wf_rt s1 \<and> P i s1 v \<and> (fresh \<longrightarrow> heap s (taggedToPtr v) = None \<and> heap s1 (taggedToPtr v) \<noteq> None)"
    using c grows_wf [OF _ assms(3)] by auto
  show "P i s v \<Longrightarrow> grows s s2 \<Longrightarrow> P i s2 v" using assms(1) unfolding makes_def by blast
qed

text \<open>The members \<open>i\<close> and up are made: what the loop leaves in the block.\<close>

definition filled :: "rt \<Rightarrow> bool \<Rightarrow> (nat \<Rightarrow> rt \<Rightarrow> tagged \<Rightarrow> bool) \<Rightarrow> nat \<Rightarrow> rt \<Rightarrow> tagged list \<Rightarrow> bool" where
  "filled s fresh P i s1 vs \<longleftrightarrow>
     grows s s1 \<and> (\<forall>j < length vs. P (i + j) s1 (vs ! j)) \<and>
     (fresh \<longrightarrow> distinct (map taggedToPtr vs) \<and> (\<forall>v \<in> set vs. heap s (taggedToPtr v) = None \<and> heap s1 (taggedToPtr v) \<noteq> None))"

lemma filled_Nil: "filled s fresh P i s []"
  by (simp add: filled_def)

lemma filled_Cons:
  assumes "grows s s1" "P i s2 v" "fresh \<Longrightarrow> heap s (taggedToPtr v) = None \<and> heap s1 (taggedToPtr v) \<noteq> None"
    and "filled s1 fresh P (Suc i) s2 vs"
  shows "filled s fresh P i s2 (v # vs)"
proof -
  have g: "grows s1 s2" using assms(4) by (simp add: filled_def)
  have "P (i + j) s2 ((v # vs) ! j)" if "j < length (v # vs)" for j
    using that assms(2,4) by (cases j) (auto simp: filled_def)
  moreover have "heap s q = None" if "heap s1 q = None" for q using that grows_heap [OF assms(1)] by (cases "heap s q") auto
  moreover have "heap s2 (taggedToPtr v) \<noteq> None" if fresh using assms(3) [OF that] grows_heap [OF g] by auto
  ultimately show ?thesis using assms(3,4) grows_trans [OF assms(1) g] unfolding filled_def by fastforce
qed

lemma fill_loop_correct:
  assumes "makes s0 fresh P mk" "grows s0 s" "wf_rt s" "i + n \<le> length ms"
  shows "case fill_loop mk n i ms s of
      Inl e \<Rightarrow> e = OutOfMemory
    | Inr (ms1, s1) \<Rightarrow> \<exists>vs. length vs = n \<and> ms1 = take i ms @ map Some vs @ drop (i + n) ms \<and> filled s fresh P i s1 vs"
  using assms(2-4)
proof (induction n arbitrary: i ms s)
  case 0
  then show ?case using filled_Nil by simp
next
  case (Suc n)
  note mk = makesD [OF assms(1) Suc.prems(1,2)]
  show ?case
  proof (cases "mk i s")
    case (Inl e)
    then show ?thesis using mk(1) by simp
  next
    case (Inr r)
    obtain v s1 where r: "r = (v, s1)" by (cases r)
    have v: "grows s s1" "wf_rt s1" "P i s1 v" "fresh \<Longrightarrow> heap s (taggedToPtr v) = None \<and> heap s1 (taggedToPtr v) \<noteq> None"
      using mk(2) Inr r by blast+
    have b: "block_set ms (int i) v = Inr (ms[i := Some v])" using Suc.prems(3) block_set_ok [of "int i" ms v] by simp
    have l: "fill_loop mk (Suc n) i ms s = fill_loop mk n (Suc i) (ms[i := Some v]) s1" using Inr r b by simp
    have ih: "case fill_loop mk n (Suc i) (ms[i := Some v]) s1 of
        Inl e \<Rightarrow> e = OutOfMemory
      | Inr (ms1, s2) \<Rightarrow> \<exists>vs. length vs = n \<and> ms1 = take (Suc i) (ms[i := Some v]) @ map Some vs @ drop (Suc i + n) (ms[i := Some v]) \<and>
          filled s1 fresh P (Suc i) s2 vs"
      using Suc.prems(3) by (intro Suc.IH [OF grows_trans [OF Suc.prems(1) v(1)] v(2)]) simp
    have tk: "take (Suc i) (ms[i := Some v]) = take i ms @ [Some v]" "drop (Suc i + n) (ms[i := Some v]) = drop (i + Suc n) ms"
      using Suc.prems(3) by (simp_all add: take_Suc_conv_app_nth)
    show ?thesis
    proof (cases "fill_loop mk n (Suc i) (ms[i := Some v]) s1")
      case (Inl e)
      then show ?thesis using ih l by simp
    next
      case (Inr q)
      obtain ms1 s2 where q: "q = (ms1, s2)" by (cases q)
      then obtain vs where vs: "length vs = n" "ms1 = take i ms @ [Some v] @ map Some vs @ drop (i + Suc n) ms" "filled s1 fresh P (Suc i) s2 vs"
        using ih Inr tk by auto
      have p: "P i s2 v" using makesD(3) [OF assms(1) grows_trans [OF Suc.prems(1) v(1)] v(2,3)] vs(3) by (simp add: filled_def)
      have "filled s fresh P i s2 (v # vs)" by (rule filled_Cons [where P = P, OF v(1) p v(4) vs(3)])
      then show ?thesis unfolding l Inr q sum.case prod.case using vs(1,2) by (intro exI [of _ "v # vs"]) simp
    qed
  qed
qed

section \<open>Creating fillers\<close>

text \<open>
  A descriptor that the compiler emits, and a bound on its nesting: lengths are array lengths, a list of fixed
  length is generic and has a filler for each member.
\<close>

primrec filler_ok :: "nat \<Rightarrow> image \<Rightarrow> u64 \<Rightarrow> bool" where
  "filler_ok 0 = (\<lambda>im f. False)"
| "filler_ok (Suc d) = (\<lambda>im f.
     (case fillerDescs im f of
        None \<Rightarrow> False
      | Some (ListFiller ld) \<Rightarrow>
          (case listDescs im ld of None \<Rightarrow> False | Some ldp \<Rightarrow> 0 \<le> ld_minLength ldp \<and> ld_minLength ldp < ARRAY_LENGTH_MAX)
      | Some (FixedLengthListFiller ld fs) \<Rightarrow>
          (case listDescs im ld of
             None \<Rightarrow> False
           | Some ldp \<Rightarrow> 0 \<le> ld_minLength ldp \<and> ld_minLength ldp < ARRAY_LENGTH_MAX \<and> ld_repr ldp = GenericList \<and> fs \<noteq> [] \<and>
               list_all (\<lambda>f. f \<noteq> 0 \<and> filler_ok d im f) fs)
      | Some (MappingFiller md) \<Rightarrow> mappingDescs im md \<noteq> None
      | Some _ \<Rightarrow> True))"

definition creates :: "u64 set \<Rightarrow> u64 \<Rightarrow> rt \<Rightarrow> fault + (tagged \<times> bool) \<times> rt \<Rightarrow> bool" where
  "creates A f s r \<longleftrightarrow>
     (case r of
        Inl e \<Rightarrow> e = OutOfMemory
      | Inr ((v, hasIdentity), s1) \<Rightarrow>
          grows s s1 \<and> filler_value A s1 f v \<and> (hasIdentity \<longleftrightarrow> has_identity (the (fillerDescs (img s) f))) \<and>
          (hasIdentity \<longrightarrow> heap s (taggedToPtr v) = None \<and> heap s1 (taggedToPtr v) \<noteq> None))"

text \<open>A new list.\<close>

lemma initGenericArray_empty:
  assumes "0 \<le> capacity" "capacity < ARRAY_LENGTH_MAX" "esize * cells = 2 ^ TAGGED_PTR_SHIFT" "0 < esize" "0 < cells"
  shows "case (initGenericArray capacity TAGGED_PTR_SHIFT esize s :: fault + 'a c_array \<times> rt) of
      Inl e \<Rightarrow> e = OutOfMemory
    | Inr (ap, s1) \<Rightarrow> arr_inv 1 ap \<and> arr_list ap = [] \<and> arr_capacity ap = capacity \<and> (s1 = s \<or> (\<exists>k p. bal_alloc k s = Inr (p, s1)))"
proof -
  have room: "capacity \<le> ARRAY_LENGTH_MAX" "capacity * 2 ^ TAGGED_PTR_SHIFT \<le> INT64_MAX" using assms(2) by (simp_all add: ARRAY_LENGTH_MAX_eq)
  have inv: "arr_inv 1 ap" if i: "arr_inv cells ap" for ap :: "'a c_array"
  proof -
    have "1 * arr_capacity ap \<le> int cells * arr_capacity ap" using assms(5) arr_invD(1,2) [OF i] by (intro mult_right_mono) auto
    then show ?thesis using i by (auto simp: arr_inv_def)
  qed
  show ?thesis using initGenericArray_ok [OF assms(1) room assms(4,3), of s, where 'a = 'a] inv by (auto split: sum.splits)
qed

lemma new_list_array_empty:
  assumes "0 \<le> capacity" "capacity < ARRAY_LENGTH_MAX"
  shows "case new_list_array r capacity TAGGED_PTR_SHIFT s of
      Inl e \<Rightarrow> e = OutOfMemory
    | Inr (a, s1) \<Rightarrow> empty_array a \<and> (r = GenericList \<longrightarrow> (\<exists>b. a = TpArray b \<and> arr_capacity b = capacity)) \<and>
        (s1 = s \<or> (\<exists>k p. bal_alloc k s = Inr (p, s1)))"
proof (cases r)
  case GenericList
  then show ?thesis using initGenericArray_empty [OF assms, of sizeof_word 1 s, where 'a = tagged]
    by (auto simp: new_list_array_def empty_array_def split: sum.splits)
next
  case IntArrayList
  then show ?thesis using initGenericArray_empty [OF assms, of sizeof_word 1 s, where 'a = int]
    by (auto simp: new_list_array_def empty_array_def split: sum.splits)
next
  case ByteArrayList
  then show ?thesis using initGenericArray_empty [OF assms, of sizeof_byte 8 s, where 'a = byte]
    by (auto simp: new_list_array_def empty_array_def split: sum.splits)
next
  case FloatArrayList
  then show ?thesis using initGenericArray_empty [OF assms, of sizeof_word 1 s, where 'a = u64]
    by (auto simp: new_list_array_def empty_array_def split: sum.splits)
qed

lemma list_construct_8_new:
  assumes "wf_rt s" "listDescs (img s) ld = Some ldp" "0 \<le> capacity" "capacity < ARRAY_LENGTH_MAX"
  shows "case bal_list_construct_8 ld capacity s of
      Inl e \<Rightarrow> e = OutOfMemory
    | Inr (q, s1) \<Rightarrow> heap_addr q \<and> heap s q = None \<and> grows s s1 \<and>
        (\<exists>a. heap s1 q = Some (ObjList \<lparr>lo_desc = ld, lo_array = a\<rparr>) \<and> empty_array a \<and>
          (ld_repr ldp = GenericList \<longrightarrow> (\<exists>b. a = TpArray b \<and> arr_capacity b = capacity)))"
proof (cases "bal_alloc 32 s")
  case (Inl e)
  then show ?thesis using bal_alloc_fault by (simp add: bal_list_construct_8_def list_construct_def)
next
  case (Inr r)
  obtain q s1 where r: "r = (q, s1)" by (cases r)
  note al = Inr [unfolded r]
  note q = bal_alloc_wf [OF assms(1) al] and sm = alloc_same [OF al]
  have d: "list_desc_at ld s1 = Inr ldp" using assms(2) sm(2) by (simp add: list_desc_at_def)
  note n = new_list_array_empty [OF assms(3,4), of "ld_repr ldp" s1]
  have e: "bal_list_construct_8 ld capacity s =
      bindR (new_list_array (ld_repr ldp) capacity TAGGED_PTR_SHIFT s1) (\<lambda>(a, s2). Inr (q, store q (ObjList \<lparr>lo_desc = ld, lo_array = a\<rparr>) s2))"
    by (simp add: bal_list_construct_8_def list_construct_def al d)
  show ?thesis
  proof (cases "new_list_array (ld_repr ldp) capacity TAGGED_PTR_SHIFT s1")
    case (Inl e)
    then show ?thesis using n \<open>bal_list_construct_8 ld capacity s = _\<close> by simp
  next
    case (Inr r2)
    obtain a s2 where r2: "r2 = (a, s2)" by (cases r2)
    have a: "empty_array a" "ld_repr ldp = GenericList \<longrightarrow> (\<exists>b. a = TpArray b \<and> arr_capacity b = capacity)"
      "s2 = s1 \<or> (\<exists>k p. bal_alloc k s1 = Inr (p, s2))" using n Inr r2 by auto
    have s2: "heap s2 = heap s" "img s2 = img s" "wf_rt s2" "set (pool s2) \<subseteq> set (pool s1)"
      using a(3) sm q(1) alloc_same [of _ s1 _ s2] bal_alloc_ok(5) [of _ s1 _ s2] by auto
    have "wf_rt (store q (ObjList \<lparr>lo_desc = ld, lo_array = a\<rparr>) s2)" using store_wf [OF s2(3) q(2)] q(4) s2(4) by auto
    then have "grows s (store q (ObjList \<lparr>lo_desc = ld, lo_array = a\<rparr>) s2)" using q(3) s2 by (auto simp: grows_def map_le_def)
    then show ?thesis using e Inr r2 q(2,3) a(1,2) by simp
  qed
qed

lemma grows_at:
  assumes "heap s q = None" "img s1 = img s" "wf_rt s1" "\<And>a. a \<noteq> q \<Longrightarrow> heap s a \<noteq> None \<Longrightarrow> heap s1 a = heap s a"
  shows "grows s s1"
proof -
  have "heap s a = heap s1 a" if "a \<in> dom (heap s)" for a using that assms(1) assms(4) [of a] by (cases "a = q") auto
  then show ?thesis using assms(2,3) by (simp add: grows_def map_le_def)
qed

lemma list_filler_creates:
  assumes "wf_rt s" "A \<subseteq> dom (heap s)" "fillerDescs (img s) f = Some (ListFiller ld)" "listDescs (img s) ld = Some ldp"
    "0 \<le> ld_minLength ldp" "ld_minLength ldp < ARRAY_LENGTH_MAX"
  shows "creates A f s (bal_list_filler_create ld s)"
proof -
  have d: "list_desc_at ld s = Inr ldp" using assms(4) by (simp add: list_desc_at_def)
  note c = list_construct_8_new [OF assms(1,4-6)]
  show ?thesis
  proof (cases "bal_list_construct_8 ld (ld_minLength ldp) s")
    case (Inl e)
    then show ?thesis using c d by (simp add: bal_list_filler_create_def creates_def)
  next
    case (Inr r)
    obtain q s1 where r: "r = (q, s1)" by (cases r)
    obtain a where a: "heap_addr q" "heap s q = None" "grows s s1" "heap s1 q = Some (ObjList \<lparr>lo_desc = ld, lo_array = a\<rparr>)" "empty_array a"
      using c Inr r by auto
    let ?v = "ptrAddFlags q (shifted_tag TAG_LIST OR EXACT_FLAG)"
    have v: "taggedToPtr ?v = q" "getTag ?v = TAG_LIST"
      using taggedToPtr_ptrAddFlags [OF a(1), of EXACT_FLAG TAG_LIST] getTag_ptrAddFlags [OF a(1), of EXACT_FLAG TAG_LIST] by (simp_all add: EXACT_FLAG_def)
    have "q \<notin> A" using a(2) assms(2) by auto
    then have "filler_value A s1 f ?v" using v a(4,5) assms(3) grows_img [OF a(3)] by (intro filler_value.list [of s1 f ld]) simp_all
    then show ?thesis using Inr r d v a assms(3) by (simp add: bal_list_filler_create_def creates_def)
  qed
qed

lemma mapping_filler_creates:
  assumes "wf_rt s" "A \<subseteq> dom (heap s)" "fillerDescs (img s) f = Some (MappingFiller md)"
  shows "creates A f s (bal_mapping_filler_create md s)"
proof -
  note c = bal_mapping_construct_rep [OF assms(1), of 0 md]
  show ?thesis
  proof (cases "bal_mapping_construct md 0 s")
    case (Inl e)
    then show ?thesis using c by (simp add: bal_mapping_filler_create_def creates_def)
  next
    case (Inr r)
    obtain v s1 where r: "r = (v, s1)" by (cases r)
    obtain m where m: "heap s1 (taggedToPtr v) = Some (ObjMapping m)" "map_rep s1 m []" "mo_desc m = md"
      "getTag v = TAG_MAPPING" "heap s (taggedToPtr v) = None" "changes_only (taggedToPtr v) s s1" using c Inr r by auto
    have g: "grows s s1" using m(5,6) assms(1) by (intro grows_at [OF m(5)]) (auto simp: changes_only_def)
    have "taggedToPtr v \<notin> A" using m(5) assms(2) by auto
    then have "filler_value A s1 f v" using m assms(3) grows_img [OF g] by (intro filler_value.mapping [of s1 f md]) simp_all
    then show ?thesis using Inr r m g assms(3) by (simp add: bal_mapping_filler_create_def creates_def)
  qed
qed

lemma member_filler_in: "fs \<noteq> [] \<Longrightarrow> member_filler fs i \<in> set fs"
  by (auto simp: member_filler_def intro!: nth_mem)

text \<open>The last step of creating a list of fixed length: its members are in place.\<close>

lemma fixed_length_filled:
  assumes fd: "fillerDescs (img s) f = Some (FixedLengthListFiller ld fs)" "list_desc_at ld s = Inr ldp"
    and v: "taggedToPtr v \<notin> A" "heap s (taggedToPtr v) = None" "getTag v = TAG_LIST"
    and s2: "grows s s2" "wf_rt s2" "heap s2 (taggedToPtr v) \<noteq> None"
    and ap: "arr_inv 1 ap" "arr_list ap = vs" "int (length vs) = ld_minLength ldp"
    and vs: "\<And>i. i < length vs \<Longrightarrow> filler_value (insert (taggedToPtr v) A) s2 (member_filler fs i) (vs ! i)"
  shows "creates A f s (Inr ((v, True), store_array v \<lparr>lo_desc = ld, lo_array = a\<rparr> (TpArray ap) s2))"
proof -
  define s3 where "s3 = store_array v \<lparr>lo_desc = ld, lo_array = a\<rparr> (TpArray ap) s2"
  have s3: "img s3 = img s2" "\<And>q. q \<noteq> taggedToPtr v \<Longrightarrow> heap s3 q = heap s2 q" "wf_rt s3"
    using store_wf_old [OF s2(2,3)] by (auto simp: s3_def store_array_def)
  have h: "holds TpArray s3 v ld vs" unfolding s3_def ap(2) [symmetric] by (rule holds_store [OF ap(1)])
  have g: "grows s s3" using s3 grows_img [OF s2(1)] grows_heap [OF s2(1)] by (intro grows_at [OF v(2)]) auto
  have "filler_value A s3 (member_filler fs i) (vs ! i)" if "i < length vs" for i
    by (rule filler_value_subset [OF filler_value_outside [OF vs [OF that] s3(1)] subset_insertI]) (simp add: s3(2))
  moreover have "list_desc_at ld s3 = Inr ldp" using fd(2) grows_img [OF g] by (simp add: list_desc_at_def)
  ultimately have "filler_value A s3 f v" using fd(1) grows_img [OF g] by (intro filler_value.fixed [OF _ v(3,1) _ h ap(3)]) simp_all
  then show ?thesis using g v(2) fd(1) holds_at [OF h] by (simp add: creates_def s3_def [symmetric])
qed

text \<open>The list of fixed length: \<open>ih\<close> is the contract for its members.\<close>

text \<open>The creation as a filling loop over the members of a new list.\<close>

lemma fixed_length_create_unfold:
  assumes d: "list_desc_at ld s = Inr ldp" and fs: "fs \<noteq> []" and c: "bal_list_construct_8 ld (ld_minLength ldp) s = Inr (q, s1)"
    and q: "heap_addr q" "heap s1 q = Some (ObjList \<lparr>lo_desc = ld, lo_array = TpArray ap\<rparr>)"
  shows "bal_fixed_length_list_filler_create mk ld fs s =
    bindR (fill_loop (\<lambda>i. mk (member_filler fs i)) (nat (ld_minLength ldp)) 0 (arr_members ap) s1) (\<lambda>(ms, s2).
      Inr ((ptrAddFlags q (shifted_tag TAG_LIST OR EXACT_FLAG), True),
        store_array (ptrAddFlags q (shifted_tag TAG_LIST OR EXACT_FLAG)) \<lparr>lo_desc = ld, lo_array = TpArray ap\<rparr>
          (TpArray (ap\<lparr>arr_members := ms, arr_length := ld_minLength ldp\<rparr>)) s2))"
proof -
  define v where "v = ptrAddFlags q (shifted_tag TAG_LIST OR EXACT_FLAG)"
  have "taggedToPtr v = q" using taggedToPtr_ptrAddFlags [OF q(1), of EXACT_FLAG TAG_LIST] by (simp add: v_def EXACT_FLAG_def)
  then have l: "list_at v s1 = Inr \<lparr>lo_desc = ld, lo_array = TpArray ap\<rparr>" using q(2) by (simp add: list_at_def)
  have x: "tpArray \<lparr>lo_desc = ld, lo_array = TpArray ap\<rparr> = Inr ap" by (simp add: tpArray_def)
  have fx: "fixed_length_fill mk fs n 0 ms s2 = fill_loop (\<lambda>i. mk (member_filler fs i)) n 0 ms s2" for n ms s2
    using fixed_length_fill_loop [OF fs, of mk n 0] by simp
  show ?thesis
    unfolding bal_fixed_length_list_filler_create_def d c bindR_simps prod.case Let_def v_def [symmetric] l x fx by (rule refl)
qed

lemma fixed_length_filler_creates:
  assumes wf: "wf_rt s" and A: "A \<subseteq> dom (heap s)"
    and fd: "fillerDescs (img s) f = Some (FixedLengthListFiller ld fs)" "listDescs (img s) ld = Some ldp"
      "0 \<le> ld_minLength ldp" "ld_minLength ldp < ARRAY_LENGTH_MAX" "ld_repr ldp = GenericList" "fs \<noteq> []"
    and ih: "\<And>B g s1. g \<in> set fs \<Longrightarrow> grows s s1 \<Longrightarrow> wf_rt s1 \<Longrightarrow> B \<subseteq> dom (heap s1) \<Longrightarrow>
      (case mk g s1 of Inl e \<Rightarrow> e = OutOfMemory | Inr (v, s2) \<Rightarrow> grows s1 s2 \<and> filler_value B s2 g v)"
  shows "creates A f s (bal_fixed_length_list_filler_create mk ld fs s)"
proof -
  have d: "list_desc_at ld s = Inr ldp" using fd(2) by (simp add: list_desc_at_def)
  note c = list_construct_8_new [OF wf fd(2-4)]
  show ?thesis
  proof (cases "bal_list_construct_8 ld (ld_minLength ldp) s")
    case (Inl e)
    then show ?thesis using c d by (simp add: bal_fixed_length_list_filler_create_def creates_def)
  next
    case (Inr r)
    obtain q s1 where r: "r = (q, s1)" by (cases r)
    obtain ap where q: "heap_addr q" "heap s q = None" "grows s s1" "heap s1 q = Some (ObjList \<lparr>lo_desc = ld, lo_array = TpArray ap\<rparr>)"
      "arr_inv 1 ap" "arr_list ap = []" "arr_capacity ap = ld_minLength ldp"
      using c Inr r fd(5) by (auto simp: empty_array_def)
    define v where "v = ptrAddFlags q (shifted_tag TAG_LIST OR EXACT_FLAG)"
    define n where "n = nat (ld_minLength ldp)"
    have v: "taggedToPtr v = q" "getTag v = TAG_LIST"
      using taggedToPtr_ptrAddFlags [OF q(1), of EXACT_FLAG TAG_LIST] getTag_ptrAddFlags [OF q(1), of EXACT_FLAG TAG_LIST]
      by (simp_all add: v_def EXACT_FLAG_def)
    have dom: "insert q A \<subseteq> dom (heap s2)" if "grows s1 s2" for s2
      using A q(4) grows_heap [OF that] grows_heap [OF q(3)] by blast
    have m: "makes s1 False (\<lambda>i s2 w. filler_value (insert q A) s2 (member_filler fs i) w) (\<lambda>i. mk (member_filler fs i))"
      unfolding makes_def simp_thms using ih [OF member_filler_in [OF fd(6)] grows_trans [OF q(3)] _ dom] filler_value_grows by blast
    have len: "arr_length ap = 0" "n \<le> length (arr_members ap)" "int n = ld_minLength ldp"
      using arr_list_length1 [OF q(5)] q(6,7) arr_inv_block [OF q(5)] fd(3) by (simp_all add: n_def)
    note fl = fill_loop_correct [OF m grows_refl grows_wf [OF q(3) wf], of 0 n "arr_members ap"]
    note e = fixed_length_create_unfold [OF d fd(6) Inr [unfolded r] q(1,4), folded v_def n_def, unfolded len(3) [symmetric]]
    show ?thesis
    proof (cases "fill_loop (\<lambda>i. mk (member_filler fs i)) n 0 (arr_members ap) s1")
      case (Inl x)
      then show ?thesis using fl len(2) e by (simp add: creates_def)
    next
      case (Inr t)
      obtain ms s2 where t: "t = (ms, s2)" by (cases t)
      obtain vs where vs: "length vs = n" "ms = map Some vs @ drop n (arr_members ap)"
        "filled s1 False (\<lambda>i s2 w. filler_value (insert q A) s2 (member_filler fs i) w) 0 s2 vs"
        using fl len(2) Inr t by auto
      have g: "grows s1 s2" using vs(3) by (simp add: filled_def)
      have lm: "length ms = length (arr_members ap)" "take n ms = take (nat (arr_length ap)) (arr_members ap) @ map Some vs"
        "n = nat (arr_length ap) + length vs" "int n \<le> arr_capacity ap" using vs(1,2) len q(7) by simp_all
      note ex = arr_inv_extend [OF q(5) lm]
      show ?thesis unfolding e Inr t bindR_simps prod.case
        using vs(1,3) len(3) ex q(2,4,6) v A grows_heap [OF g q(4)]
        by (intro fixed_length_filled [OF fd(1) d _ _ _ grows_trans [OF q(3) g] grows_wf [OF grows_trans [OF q(3) g] wf], where vs = vs])
          (auto simp: filled_def)
    qed
  qed
qed

text \<open>Creating a filler, to any depth of nesting.\<close>

lemma fillerCreate_creates:
  "filler_ok d (img s) f \<Longrightarrow> wf_rt s \<Longrightarrow> A \<subseteq> dom (heap s) \<Longrightarrow> creates A f s (fillerCreate d f s)"
proof (induction d arbitrary: s f A)
  case (Suc d)
  obtain fd where fd: "fillerDescs (img s) f = Some fd" using Suc.prems(1) by (auto split: option.splits)
  show ?case
  proof (cases fd)
    case (GenericFiller v)
    then show ?thesis using fd by (simp add: bal_generic_filler_create_def creates_def filler_value.generic)
  next
    case (IntFiller n)
    have "taggedToPtr v \<notin> A" if "heap s (taggedToPtr v) = None" for v using that Suc.prems(3) by auto
    then show ?thesis using fd IntFiller intToTagged_new [OF Suc.prems(2), of n] grows_img
      by (auto simp: bal_int_filler_create_def creates_def split: sum.splits intro: filler_value.int)
  next
    case (FloatFiller x)
    then show ?thesis using fd by (simp add: creates_def filler_value.float)
  next
    case (DecimalFiller x)
    have "taggedToPtr v \<notin> A" if "heap s (taggedToPtr v) = None" for v using that Suc.prems(3) by auto
    then show ?thesis using fd DecimalFiller createDecimal_new [OF Suc.prems(2), of x] grows_img
      by (auto simp: bal_decimal_filler_create_def creates_def split: sum.splits intro: filler_value.dec)
  next
    case (ListFiller ld)
    then show ?thesis using fd Suc.prems by (auto split: option.splits intro: list_filler_creates)
  next
    case (FixedLengthListFiller ld fs)
    then obtain ldp where l: "listDescs (img s) ld = Some ldp" "0 \<le> ld_minLength ldp" "ld_minLength ldp < ARRAY_LENGTH_MAX"
      "ld_repr ldp = GenericList" "fs \<noteq> []" "\<And>g. g \<in> set fs \<Longrightarrow> g \<noteq> 0 \<and> filler_ok d (img s) g"
      using fd Suc.prems(1) by (auto simp: list_all_iff split: option.splits)
    have ih: "creates B g s1 (fillerCreate d g s1)" "g \<noteq> 0" if "g \<in> set fs" "grows s s1" "wf_rt s1" "B \<subseteq> dom (heap s1)" for B g s1
      using Suc.IH [of s1 g B] l(6) [OF that(1)] grows_img [OF that(2)] that(3,4) by simp_all
    define mk where "mk = (\<lambda>g s1. if g = 0 then Inl BadPointer else bindR (fillerCreate d g s1) (\<lambda>((v, hasIdentity), s2). Inr (v, s2)))"
    have "case mk g s1 of Inl e \<Rightarrow> e = OutOfMemory | Inr (v, s2) \<Rightarrow> grows s1 s2 \<and> filler_value B s2 g v"
      if "g \<in> set fs" "grows s s1" "wf_rt s1" "B \<subseteq> dom (heap s1)" for B g s1
      using ih [OF that] by (auto simp: mk_def creates_def split: sum.splits)
    then have "creates A f s (bal_fixed_length_list_filler_create mk ld fs s)"
      using fd FixedLengthListFiller by (intro fixed_length_filler_creates [OF Suc.prems(2,3) _ l(1-5)]) auto
    then show ?thesis using fd FixedLengthListFiller by (simp add: mk_def)
  next
    case (MappingFiller md)
    then show ?thesis using fd Suc.prems by (auto intro: mapping_filler_creates)
  qed
qed simp

end
