(* ===== verification/Rt_Generic_Lists.thy ===== *)
theory Rt_Generic_Lists
  imports Rt_Fillers
begin

text \<open>
  Generic lists: the store and the filling read, on every branch. A store beyond the end fills the gap
  with fillers of the list's descriptor, new ones for each member when they have an identity.
\<close>

section \<open>Fillers of a gap\<close>

definition filler_kind :: "image \<Rightarrow> u64 \<Rightarrow> fillability" where
  "filler_kind im f = (if has_identity (the (fillerDescs im f)) then FILL_EACH else FILL_COPY)"

lemma structCreateFiller_correct:
  assumes "f \<noteq> 0" "filler_ok d (img s) f" "wf_rt s" "A \<subseteq> dom (heap s)"
  shows "case structCreateFiller d f wanted s of
      Inl e \<Rightarrow> e = OutOfMemory
    | Inr ((v, fill), s1) \<Rightarrow> grows s s1 \<and> filler_value A s1 f v \<and> fill = filler_kind (img s) f \<and>
        (fill = FILL_EACH \<longrightarrow> heap s (taggedToPtr v) = None \<and> heap s1 (taggedToPtr v) \<noteq> None)"
  using fillerCreate_creates [OF assms(2-4)] assms(1)
  by (auto simp: structCreateFiller_def creates_def filler_kind_def split: sum.splits)

lemma structCreateFiller_null: "structCreateFiller d 0 True s = Inr ((0, FILL_NONE), s)"
  by (simp add: structCreateFiller_def)

text \<open>Values that fill a gap: fillers built since \<open>s\<close>, distinct ones if they have an identity.\<close>

definition new_fillers :: "rt \<Rightarrow> u64 \<Rightarrow> rt \<Rightarrow> tagged list \<Rightarrow> bool" where
  "new_fillers s f s1 vs \<longleftrightarrow>
     (\<forall>v \<in> set vs. filler_value (dom (heap s)) s1 f v) \<and>
     (filler_kind (img s) f = FILL_EACH \<longrightarrow> distinct (map taggedToPtr vs) \<and> (\<forall>v \<in> set vs. heap s (taggedToPtr v) = None))"

lemma new_fillers_Nil [simp]: "new_fillers s f s1 []"
  by (simp add: new_fillers_def)

lemma new_fillers_perm: "new_fillers s f s1 (vs @ [v]) \<longleftrightarrow> new_fillers s f s1 (v # vs)"
  by (auto simp: new_fillers_def)

lemma new_fillers_store:
  assumes "new_fillers s f s1 vs" "heap s (taggedToPtr p) \<noteq> None"
  shows "new_fillers s f (store_array p lp a s1) vs"
proof -
  have "filler_value (dom (heap s)) (store_array p lp a s1) f v" if "filler_value (dom (heap s)) s1 f v" for v
    using that by (rule filler_value_outside) (use assms(2) in \<open>auto simp: store_array_def dom_def\<close>)
  then show ?thesis using assms(1) by (simp add: new_fillers_def)
qed

lemma makes_each:
  assumes "f \<noteq> 0" "filler_ok d (img s) f" "grows s s2" "filler_kind (img s) f = FILL_EACH"
  shows "makes s2 True (\<lambda>i s1. filler_value (dom (heap s)) s1 f) (\<lambda>_. each_filler d f)"
proof -
  have "case each_filler d f s3 of
      Inl e \<Rightarrow> e = OutOfMemory
    | Inr (v, s4) \<Rightarrow> grows s3 s4 \<and> filler_value (dom (heap s)) s4 f v \<and> (True \<longrightarrow> heap s3 (taggedToPtr v) = None \<and> heap s4 (taggedToPtr v) \<noteq> None)"
    if g: "grows s2 s3" "wf_rt s3" for s3
  proof -
    have i: "img s3 = img s" using grows_img [OF grows_trans [OF assms(3) g(1)]] .
    have "dom (heap s) \<subseteq> dom (heap s3)" using grows_heap [OF grows_trans [OF assms(3) g(1)]] by blast
    then show ?thesis using structCreateFiller_correct [OF assms(1) _ g(2), of d "dom (heap s)" False] assms(2,4) i
      by (auto simp: each_filler_def split: sum.splits)
  qed
  then show ?thesis unfolding makes_def using filler_value_grows by blast
qed

lemma makes_copy:
  assumes "filler_value A s2 f v"
  shows "makes s2 False (\<lambda>i s1. filler_value A s1 f) (\<lambda>_ s. Inr (v, s))"
  unfolding makes_def using assms filler_value_grows by auto

lemma gap_fill_correct:
  assumes f: "f \<noteq> 0" "filler_ok d (img s) f" and g: "grows s s2" "wf_rt s2"
    and v: "filler_value (dom (heap s)) s2 f v"
      "filler_kind (img s) f = FILL_EACH \<Longrightarrow> heap s (taggedToPtr v) = None \<and> heap s2 (taggedToPtr v) \<noteq> None"
    and i: "i + n \<le> length ms"
  shows "case gap_fill d (filler_kind (img s) f) f n (int i) v ms s2 of
      Inl e \<Rightarrow> e = OutOfMemory
    | Inr (ms1, s3) \<Rightarrow> \<exists>vs. length vs = n \<and> ms1 = take i ms @ map Some vs @ drop (i + n) ms \<and> grows s2 s3 \<and> new_fillers s f s3 (v # vs)"
proof (cases "filler_kind (img s) f = FILL_EACH")
  case True
  note l = fill_loop_correct [OF makes_each [OF f g(1) True] grows_refl g(2) i]
  have "new_fillers s f s3 (v # vs)" if "filled s2 True (\<lambda>i s1. filler_value (dom (heap s)) s1 f) i s3 vs" for s3 vs
  proof -
    have fi: "grows s2 s3" "\<forall>j < length vs. filler_value (dom (heap s)) s3 f (vs ! j)" "distinct (map taggedToPtr vs)"
      "\<forall>w \<in> set vs. heap s2 (taggedToPtr w) = None" using that by (auto simp: filled_def)
    have "heap s (taggedToPtr w) = None" if "w \<in> set vs" for w using fi(4) that grows_heap [OF g(1)] by (cases "heap s (taggedToPtr w)") auto
    moreover have "taggedToPtr v \<notin> taggedToPtr ` set vs" using v(2) [OF True] fi(4) by force
    moreover have "filler_value (dom (heap s)) s3 f w" if "w \<in> set vs" for w using fi(2) that by (auto simp: in_set_conv_nth)
    ultimately show ?thesis using v True fi(3) filler_value_grows [OF v(1) fi(1)] by (simp add: new_fillers_def)
  qed
  then show ?thesis using l True gap_fill_each [of d f n i v ms s2] by (auto simp: filled_def split: sum.splits)
next
  case False
  note l = fill_loop_correct [OF makes_copy [OF v(1)] grows_refl g(2) i]
  have "new_fillers s f s3 (v # vs)" if "filled s2 False (\<lambda>i s1. filler_value (dom (heap s)) s1 f) i s3 vs" for s3 vs
    using that False filler_value_grows [OF v(1)] by (auto simp: filled_def new_fillers_def in_set_conv_nth)
  then show ?thesis using l gap_fill_copy [OF False, of d f n i v ms s2] by (auto simp: filled_def split: sum.splits)
qed

section \<open>Extending a list\<close>

lemma arr_append:
  assumes "arr_inv 1 ap" "n = nat (arr_length ap)" "int (n + length vs) < arr_capacity ap"
    "ms = take n (arr_members ap) @ map Some vs @ Some val # drop (n + length vs + 1) (arr_members ap)"
  shows "arr_inv 1 (ap\<lparr>arr_members := ms, arr_length := int (n + length vs) + 1\<rparr>)"
    "arr_list (ap\<lparr>arr_members := ms, arr_length := int (n + length vs) + 1\<rparr>) = arr_list ap @ vs @ [val]"
proof -
  have b: "n + length vs < length (arr_members ap)" using arr_inv_block [OF assms(1)] assms(3) by linarith
  have "length ms = length (arr_members ap)" using b assms(4) by simp
  moreover have "take (n + length vs + 1) ms = take (nat (arr_length ap)) (arr_members ap) @ map Some (vs @ [val])" using b assms(2,4) by simp
  ultimately have "arr_inv 1 (ap\<lparr>arr_members := ms, arr_length := int (n + length vs + 1)\<rparr>)"
    "arr_list (ap\<lparr>arr_members := ms, arr_length := int (n + length vs + 1)\<rparr>) = arr_list ap @ vs @ [val]"
    using arr_inv_extend [OF assms(1), of ms "n + length vs + 1" "vs @ [val]"] assms(2,3) by simp_all
  moreover have "int (n + length vs + 1) = int (n + length vs) + 1" by simp
  ultimately show "arr_inv 1 (ap\<lparr>arr_members := ms, arr_length := int (n + length vs) + 1\<rparr>)"
    "arr_list (ap\<lparr>arr_members := ms, arr_length := int (n + length vs) + 1\<rparr>) = arr_list ap @ vs @ [val]" by (simp_all only:)
qed

lemma put_after: "k = length xs \<Longrightarrow> k < length ms \<Longrightarrow> (xs @ drop k ms)[k := x] = xs @ x # drop (k + 1) ms"
  by (simp add: list_update_append Cons_nth_drop_Suc [symmetric])

text \<open>The writes of a store beyond the end, once there is room: the gap and the value.\<close>

lemma store_gap:
  assumes f: "f \<noteq> 0" "filler_ok d (img s) f" and g: "grows s s2" "wf_rt s2"
    and v: "filler_value (dom (heap s)) s2 f v"
      "filler_kind (img s) f = FILL_EACH \<Longrightarrow> heap s (taggedToPtr v) = None \<and> heap s2 (taggedToPtr v) \<noteq> None"
    and ap: "arr_inv 1 ap" "arr_length ap < index" "index < arr_capacity ap"
  shows "case bindR (bindR (block_set (arr_members ap) (arr_length ap) v) (\<lambda>ms.
              gap_fill d (filler_kind (img s) f) f (nat (index - (arr_length ap + 1))) (arr_length ap + 1) v ms s2))
            (\<lambda>(ms, s3). bindR (block_set ms index val) (\<lambda>ms2. Inr (ms2, s3))) of
      Inl e \<Rightarrow> e = OutOfMemory
    | Inr (ms2, s3) \<Rightarrow> \<exists>vs. arr_inv 1 (ap\<lparr>arr_members := ms2, arr_length := index + 1\<rparr>) \<and>
        arr_list (ap\<lparr>arr_members := ms2, arr_length := index + 1\<rparr>) = arr_list ap @ vs @ [val] \<and>
        int (length vs) = index - arr_length ap \<and> grows s2 s3 \<and> new_fillers s f s3 vs"
proof -
  define n k where "n = nat (arr_length ap)" and "k = nat (index - (arr_length ap + 1))"
  define ms where "ms = (arr_members ap)[n := Some v]"
  have i: "arr_length ap = int n" "index = int (Suc n + k)" "arr_length ap + 1 = int (Suc n)" "Suc n + k < length (arr_members ap)"
    using ap(2,3) arr_invD(1) [OF ap(1)] arr_inv_block [OF ap(1)] by (simp_all add: n_def k_def)
  have b: "block_set (arr_members ap) (arr_length ap) v = Inr ms" using i(1,4) block_set_ok [of "int n" "arr_members ap" v] by (simp add: ms_def)
  have l: "Suc n + k \<le> length ms" using i(4) by (simp add: ms_def)
  note gap = gap_fill_correct [OF f g v l, unfolded i(3) [symmetric] k_def]
  show ?thesis
  proof (cases "gap_fill d (filler_kind (img s) f) f (nat (index - (arr_length ap + 1))) (arr_length ap + 1) v ms s2")
    case (Inl e)
    then show ?thesis using gap by (simp add: b)
  next
    case (Inr r)
    obtain ms1 s3 where r: "r = (ms1, s3)" by (cases r)
    obtain vs where vs: "length vs = k" "ms1 = take (Suc n) ms @ map Some vs @ drop (Suc n + k) ms" "grows s2 s3" "new_fillers s f s3 (v # vs)"
      using gap Inr r by (auto simp: k_def)
    have t: "take (Suc n) ms = take n (arr_members ap) @ [Some v]" "drop (Suc n + k) ms = drop (Suc n + k) (arr_members ap)"
      using i(4) by (simp_all add: ms_def take_Suc_conv_app_nth)
    define ms2 where "ms2 = take n (arr_members ap) @ map Some (v # vs) @ Some val # drop (n + length (v # vs) + 1) (arr_members ap)"
    have "ms1 = (take n (arr_members ap) @ map Some (v # vs)) @ drop (Suc n + k) (arr_members ap)" using vs(2) t by simp
    then have "ms1[Suc n + k := Some val] = ms2" using i(4) vs(1) by (simp only: ms2_def) (subst put_after, simp_all)
    moreover have "length ms1 = length (arr_members ap)" using vs(1,2) t i(4) by simp
    ultimately have st: "block_set ms1 index val = Inr ms2" using block_set_ok [of index ms1 val] i(2,4) by (simp add: nat_add_distrib)
    have c: "int (n + length (v # vs)) < arr_capacity ap" "index + 1 = int (n + length (v # vs)) + 1" using ap(3) i(2) vs(1) by simp_all
    note x = arr_append [OF ap(1) n_def c(1) ms2_def, folded c(2)]
    show ?thesis unfolding b bindR_simps Inr r prod.case st sum.case
      using x vs(1,3,4) i(1,2) by (intro exI [of _ "v # vs"]) simp
  qed
qed

section \<open>The generic store\<close>

text \<open>The state after an operation on the list at \<open>q\<close>: other objects are as before, and there may be new ones.\<close>

definition updates :: "u64 \<Rightarrow> rt \<Rightarrow> rt \<Rightarrow> bool" where
  "updates q s s1 \<longleftrightarrow> img s1 = img s \<and> wf_rt s1 \<and> (\<forall>a. a \<noteq> q \<and> heap s a \<noteq> None \<longrightarrow> heap s1 a = heap s a)"

lemma updates_grows: "grows s s1 \<Longrightarrow> wf_rt s \<Longrightarrow> updates q s s1"
  using grows_heap [of s s1] by (auto simp: updates_def grows_img grows_wf)

lemma updates_store:
  assumes "grows s s1" "wf_rt s1" "heap s (taggedToPtr p) \<noteq> None"
  shows "updates (taggedToPtr p) s (store_array p lp a s1)"
proof -
  have "heap s1 (taggedToPtr p) \<noteq> None" using assms(1,3) grows_heap by fastforce
  then show ?thesis using assms(1) store_wf_old [OF assms(2)] grows_heap [OF assms(1)] by (auto simp: updates_def store_array_def grows_img)
qed

text \<open>Which code a store gives, and which members it leaves.\<close>

definition generic_store_code :: "bool \<Rightarrow> bool \<Rightarrow> tagged \<Rightarrow> tagged list \<Rightarrow> int \<Rightarrow> nat" where
  "generic_store_code ok noFiller p xs index =
     (if \<not> ok then storePanicCode p PANIC_LIST_STORE
      else if index < 0 then PANIC_INDEX_OUT_OF_BOUNDS
      else if index < int (length xs) then 0
      else if int (length xs) < index \<and> noFiller then PANIC_NO_FILLER
      else if ARRAY_LENGTH_MAX \<le> index then PANIC_LIST_TOO_LONG else 0)"

definition generic_stored :: "rt \<Rightarrow> u64 \<Rightarrow> rt \<Rightarrow> tagged list \<Rightarrow> int \<Rightarrow> tagged \<Rightarrow> tagged list \<Rightarrow> bool" where
  "generic_stored s f s1 xs index val ys \<longleftrightarrow>
     (if index < int (length xs) then ys = xs[nat index := val]
      else (\<exists>vs. ys = xs @ vs @ [val] \<and> int (length vs) = index - int (length xs) \<and> new_fillers s f s1 vs))"

text \<open>The part of the store behind the creation of the filler.\<close>

definition store_beyond ::
  "nat \<Rightarrow> u64 \<Rightarrow> tagged \<Rightarrow> list_obj \<Rightarrow> tagged c_array \<Rightarrow> int \<Rightarrow> tagged \<Rightarrow> tagged \<Rightarrow> fillability \<Rightarrow> rt \<Rightarrow> fault + nat \<times> rt" where
  "store_beyond d f p lp ap index val filler fill s1 =
     bindR (if cast_u64 index \<ge> cast_u64 (arr_capacity ap)
            then bal_array_grow ap (index + 1) TAGGED_PTR_SHIFT sizeof_word s1 else Inr (ap, s1)) (\<lambda>(ap1, s2).
     bindR (if fill \<noteq> FILL_NONE
            then bindR (block_set (arr_members ap1) (arr_length ap1) filler) (\<lambda>ms.
                   gap_fill d fill f (nat (index - (arr_length ap1 + 1))) (arr_length ap1 + 1) filler ms s2)
            else Inr (arr_members ap1, s2)) (\<lambda>(ms, s3).
     bindR (block_set ms index val) (\<lambda>ms2.
       Inr (0, store_array p lp (TpArray (ap1\<lparr>arr_members := ms2, arr_length := index + 1\<rparr>)) s3))))"

lemma grow_same: "s2 = s1 \<or> (\<exists>n q. bal_alloc n s1 = Inr (q, s2)) \<Longrightarrow> grows s1 s2"
  using alloc_same [of _ s1 _ s2] by (auto simp: grows_def)

lemma store_at_end:
  assumes "arr_inv 1 ap" "arr_length ap < arr_capacity ap"
  shows "\<exists>ms. block_set (arr_members ap) (arr_length ap) val = Inr ms \<and>
    arr_inv 1 (ap\<lparr>arr_members := ms, arr_length := arr_length ap + 1\<rparr>) \<and>
    arr_list (ap\<lparr>arr_members := ms, arr_length := arr_length ap + 1\<rparr>) = arr_list ap @ [val]"
proof -
  define n where "n = nat (arr_length ap)"
  have n: "arr_length ap = int n" "n < length (arr_members ap)" "int (n + length []) < arr_capacity ap"
    using assms arr_invD(1) [OF assms(1)] arr_inv_block [OF assms(1)] by (simp_all add: n_def)
  have "block_set (arr_members ap) (arr_length ap) val = Inr ((arr_members ap)[n := Some val])" using n block_set_ok [of "int n" "arr_members ap" val] by simp
  moreover have "(arr_members ap)[n := Some val] = take n (arr_members ap) @ map Some [] @ Some val # drop (n + length [] + 1) (arr_members ap)"
    using put_after [of n "take n (arr_members ap)" "arr_members ap" "Some val"] n(2) by simp
  ultimately show ?thesis using arr_append [OF assms(1) n_def n(3)] n(1) by simp
qed

text \<open>The writes of a store at the end or beyond, once there is room.\<close>

definition store_writes ::
  "nat \<Rightarrow> u64 \<Rightarrow> tagged c_array \<Rightarrow> int \<Rightarrow> tagged \<Rightarrow> tagged \<Rightarrow> fillability \<Rightarrow> rt \<Rightarrow> fault + tagged option list \<times> rt" where
  "store_writes d f ap index val filler fill s =
     bindR (if fill \<noteq> FILL_NONE
            then bindR (block_set (arr_members ap) (arr_length ap) filler) (\<lambda>ms.
                   gap_fill d fill f (nat (index - (arr_length ap + 1))) (arr_length ap + 1) filler ms s)
            else Inr (arr_members ap, s)) (\<lambda>(ms, s1). bindR (block_set ms index val) (\<lambda>ms2. Inr (ms2, s1)))"

text \<open>The filler for the gap has been made, or there is no gap.\<close>

definition gap_ready :: "nat \<Rightarrow> u64 \<Rightarrow> int \<Rightarrow> int \<Rightarrow> rt \<Rightarrow> tagged \<Rightarrow> fillability \<Rightarrow> rt \<Rightarrow> bool" where
  "gap_ready d f len index s v fill s1 \<longleftrightarrow>
     len = index \<and> fill = FILL_NONE \<or>
     len < index \<and> fill = filler_kind (img s) f \<and> f \<noteq> 0 \<and> filler_ok d (img s) f \<and> filler_value (dom (heap s)) s1 f v \<and>
     (fill = FILL_EACH \<longrightarrow> heap s (taggedToPtr v) = None \<and> heap s1 (taggedToPtr v) \<noteq> None)"

lemma gap_ready_grows: "gap_ready d f len index s v fill s1 \<Longrightarrow> grows s1 s2 \<Longrightarrow> gap_ready d f len index s v fill s2"
  using grows_heap [of s1 s2] by (auto simp: gap_ready_def intro: filler_value_grows)

lemma store_writes_correct:
  assumes ap: "arr_inv 1 ap" "index < arr_capacity ap" and s: "grows s s2" "wf_rt s2"
    and fill: "gap_ready d f (arr_length ap) index s v fill s2"
  shows "case store_writes d f ap index val v fill s2 of
      Inl e \<Rightarrow> e = OutOfMemory
    | Inr (ms2, s3) \<Rightarrow> \<exists>vs. arr_inv 1 (ap\<lparr>arr_members := ms2, arr_length := index + 1\<rparr>) \<and>
        arr_list (ap\<lparr>arr_members := ms2, arr_length := index + 1\<rparr>) = arr_list ap @ vs @ [val] \<and>
        int (length vs) = index - arr_length ap \<and> grows s2 s3 \<and> new_fillers s f s3 vs"
proof (cases "fill = FILL_NONE")
  case True
  then have "arr_length ap = index" using fill by (auto simp: gap_ready_def filler_kind_def split: if_splits)
  then show ?thesis using store_at_end [OF ap(1), of val] ap(2) True by (auto simp: store_writes_def)
next
  case False
  then have k: "arr_length ap < index" "f \<noteq> 0" "filler_ok d (img s) f" "fill = filler_kind (img s) f" and fv: "filler_value (dom (heap s)) s2 f v"
    and fresh: "filler_kind (img s) f = FILL_EACH \<Longrightarrow> heap s (taggedToPtr v) = None \<and> heap s2 (taggedToPtr v) \<noteq> None"
    using fill by (auto simp: gap_ready_def)
  from store_gap [OF k(2,3) s fv fresh ap(1) k(1) ap(2), of val] show ?thesis using False k(4) by (simp add: store_writes_def)
qed

lemma store_beyond_correct:
  assumes h: "heap s (taggedToPtr p) = Some (ObjList \<lparr>lo_desc = desc, lo_array = TpArray ap\<rparr>)" "arr_inv 1 ap"
    and ix: "i64 index" "arr_length ap \<le> index" "index < ARRAY_LENGTH_MAX" and g: "grows s s1" "wf_rt s1"
    and fill: "gap_ready d f (arr_length ap) index s v fill s1"
  shows "case store_beyond d f p \<lparr>lo_desc = desc, lo_array = TpArray ap\<rparr> ap index val v fill s1 of
      Inl e \<Rightarrow> e = OutOfMemory
    | Inr (code, s3) \<Rightarrow> code = 0 \<and> updates (taggedToPtr p) s s3 \<and>
        (\<exists>vs. holds TpArray s3 p desc (arr_list ap @ vs @ [val]) \<and> int (length vs) = index - arr_length ap \<and> new_fillers s f s3 vs)"
proof -
  have "0 \<le> index" using ix(2) arr_invD(1) [OF h(2)] by simp
  define G where "G = (if cast_u64 index \<ge> cast_u64 (arr_capacity ap) then bal_array_grow ap (index + 1) TAGGED_PTR_SHIFT sizeof_word s1 else Inr (ap, s1))"
  note grow = grow_for_index [OF h(2) ix(1) \<open>0 \<le> index\<close> ix(3), of TAGGED_PTR_SHIFT sizeof_word s1, folded G_def]
  show ?thesis
  proof (cases G)
    case (Inl e)
    then show ?thesis using grow by (simp add: store_beyond_def G_def [symmetric])
  next
    case (Inr r)
    obtain ap1 s2 where r: "r = (ap1, s2)" by (cases r)
    have a: "arr_inv 1 ap1" "arr_length ap1 = arr_length ap" "arr_list ap1 = arr_list ap" "index < arr_capacity ap1" "grows s1 s2"
      using grow Inr r grow_same by auto
    have s2: "grows s s2" "wf_rt s2" using grows_trans [OF g(1) a(5)] grows_wf [OF a(5) g(2)] .
    note w = store_writes_correct [OF a(1,4) s2 gap_ready_grows [OF fill [folded a(2)] a(5)], of val, unfolded a(2,3)]
    have e: "store_beyond d f p \<lparr>lo_desc = desc, lo_array = TpArray ap\<rparr> ap index val v fill s1 =
        bindR (store_writes d f ap1 index val v fill s2) (\<lambda>(ms2, s3).
          Inr (0, store_array p \<lparr>lo_desc = desc, lo_array = TpArray ap\<rparr> (TpArray (ap1\<lparr>arr_members := ms2, arr_length := index + 1\<rparr>)) s3))"
      unfolding store_beyond_def G_def [symmetric] Inr r bindR_simps prod.case store_writes_def bindR_assoc by (intro bindR_cong) (auto simp: bindR_assoc)
    show ?thesis
    proof (cases "store_writes d f ap1 index val v fill s2")
      case (Inl x)
      then show ?thesis using w e by simp
    next
      case (Inr t)
      obtain ms2 s3 where t: "t = (ms2, s3)" by (cases t)
      obtain vs where vs: "arr_inv 1 (ap1\<lparr>arr_members := ms2, arr_length := index + 1\<rparr>)"
        "arr_list (ap1\<lparr>arr_members := ms2, arr_length := index + 1\<rparr>) = arr_list ap @ vs @ [val]"
        "int (length vs) = index - arr_length ap" "grows s2 s3" "new_fillers s f s3 vs" using w Inr t by auto
      have p: "heap s (taggedToPtr p) \<noteq> None" using h(1) by simp
      note s3 = grows_trans [OF s2(1) vs(4)] grows_wf [OF vs(4) s2(2)]
      show ?thesis unfolding e Inr t bindR_simps prod.case sum.case
        using updates_store [OF s3 p] holds_store [OF vs(1), of TpArray p desc "TpArray ap" s3] vs(2,3) new_fillers_store [OF vs(5) p] by auto
    qed
  qed
qed

text \<open>The filler for the gap, if there is one.\<close>

definition gap_filler :: "nat \<Rightarrow> u64 \<Rightarrow> bool \<Rightarrow> rt \<Rightarrow> fault + (tagged \<times> fillability) \<times> rt" where
  "gap_filler d f gap s = (if gap then structCreateFiller d f True s else Inr ((0, FILL_NONE), s))"

lemma generic_set_unfold:
  assumes "list_at p s = Inr \<lparr>lo_desc = desc, lo_array = TpArray ap\<rparr>" "list_desc_at desc s = Inr ldp"
    "listDescAllowsTaggedAt ldp index val s = Inr True"
  shows "bal_list_generic_set_tagged d p index val s =
    (if cast_u64 index < cast_u64 (arr_length ap)
     then bindR (block_set (arr_members ap) index val) (\<lambda>ms.
            Inr (0, store_array p \<lparr>lo_desc = desc, lo_array = TpArray ap\<rparr> (TpArray (ap\<lparr>arr_members := ms\<rparr>)) s))
     else bindR (gap_filler d (ld_fillerDesc ldp) (index > arr_length ap) s) (\<lambda>((filler, fill), s1).
       if index > arr_length ap \<and> fill = FILL_NONE then Inr (PANIC_NO_FILLER, s1)
       else if cast_u64 index \<ge> cast_u64 (arr_capacity ap) \<and> cast_u64 index \<ge> ARRAY_LENGTH_MAX
       then Inr (if index < 0 then PANIC_INDEX_OUT_OF_BOUNDS else PANIC_LIST_TOO_LONG, s1)
       else store_beyond d (ld_fillerDesc ldp) p \<lparr>lo_desc = desc, lo_array = TpArray ap\<rparr> ap index val filler fill s1))"
  unfolding bal_list_generic_set_tagged_def store_beyond_def gap_filler_def assms bindR_simps list_obj.simps by (simp add: tpArray_def assms)

text \<open>What a store leaves behind: the code, the members, and nothing else changed.\<close>

definition store_outcome :: "rt \<Rightarrow> tagged \<Rightarrow> u64 \<Rightarrow> tagged list \<Rightarrow> nat \<Rightarrow> (rt \<Rightarrow> tagged list \<Rightarrow> bool) \<Rightarrow> fault + nat \<times> rt \<Rightarrow> bool" where
  "store_outcome s p desc xs code Q r \<longleftrightarrow>
     (case r of
        Inl e \<Rightarrow> e = OutOfMemory
      | Inr (c, s1) \<Rightarrow> c = code \<and> updates (taggedToPtr p) s s1 \<and>
          (\<exists>ys. holds TpArray s1 p desc ys \<and> (if code = 0 then Q s1 ys else ys = xs)))"

lemma store_outcome_panic:
  assumes "holds TpArray s p desc xs" "wf_rt s" "grows s s1" "code \<noteq> 0"
  shows "store_outcome s p desc xs code Q (Inr (code, s1))"
proof -
  have "holds TpArray s1 p desc xs" using holds_at [OF assms(1)] grows_heap [OF assms(3)] by (intro holds_same [OF assms(1)]) auto
  then show ?thesis using updates_grows [OF assms(3,2)] assms(4) by (auto simp: store_outcome_def)
qed

lemma panic_codes_nonzero:
  "PANIC_LIST_STORE \<noteq> 0" "PANIC_INDEX_OUT_OF_BOUNDS \<noteq> 0" "PANIC_NO_FILLER \<noteq> 0" "PANIC_LIST_TOO_LONG \<noteq> 0"
  by (simp_all add: PANIC_LIST_STORE_def PANIC_INDEX_OUT_OF_BOUNDS_def PANIC_NO_FILLER_def PANIC_LIST_TOO_LONG_def)

lemma gap_filler_correct:
  assumes "wf_rt s" "gap \<Longrightarrow> f \<noteq> 0 \<and> filler_ok d (img s) f"
  shows "case gap_filler d f gap s of
      Inl e \<Rightarrow> e = OutOfMemory
    | Inr ((v, fill), s1) \<Rightarrow> grows s s1 \<and> wf_rt s1 \<and>
       (if gap then fill = filler_kind (img s) f \<and> filler_value (dom (heap s)) s1 f v \<and>
          (fill = FILL_EACH \<longrightarrow> heap s (taggedToPtr v) = None \<and> heap s1 (taggedToPtr v) \<noteq> None)
        else fill = FILL_NONE)"
proof (cases gap)
  case True
  then show ?thesis using structCreateFiller_correct [of f d s "dom (heap s)" True] assms grows_wf [OF _ assms(1)]
    by (auto simp: gap_filler_def split: sum.splits)
qed (use assms(1) in \<open>simp add: gap_filler_def\<close>)

lemma filler_kind_some [simp]: "filler_kind im f \<noteq> FILL_NONE"
  by (simp add: filler_kind_def)

lemma generic_set_beyond:
  assumes wf: "wf_rt s" and ap: "heap s (taggedToPtr p) = Some (ObjList \<lparr>lo_desc = desc, lo_array = TpArray ap\<rparr>)" "arr_inv 1 ap"
    and ix: "i64 index" "arr_length ap \<le> index"
    and gap: "arr_length ap < index \<Longrightarrow> f \<noteq> 0 \<and> filler_ok d (img s) f"
  shows "store_outcome s p desc (arr_list ap) (if ARRAY_LENGTH_MAX \<le> index then PANIC_LIST_TOO_LONG else 0)
    (\<lambda>s1. generic_stored s f s1 (arr_list ap) index val)
    (bindR (gap_filler d f (index > arr_length ap) s) (\<lambda>((filler, fill), s1).
       if index > arr_length ap \<and> fill = FILL_NONE then Inr (PANIC_NO_FILLER, s1)
       else if cast_u64 index \<ge> cast_u64 (arr_capacity ap) \<and> cast_u64 index \<ge> ARRAY_LENGTH_MAX
       then Inr (if index < 0 then PANIC_INDEX_OUT_OF_BOUNDS else PANIC_LIST_TOO_LONG, s1)
       else store_beyond d f p \<lparr>lo_desc = desc, lo_array = TpArray ap\<rparr> ap index val filler fill s1))"
proof (cases "gap_filler d f (index > arr_length ap) s")
  case (Inl e)
  then show ?thesis using gap_filler_correct [OF wf gap, of "index > arr_length ap"] by (simp add: store_outcome_def)
next
  case (Inr r)
  obtain v fill s1 where r: "r = ((v, fill), s1)" by (metis surj_pair)
  note g = gap_filler_correct [OF wf gap, of "index > arr_length ap", unfolded Inr r sum.case prod.case, simplified]
  note casts = cast_u64_ge_capacity [OF ap(2) ix(1)] cast_u64_ge_max [OF ix(1)] and inv = arr_invD [OF ap(2)]
  have len: "arr_length ap = int (length (arr_list ap))" using arr_list_length1 [OF ap(2)] by simp
  have n: "\<not> (index > arr_length ap \<and> fill = FILL_NONE)" using g by (auto split: if_splits)
  have h: "holds TpArray s p desc (arr_list ap)" using ap by (auto simp: holds_def)
  show ?thesis
  proof (cases "ARRAY_LENGTH_MAX \<le> index")
    case True
    then show ?thesis unfolding Inr r bindR_simps prod.case if_not_P [OF n]
      using casts inv ix(2) store_outcome_panic [OF h wf _ panic_codes_nonzero(4)] g by simp
  next
    case False
    have "case store_beyond d f p \<lparr>lo_desc = desc, lo_array = TpArray ap\<rparr> ap index val v fill s1 of
        Inl e \<Rightarrow> e = OutOfMemory
      | Inr (code, s3) \<Rightarrow> code = 0 \<and> updates (taggedToPtr p) s s3 \<and>
          (\<exists>vs. holds TpArray s3 p desc (arr_list ap @ vs @ [val]) \<and> int (length vs) = index - arr_length ap \<and> new_fillers s f s3 vs)"
      using False ix gap g by (intro store_beyond_correct [OF ap ix(1,2)]) (auto simp: gap_ready_def split: if_splits)
    then show ?thesis unfolding Inr r bindR_simps prod.case if_not_P [OF n]
      using casts inv ix(2) False len by (auto simp: store_outcome_def generic_stored_def split: sum.splits)
  qed
qed

lemma generic_set_correct:
  assumes wf: "wf_rt s" and h: "holds TpArray s p desc xs" and d: "list_desc_at desc s = Inr ldp" and ix: "i64 index"
    and ok: "listDescAllowsTaggedAt ldp index val s = Inr ok"
    and f: "ld_fillerDesc ldp = 0 \<or> filler_ok depth (img s) (ld_fillerDesc ldp)"
  shows "store_outcome s p desc xs (generic_store_code ok (ld_fillerDesc ldp = 0) p xs index)
    (\<lambda>s1. generic_stored s (ld_fillerDesc ldp) s1 xs index val) (bal_list_generic_set_tagged depth p index val s)"
proof (cases ok)
  case False
  obtain lp where "list_at p s = Inr lp" "lo_desc lp = desc" using h by (auto elim: holdsE)
  then show ?thesis using False ok d store_outcome_panic [OF h wf grows_refl storePanicCode_nonzero [OF panic_codes_nonzero(1)]]
    by (simp add: generic_store_code_def bal_list_generic_set_tagged_def)
next
  case True
  obtain ap where ap: "heap s (taggedToPtr p) = Some (ObjList \<lparr>lo_desc = desc, lo_array = TpArray ap\<rparr>)" "arr_inv 1 ap" "arr_list ap = xs"
    "list_at p s = Inr \<lparr>lo_desc = desc, lo_array = TpArray ap\<rparr>" "arr_length ap = int (length xs)" using h by (rule holdsE)
  have "listDescAllowsTaggedAt ldp index val s = Inr True" using ok True by simp
  note u = generic_set_unfold [OF ap(4) d this, of depth]
  note casts = cast_u64_ge_capacity [OF ap(2) ix] cast_u64_ge_max [OF ix] and inv = arr_invD [OF ap(2)]
  consider (inside) "0 \<le> index" "index < arr_length ap" | (negative) "index < 0"
    | (none) "arr_length ap < index" "ld_fillerDesc ldp = 0" | (beyond) "arr_length ap \<le> index" "arr_length ap < index \<Longrightarrow> ld_fillerDesc ldp \<noteq> 0"
    using inv by linarith
  then show ?thesis
  proof cases
    case inside
    note st = arr_inv_set [OF ap(2) inside, of val]
    have "bal_list_generic_set_tagged depth p index val s =
        Inr (0, store_array p \<lparr>lo_desc = desc, lo_array = TpArray ap\<rparr> (TpArray (ap\<lparr>arr_members := (arr_members ap)[nat index := Some val]\<rparr>)) s)"
      using u casts inside st(1) by simp
    moreover have "generic_store_code ok (ld_fillerDesc ldp = 0) p xs index = 0" using True inside ap(5) by (simp add: generic_store_code_def)
    ultimately show ?thesis
      using inside ap st updates_store [OF grows_refl wf, of p] holds_store [OF st(2), of TpArray p desc "TpArray ap" s]
      by (simp add: store_outcome_def generic_stored_def)
  next
    case negative
    then have "bal_list_generic_set_tagged depth p index val s = Inr (PANIC_INDEX_OUT_OF_BOUNDS, s)" using u casts inv by (simp add: gap_filler_def)
    then show ?thesis using True negative store_outcome_panic [OF h wf grows_refl panic_codes_nonzero(2)] by (simp add: generic_store_code_def)
  next
    case none
    then have "bal_list_generic_set_tagged depth p index val s = Inr (PANIC_NO_FILLER, s)" using u casts inv by (simp add: gap_filler_def structCreateFiller_null)
    then show ?thesis using True none ap(5) store_outcome_panic [OF h wf grows_refl panic_codes_nonzero(3)] by (simp add: generic_store_code_def)
  next
    case beyond
    have c: "generic_store_code ok (ld_fillerDesc ldp = 0) p (arr_list ap) index = (if ARRAY_LENGTH_MAX \<le> index then PANIC_LIST_TOO_LONG else 0)"
      using beyond True inv ap(3,5) by (auto simp: generic_store_code_def)
    have n: "\<not> cast_u64 index < cast_u64 (arr_length ap)" using beyond casts by simp
    show ?thesis unfolding ap(3) [symmetric] c u if_not_P [OF n]
      by (rule generic_set_beyond [OF wf ap(1,2) ix beyond(1)]) (use beyond(2) f in auto)
  qed
qed

section \<open>The filling read\<close>

definition filling_get_code :: "bool \<Rightarrow> tagged list \<Rightarrow> int \<Rightarrow> nat" where
  "filling_get_code noFiller xs index =
     (if index < 0 then PANIC_INDEX_OUT_OF_BOUNDS else if index < int (length xs) then 0
      else if noFiller then PANIC_NO_FILLER else if ARRAY_LENGTH_MAX \<le> index then PANIC_LIST_TOO_LONG else 0)"

definition filling_got :: "rt \<Rightarrow> u64 \<Rightarrow> rt \<Rightarrow> tagged list \<Rightarrow> int \<Rightarrow> tagged \<Rightarrow> tagged list \<Rightarrow> bool" where
  "filling_got s f s1 xs index v ys \<longleftrightarrow>
     index < int (length ys) \<and> ys ! nat index = v \<and>
     (if index < int (length xs) then ys = xs else \<exists>vs. ys = xs @ vs \<and> int (length ys) = index + 1 \<and> new_fillers s f s1 vs)"

definition get_outcome ::
  "rt \<Rightarrow> tagged \<Rightarrow> u64 \<Rightarrow> tagged list \<Rightarrow> nat \<Rightarrow> (rt \<Rightarrow> tagged \<Rightarrow> tagged list \<Rightarrow> bool) \<Rightarrow> fault + (nat + tagged) \<times> rt \<Rightarrow> bool" where
  "get_outcome s p desc xs code Q r \<longleftrightarrow>
     (case r of
        Inl e \<Rightarrow> e = OutOfMemory
      | Inr (res, s1) \<Rightarrow> updates (taggedToPtr p) s s1 \<and>
          (case res of
             Inl c \<Rightarrow> c = code \<and> code \<noteq> 0 \<and> holds TpArray s1 p desc xs
           | Inr v \<Rightarrow> code = 0 \<and> (\<exists>ys. holds TpArray s1 p desc ys \<and> Q s1 v ys)))"

lemma get_outcome_panic:
  assumes "holds TpArray s p desc xs" "wf_rt s" "grows s s1" "code \<noteq> 0"
  shows "get_outcome s p desc xs code Q (Inr (Inl code, s1))"
proof -
  have "holds TpArray s1 p desc xs" using holds_at [OF assms(1)] grows_heap [OF assms(3)] by (intro holds_same [OF assms(1)]) auto
  then show ?thesis using updates_grows [OF assms(3,2)] assms(4) by (simp add: get_outcome_def)
qed

text \<open>The writes of the filling read, once there is room: the filler at the index, then the gap.\<close>

lemma fill_to:
  assumes f: "f \<noteq> 0" "filler_ok d (img s) f" and g: "grows s s2" "wf_rt s2"
    and v: "filler_value (dom (heap s)) s2 f v"
      "filler_kind (img s) f = FILL_EACH \<Longrightarrow> heap s (taggedToPtr v) = None \<and> heap s2 (taggedToPtr v) \<noteq> None"
    and ap: "arr_inv 1 ap" "arr_length ap \<le> index" "index < arr_capacity ap"
  shows "case bindR (block_set (arr_members ap) index v) (\<lambda>ms.
            gap_fill d (filler_kind (img s) f) f (nat (index - arr_length ap)) (arr_length ap) v ms s2) of
      Inl e \<Rightarrow> e = OutOfMemory
    | Inr (ms2, s3) \<Rightarrow> \<exists>vs. arr_inv 1 (ap\<lparr>arr_members := ms2, arr_length := index + 1\<rparr>) \<and>
        arr_list (ap\<lparr>arr_members := ms2, arr_length := index + 1\<rparr>) = arr_list ap @ vs @ [v] \<and>
        int (length vs) = index - arr_length ap \<and> grows s2 s3 \<and> new_fillers s f s3 (vs @ [v])"
proof -
  define n k where "n = nat (arr_length ap)" and "k = nat (index - arr_length ap)"
  define ms where "ms = (arr_members ap)[n + k := Some v]"
  have i: "arr_length ap = int n" "index = int (n + k)" "n + k < length (arr_members ap)"
    using ap(2,3) arr_invD(1) [OF ap(1)] arr_inv_block [OF ap(1)] by (simp_all add: n_def k_def)
  have b: "block_set (arr_members ap) index v = Inr ms" using i(2,3) block_set_ok [of "int (n + k)" "arr_members ap" v] by (simp add: ms_def nat_add_distrib)
  have l: "n + k \<le> length ms" using i(3) by (simp add: ms_def)
  note gap = gap_fill_correct [OF f g v l, folded i(1) k_def]
  show ?thesis
  proof (cases "gap_fill d (filler_kind (img s) f) f k (arr_length ap) v ms s2")
    case (Inl e)
    then show ?thesis using gap by (simp add: b k_def [symmetric])
  next
    case (Inr r)
    obtain ms1 s3 where r: "r = (ms1, s3)" by (cases r)
    obtain vs where vs: "length vs = k" "ms1 = take n ms @ map Some vs @ drop (n + k) ms" "grows s2 s3" "new_fillers s f s3 (v # vs)"
      using gap Inr r by auto
    have "drop (n + k) ms = Some v # drop (n + length vs + 1) (arr_members ap)" "take n ms = take n (arr_members ap)"
      using i(3) vs(1) by (simp_all add: ms_def drop_update_swap Cons_nth_drop_Suc [symmetric])
    then have m: "ms1 = take n (arr_members ap) @ map Some vs @ Some v # drop (n + length vs + 1) (arr_members ap)" using vs(2) by simp
    have c: "int (n + length vs) < arr_capacity ap" "index + 1 = int (n + length vs) + 1" using ap(3) i(2) vs(1) by simp_all
    note x = arr_append [OF ap(1) n_def c(1) m, folded c(2)]
    show ?thesis unfolding b bindR_simps k_def [symmetric] Inr r prod.case sum.case
      using x vs i(1,2) new_fillers_perm by (intro exI [of _ vs]) simp
  qed
qed

text \<open>The part of the filling read behind the creation of the filler.\<close>

definition fill_beyond :: "nat \<Rightarrow> u64 \<Rightarrow> tagged \<Rightarrow> list_obj \<Rightarrow> tagged c_array \<Rightarrow> int \<Rightarrow> tagged \<Rightarrow> fillability \<Rightarrow> rt \<Rightarrow> fault + (nat + tagged) \<times> rt" where
  "fill_beyond d f p lp ap index filler fill s1 =
     bindR (if index \<ge> arr_capacity ap
            then bal_array_grow ap (index + 1) TAGGED_PTR_SHIFT sizeof_word s1 else Inr (ap, s1)) (\<lambda>(ap1, s2).
     bindR (block_set (arr_members ap1) index filler) (\<lambda>ms.
     bindR (gap_fill d fill f (nat (index - arr_length ap1)) (arr_length ap1) filler ms s2) (\<lambda>(ms2, s3).
       Inr (Inr filler, store_array p lp (TpArray (ap1\<lparr>arr_members := ms2, arr_length := index + 1\<rparr>)) s3))))"

lemma fill_beyond_correct:
  assumes h: "heap s (taggedToPtr p) = Some (ObjList \<lparr>lo_desc = desc, lo_array = TpArray ap\<rparr>)" "arr_inv 1 ap"
    and ix: "i64 index" "arr_length ap \<le> index" "index < ARRAY_LENGTH_MAX" and g: "grows s s1" "wf_rt s1"
    and f: "f \<noteq> 0" "filler_ok d (img s) f"
    and v: "filler_value (dom (heap s)) s1 f v"
      "filler_kind (img s) f = FILL_EACH \<Longrightarrow> heap s (taggedToPtr v) = None \<and> heap s1 (taggedToPtr v) \<noteq> None"
  shows "get_outcome s p desc (arr_list ap) 0 (\<lambda>s3. filling_got s f s3 (arr_list ap) index)
    (fill_beyond d f p \<lparr>lo_desc = desc, lo_array = TpArray ap\<rparr> ap index v (filler_kind (img s) f) s1)"
proof -
  have "0 \<le> index" using ix(2) arr_invD(1) [OF h(2)] by simp
  define G where "G = (if index \<ge> arr_capacity ap then bal_array_grow ap (index + 1) TAGGED_PTR_SHIFT sizeof_word s1 else Inr (ap, s1))"
  have G: "(if cast_u64 index \<ge> cast_u64 (arr_capacity ap) then bal_array_grow ap (index + 1) TAGGED_PTR_SHIFT sizeof_word s1 else Inr (ap, s1)) = G"
    using cast_u64_ge_capacity(1) [OF h(2) ix(1)] \<open>0 \<le> index\<close> by (simp add: G_def)
  note grow = grow_for_index [OF h(2) ix(1) \<open>0 \<le> index\<close> ix(3), of TAGGED_PTR_SHIFT sizeof_word s1, unfolded G]
  show ?thesis
  proof (cases G)
    case (Inl e)
    then show ?thesis using grow by (simp add: fill_beyond_def G_def [symmetric] get_outcome_def)
  next
    case (Inr r)
    obtain ap1 s2 where r: "r = (ap1, s2)" by (cases r)
    have a: "arr_inv 1 ap1" "arr_length ap1 = arr_length ap" "arr_list ap1 = arr_list ap" "index < arr_capacity ap1" "grows s1 s2"
      using grow Inr r grow_same by auto
    have s2: "grows s s2" "wf_rt s2" using grows_trans [OF g(1) a(5)] grows_wf [OF a(5) g(2)] .
    have v2: "filler_kind (img s) f = FILL_EACH \<Longrightarrow> heap s (taggedToPtr v) = None \<and> heap s2 (taggedToPtr v) \<noteq> None"
      using v(2) grows_heap [OF a(5)] by auto
    define W where "W = bindR (block_set (arr_members ap1) index v) (\<lambda>ms.
        gap_fill d (filler_kind (img s) f) f (nat (index - arr_length ap1)) (arr_length ap1) v ms s2)"
    note w = fill_to [OF f s2 filler_value_grows [OF v(1) a(5)] v2 a(1) _ a(4), folded W_def]
    have e: "fill_beyond d f p \<lparr>lo_desc = desc, lo_array = TpArray ap\<rparr> ap index v (filler_kind (img s) f) s1 =
        bindR W (\<lambda>(ms2, s3). Inr (Inr v, store_array p \<lparr>lo_desc = desc, lo_array = TpArray ap\<rparr> (TpArray (ap1\<lparr>arr_members := ms2, arr_length := index + 1\<rparr>)) s3))"
      unfolding fill_beyond_def G_def [symmetric] Inr r bindR_simps prod.case W_def bindR_assoc by (rule refl)
    show ?thesis
    proof (cases W)
      case (Inl x)
      then show ?thesis using w ix(2) a(2) e by (simp add: get_outcome_def)
    next
      case (Inr t)
      obtain ms2 s3 where t: "t = (ms2, s3)" by (cases t)
      obtain vs where vs: "arr_inv 1 (ap1\<lparr>arr_members := ms2, arr_length := index + 1\<rparr>)"
        "arr_list (ap1\<lparr>arr_members := ms2, arr_length := index + 1\<rparr>) = arr_list ap @ vs @ [v]"
        "int (length vs) = index - arr_length ap" "grows s2 s3" "new_fillers s f s3 (vs @ [v])" using w Inr t a(2,3) ix(2) by auto
      have p: "heap s (taggedToPtr p) \<noteq> None" using h(1) by simp
      note s3 = grows_trans [OF s2(1) vs(4)] grows_wf [OF vs(4) s2(2)]
      have l: "index = int (length (arr_list ap @ vs))" using vs(3) arr_list_length1 [OF h(2)] by simp
      have "filling_got s f (store_array p lp a s3) (arr_list ap) index v (arr_list ap @ vs @ [v])" for lp a
        using new_fillers_store [OF vs(5) p, of lp a] l by (auto simp: filling_got_def nth_append intro: exI [of _ "vs @ [v]"])
      then show ?thesis unfolding e Inr t bindR_simps prod.case
        using updates_store [OF s3 p] holds_store [OF vs(1), of TpArray p desc "TpArray ap" s3] vs(2) by (auto simp: get_outcome_def)
    qed
  qed
qed

lemma filling_get_beyond:
  assumes wf: "wf_rt s" and ap: "heap s (taggedToPtr p) = Some (ObjList \<lparr>lo_desc = desc, lo_array = TpArray ap\<rparr>)" "arr_inv 1 ap"
    and ix: "i64 index" "arr_length ap \<le> index" and f: "f \<noteq> 0" "filler_ok d (img s) f"
  shows "get_outcome s p desc (arr_list ap) (if ARRAY_LENGTH_MAX \<le> index then PANIC_LIST_TOO_LONG else 0)
    (\<lambda>s1. filling_got s f s1 (arr_list ap) index)
    (bindR (structCreateFiller d f True s) (\<lambda>((filler, fill), s1).
       if fill = FILL_NONE then Inr (Inl PANIC_NO_FILLER, s1)
       else if index \<ge> arr_capacity ap \<and> index \<ge> ARRAY_LENGTH_MAX then Inr (Inl PANIC_LIST_TOO_LONG, s1)
       else fill_beyond d f p \<lparr>lo_desc = desc, lo_array = TpArray ap\<rparr> ap index filler fill s1))"
proof (cases "structCreateFiller d f True s")
  case (Inl e)
  then show ?thesis using structCreateFiller_correct [OF f wf order_refl, of True] by (simp add: get_outcome_def)
next
  case (Inr r)
  obtain v fill s1 where r: "r = ((v, fill), s1)" by (metis surj_pair)
  have v: "grows s s1" "filler_value (dom (heap s)) s1 f v" "fill = filler_kind (img s) f"
    "fill = FILL_EACH \<longrightarrow> heap s (taggedToPtr v) = None \<and> heap s1 (taggedToPtr v) \<noteq> None"
    using structCreateFiller_correct [OF f wf order_refl, of True] Inr r by auto
  have h: "holds TpArray s p desc (arr_list ap)" using ap by (auto simp: holds_def)
  show ?thesis
    unfolding Inr r bindR_simps prod.case v(3)
    using get_outcome_panic [OF h wf v(1) panic_codes_nonzero(4)] arr_invD [OF ap(2)] v(3,4)
      fill_beyond_correct [OF ap ix _ v(1) grows_wf [OF v(1) wf] f v(2)]
    by (auto simp: not_le)
qed

lemma filling_get_correct:
  assumes wf: "wf_rt s" and h: "holds TpArray s p desc xs" and d: "list_desc_at desc s = Inr ldp" and ix: "i64 index"
    and f: "ld_fillerDesc ldp = 0 \<or> filler_ok depth (img s) (ld_fillerDesc ldp)"
  shows "get_outcome s p desc xs (filling_get_code (ld_fillerDesc ldp = 0) xs index)
    (\<lambda>s1. filling_got s (ld_fillerDesc ldp) s1 xs index) (bal_list_filling_get depth p index s)"
proof -
  obtain ap where ap: "heap s (taggedToPtr p) = Some (ObjList \<lparr>lo_desc = desc, lo_array = TpArray ap\<rparr>)" "arr_inv 1 ap" "arr_list ap = xs"
    "list_at p s = Inr \<lparr>lo_desc = desc, lo_array = TpArray ap\<rparr>" "arr_length ap = int (length xs)" using h by (rule holdsE)
  have u: "bal_list_filling_get depth p index s =
    (if cast_u64 index < cast_u64 (arr_length ap) then bindR (block_get (arr_members ap) index) (\<lambda>v. Inr (Inr v, s))
     else if index < 0 then Inr (Inl PANIC_INDEX_OUT_OF_BOUNDS, s)
     else bindR (structCreateFiller depth (ld_fillerDesc ldp) True s) (\<lambda>((filler, fill), s1).
       if fill = FILL_NONE then Inr (Inl PANIC_NO_FILLER, s1)
       else if index \<ge> arr_capacity ap \<and> index \<ge> ARRAY_LENGTH_MAX then Inr (Inl PANIC_LIST_TOO_LONG, s1)
       else fill_beyond depth (ld_fillerDesc ldp) p \<lparr>lo_desc = desc, lo_array = TpArray ap\<rparr> ap index filler fill s1))"
    unfolding bal_list_filling_get_def fill_beyond_def ap(4) bindR_simps list_obj.simps by (simp add: tpArray_def d)
  note casts = cast_u64_ge_capacity(2) [OF ap(2) ix] and inv = arr_invD [OF ap(2)]
  consider (inside) "0 \<le> index" "index < arr_length ap" | (negative) "index < 0"
    | (none) "arr_length ap \<le> index" "ld_fillerDesc ldp = 0" | (beyond) "arr_length ap \<le> index" "ld_fillerDesc ldp \<noteq> 0" using inv by linarith
  then show ?thesis
  proof cases
    case inside
    then show ?thesis using u casts block_get_arr_list [OF ap(2) _ inside] ap(3,5) h updates_grows [OF grows_refl wf]
      by (simp add: get_outcome_def filling_get_code_def filling_got_def)
  next
    case negative
    then show ?thesis using u casts get_outcome_panic [OF h wf grows_refl panic_codes_nonzero(2)] by (simp add: filling_get_code_def)
  next
    case none
    then have "bal_list_filling_get depth p index s = Inr (Inl PANIC_NO_FILLER, s)" using u casts inv by (simp add: structCreateFiller_null)
    then show ?thesis using none inv ap(5) get_outcome_panic [OF h wf grows_refl panic_codes_nonzero(3)] by (simp add: filling_get_code_def)
  next
    case beyond
    have nr: "\<not> cast_u64 index < cast_u64 (arr_length ap)" "\<not> index < 0" using beyond casts inv by simp_all
    have c: "filling_get_code (ld_fillerDesc ldp = 0) (arr_list ap) index = (if ARRAY_LENGTH_MAX \<le> index then PANIC_LIST_TOO_LONG else 0)"
      using beyond inv ap(3,5) by (auto simp: filling_get_code_def)
    have fo: "filler_ok depth (img s) (ld_fillerDesc ldp)" using beyond f by simp
    show ?thesis unfolding ap(3) [symmetric] c u if_not_P [OF nr(1)] if_not_P [OF nr(2)]
      by (rule filling_get_beyond [OF wf ap(1,2) ix beyond fo])
  qed
qed

end
