(* ===== verification/Rt_Type_Frame.thy ===== *)
theory Rt_Type_Frame
  imports Rt_Denote
begin

text \<open>
  The types of values over time. A type test reads a list through its descriptor, a mapping through its
  descriptor and its keys, and other objects, which never change; so an operation that keeps
  these leaves the type of every value as it was.
\<close>

section \<open>Reads that keep their result\<close>

named_theorems keeps_intros

definition keeps :: "rt \<Rightarrow> rt \<Rightarrow> (rt \<Rightarrow> fault + 'a) \<Rightarrow> bool" where
  "keeps s s1 f \<longleftrightarrow> (\<forall>x. f s = Inr x \<longrightarrow> f s1 = Inr x)"

lemma keepsD: "keeps s s1 f \<Longrightarrow> f s = Inr x \<Longrightarrow> f s1 = Inr x"
  by (simp add: keeps_def)

lemma keeps_const [keeps_intros]: "keeps s s1 (\<lambda>_. r)"
  by (simp add: keeps_def)

lemma keeps_bind [keeps_intros]:
  "keeps s s1 f \<Longrightarrow> (\<And>x. keeps s s1 (g x)) \<Longrightarrow> keeps s s1 (\<lambda>s. bindR (f s) (\<lambda>x. g x s))"
  by (auto simp: keeps_def)

lemma keeps_if [keeps_intros]: "keeps s s1 f \<Longrightarrow> keeps s s1 g \<Longrightarrow> keeps s s1 (\<lambda>s. if b then f s else g s)"
  by (simp add: keeps_def)

lemma keeps_let [keeps_intros]: "(\<And>x. keeps s s1 (f x)) \<Longrightarrow> keeps s s1 (\<lambda>s. let x = e in f x s)"
  by simp

text \<open>What a type test may read of an object: of a list the descriptor, of a mapping the descriptor and the keys.\<close>

definition keys_kept :: "map_field option list \<Rightarrow> map_field option list \<Rightarrow> bool" where
  "keys_kept ms ms1 \<longleftrightarrow>
     (\<forall>i f. block_get ms i = Inr f \<longrightarrow> (\<exists>f1. block_get ms1 i = Inr f1 \<and> mf_key f1 = mf_key f))"

lemma keys_kept_refl [simp]: "keys_kept ms ms"
  by (simp add: keys_kept_def)

lemma keys_kept_trans: "keys_kept ms ms1 \<Longrightarrow> keys_kept ms1 ms2 \<Longrightarrow> keys_kept ms ms2"
  unfolding keys_kept_def by metis

fun same_shape :: "obj \<Rightarrow> obj \<Rightarrow> bool" where
  "same_shape (ObjList l) x = (case x of ObjList l1 \<Rightarrow> lo_desc l1 = lo_desc l | _ \<Rightarrow> False)"
| "same_shape (ObjMapping m) x =
     (case x of ObjMapping m1 \<Rightarrow> mo_desc m1 = mo_desc m \<and> keys_kept (arr_members (mo_fArray m)) (arr_members (mo_fArray m1)) | _ \<Rightarrow> False)"
| "same_shape y x = (x = y)"

definition keeps_shapes :: "rt \<Rightarrow> rt \<Rightarrow> bool" where
  "keeps_shapes s s1 \<longleftrightarrow> img s1 = img s \<and> (\<forall>a x. heap s a = Some x \<longrightarrow> (\<exists>y. heap s1 a = Some y \<and> same_shape x y))"

lemma same_shape_refl [simp]: "same_shape x x"
  by (cases x) auto

lemma same_shape_trans: "same_shape x y \<Longrightarrow> same_shape y z \<Longrightarrow> same_shape x z"
  by (cases x; cases y; cases z) (auto intro: keys_kept_trans)

lemma keeps_shapes_refl [simp]: "keeps_shapes s s"
  by (simp add: keeps_shapes_def)

lemma keeps_shapes_trans: "keeps_shapes s s1 \<Longrightarrow> keeps_shapes s1 s2 \<Longrightarrow> keeps_shapes s s2"
  unfolding keeps_shapes_def using same_shape_trans by metis

lemma keeps_shapes_grows: "grows s s1 \<Longrightarrow> keeps_shapes s s1"
  using grows_heap [of s s1] by (auto simp: keeps_shapes_def grows_img)

section \<open>Type tests keep their result\<close>

lemma keeps_image [keeps_intros]:
  assumes "keeps_shapes s s1"
  shows "keeps s s1 (complex_type_at t)" "keeps s s1 (list_desc_at d)" "keeps s s1 (mapping_desc_at d)" "keeps s s1 (function_desc_at d)"
  using assms by (simp_all add: keeps_def keeps_shapes_def complex_type_at_def list_desc_at_def mapping_desc_at_def function_desc_at_def)

lemma keeps_read:
  assumes "keeps_shapes s s1" "\<And>x y. same_shape x y \<Longrightarrow> keeps s s1 (h x)" "\<And>x y. same_shape x y \<Longrightarrow> h y = h x"
  shows "keeps s s1 (\<lambda>s. case heap s a of None \<Rightarrow> Inl e | Some x \<Rightarrow> h x s)"
  unfolding keeps_def
proof (intro allI impI)
  fix r
  assume r: "(case heap s a of None \<Rightarrow> Inl e | Some x \<Rightarrow> h x s) = Inr r"
  then obtain x where x: "heap s a = Some x" "h x s = Inr r" by (auto split: option.splits)
  then obtain y where "heap s1 a = Some y" "same_shape x y" using assms(1) by (auto simp: keeps_shapes_def)
  then show "(case heap s1 a of None \<Rightarrow> Inl e | Some x \<Rightarrow> h x s1) = Inr r"
    using assms(2,3) x(2) keepsD [of s s1 "h x"] by auto
qed

lemma same_shapeE:
  assumes "same_shape x y"
  obtains "x = y" | l l1 where "x = ObjList l" "y = ObjList l1" "lo_desc l1 = lo_desc l"
    | m m1 where "x = ObjMapping m" "y = ObjMapping m1" "mo_desc m1 = mo_desc m"
  using assms by (cases x; cases y) auto

text \<open>Immutable objects.\<close>

lemma keeps_content [keeps_intros]:
  assumes "keeps_shapes s s1"
  shows "keeps s s1 (heap_words a)" "keeps s s1 (taggedToInt p)" "keeps s s1 (taggedToFloat p)" "keeps s s1 (taggedToDecQuad p)"
    "keeps s s1 (function_at p)"
  unfolding heap_words_def taggedToInt_def taggedToFloat_def taggedToDecQuad_def function_at_def
  by (intro keeps_if keeps_const keeps_read [OF assms]; erule same_shapeE; simp)+

text \<open>A structure is only read through its descriptor.\<close>

lemma keeps_list_at:
  assumes "keeps_shapes s s1" "\<And>l l1. lo_desc l1 = lo_desc l \<Longrightarrow> g l1 = g l" "\<And>l. keeps s s1 (g l)"
  shows "keeps s s1 (\<lambda>s. bindR (list_at p s) (\<lambda>l. g l s))"
proof -
  have "(\<lambda>s. bindR (list_at p s) (\<lambda>l. g l s)) =
      (\<lambda>s. case heap s (taggedToPtr p) of None \<Rightarrow> Inl BadPointer | Some x \<Rightarrow> (\<lambda>x s. case x of ObjList l \<Rightarrow> g l s | _ \<Rightarrow> Inl BadPointer) x s)"
    by (rule ext) (simp add: list_at_def split: option.split obj.split)
  moreover have "keeps s s1 (\<lambda>s. case heap s (taggedToPtr p) of None \<Rightarrow> Inl BadPointer | Some x \<Rightarrow> (\<lambda>x s. case x of ObjList l \<Rightarrow> g l s | _ \<Rightarrow> Inl BadPointer) x s)"
  proof (rule keeps_read [OF assms(1)])
    fix x y
    show "keeps s s1 (\<lambda>s. case x of ObjList l \<Rightarrow> g l s | _ \<Rightarrow> Inl BadPointer)" using assms(3) by (cases x) (simp_all add: keeps_const)
    assume "same_shape x y"
    then show "(\<lambda>s. case y of ObjList l \<Rightarrow> g l s | _ \<Rightarrow> Inl BadPointer) = (\<lambda>s. case x of ObjList l \<Rightarrow> g l s | _ \<Rightarrow> Inl BadPointer)"
    proof (cases rule: same_shapeE)
      case (2 l l1)
      then show ?thesis using assms(2) [of l1 l] by simp
    qed simp_all
  qed
  ultimately show ?thesis by simp
qed

lemma keeps_structure_tid [keeps_intros]:
  assumes "keeps_shapes s s1"
  shows "keeps s s1 (structure_tid p)"
  unfolding structure_tid_def
proof (rule keeps_read [OF assms])
  show "keeps s s1 (\<lambda>s. case x of ObjList lp \<Rightarrow> bindR (list_desc_at (lo_desc lp) s) (\<lambda>d. Inr (ld_tid d))
      | ObjMapping mp \<Rightarrow> bindR (mapping_desc_at (mo_desc mp) s) (\<lambda>d. Inr (md_tid d))
      | ObjFunction fp \<Rightarrow> bindR (function_desc_at (fo_desc fp) s) (\<lambda>d. Inr (fd_tid d)) | _ \<Rightarrow> Inl BadPointer)" for x
    by (cases x) (simp_all add: keeps_const keeps_bind keeps_image [OF assms])
qed (erule same_shapeE; simp)

section \<open>Strings\<close>

lemma keeps_strings [keeps_intros]:
  assumes "keeps_shapes s s1"
  shows "keeps s s1 (taggedStringLength p)" "keeps s s1 (taggedStringBytes p)" "keeps s s1 (bal_string_heap_eq p q)"
    "keeps s s1 (taggedStringEqual p q)"
  unfolding taggedStringLength_def taggedStringBytes_def taggedStringEqual_def bal_string_heap_eq_def
  by (intro keeps_intros assms)+

lemma keeps_string_cmp [keeps_intros]:
  assumes "keeps_shapes s s1"
  shows "keeps s s1 (bal_string_cmp p q)"
  unfolding bal_string_cmp_def stringCmpGeneric_def by (intro keeps_intros assms)+


lemma keeps_string_list [keeps_intros]:
  assumes "keeps_shapes s s1"
  shows "keeps s s1 (stringListContains strs i j p)"
proof -
  have "stringListContains strs i j p s = Inr x \<Longrightarrow> stringListContains strs i j p s1 = Inr x" for x
    using assms
  proof (induction strs i j p s rule: stringListContains.induct)
    case (1 strs i j p s)
    show ?case
      using 1 keepsD [OF keeps_string_cmp [OF 1(4)]] stringListContains.simps [of strs i j p s] stringListContains.simps [of strs i j p s1]
      by (auto simp: Let_def split: if_splits)
  qed
  then show ?thesis by (simp add: keeps_def)
qed

section \<open>Subtypes\<close>

lemma keeps_bit_sets [keeps_intros]:
  assumes "keeps_shapes s s1"
  shows "keeps s s1 (memberBitSet t)" "keeps s s1 (memberTypeIsSubtypeSimple t b)" "keeps s s1 (memberTypeIsSupertypeSimple t b)"
  unfolding memberBitSet_def memberTypeIsSubtypeSimple_def memberTypeIsSupertypeSimple_def by (intro keeps_intros assms)+

lemma keeps_all_subtypes [keeps_intros]:
  assumes "keeps_shapes s s1"
  shows "keeps s s1 (all_subtypes_simple ms b)"
  unfolding keeps_def
proof (induction ms)
  case (Cons m ms)
  then show ?case using keeps_bit_sets(2) [OF assms, of m b] by (auto simp: keeps_def)
qed simp


lemma keeps_decimal_list [keeps_intros]:
  assumes "keeps_shapes s s1"
  shows "keeps s s1 (decimalListContains ds i j d)"
proof -
  have "decimalListContains ds i j d s1 = decimalListContains ds i j d s"
    using assms
  proof (induction ds i j d s rule: decimalListContains.induct)
    case (1 ds i j d s)
    have "img s1 = img s" using 1(3) by (simp add: keeps_shapes_def)
    then show ?case
      using 1 decimalListContains.simps [of ds i j d s] decimalListContains.simps [of ds i j d s1]
      by (auto simp: Let_def intro!: bindR_cong)
  qed
  then show ?thesis by (simp add: keeps_def)
qed

lemma keeps_record_fields:
  assumes "keeps_shapes s s1" "record_fields_match tfs m mdp i s = Inr x" "keys_kept (arr_members (mo_fArray m)) (arr_members (mo_fArray m1))"
  shows "record_fields_match tfs m1 mdp i s1 = Inr x"
  using assms(2)
proof (induction tfs arbitrary: i)
  case (Cons tf tfs)
  then show ?case
    using assms(3) keepsD [OF keeps_strings(4) [OF assms(1)]] keepsD [OF keeps_bit_sets(2) [OF assms(1)]]
    unfolding keys_kept_def by (fastforce split: if_splits)
qed simp

lemma keeps_params [keeps_intros]:
  assumes "keeps_shapes s s1"
  shows "keeps s s1 (params_match bs fdp i)"
proof -
  have "params_match bs fdp i s = Inr x \<Longrightarrow> params_match bs fdp i s1 = Inr x" for x
    using keepsD [OF keeps_bit_sets(3) [OF assms]] by (induction bs arbitrary: i) (auto split: if_splits)
  then show ?thesis by (simp add: keeps_def)
qed


text \<open>A mapping is read through its descriptor and its keys.\<close>

lemma mapping_at_kept:
  assumes "keeps_shapes s s1" "mapping_at p s = Inr m"
  obtains m1 where "mapping_at p s1 = Inr m1" "mo_desc m1 = mo_desc m" "keys_kept (arr_members (mo_fArray m)) (arr_members (mo_fArray m1))"
proof -
  have "heap s (taggedToPtr p) = Some (ObjMapping m)" using assms(2) by (simp add: mapping_at_def split: option.splits obj.splits)
  then obtain y where y: "heap s1 (taggedToPtr p) = Some y" "same_shape (ObjMapping m) y" using assms(1) unfolding keeps_shapes_def by blast
  then obtain m1 where "y = ObjMapping m1" by (cases y) auto
  then show thesis using that y by (simp add: mapping_at_def)
qed

lemma keeps_map_type [keeps_intros]:
  assumes "keeps_shapes s s1"
  shows "keeps s s1 (bal_map_subtype_contains b p)"
  unfolding keeps_def
proof (intro allI impI)
  fix x assume x: "bal_map_subtype_contains b p s = Inr x"
  show "bal_map_subtype_contains b p s1 = Inr x"
  proof (cases "utTag p = TAG_MAPPING")
    case True
    then obtain m where m: "mapping_at p s = Inr m" using x by (auto simp: bal_map_subtype_contains_def)
    obtain m1 where "mapping_at p s1 = Inr m1" "mo_desc m1 = mo_desc m" using mapping_at_kept [OF assms m] .
    then show ?thesis
      using x True m keepsD [OF keeps_image(3) [OF assms]] keepsD [OF keeps_all_subtypes [OF assms]] keepsD [OF keeps_bit_sets(2) [OF assms]]
      by (fastforce simp: bal_map_subtype_contains_def split: if_splits)
  qed (use x in \<open>simp add: bal_map_subtype_contains_def\<close>)
qed

lemma keeps_record_type [keeps_intros]:
  assumes "keeps_shapes s s1"
  shows "keeps s s1 (bal_record_subtype_contains tfs p)"
  unfolding keeps_def
proof (intro allI impI)
  fix x assume x: "bal_record_subtype_contains tfs p s = Inr x"
  show "bal_record_subtype_contains tfs p s1 = Inr x"
  proof (cases "utTag p = TAG_MAPPING")
    case True
    then obtain m where m: "mapping_at p s = Inr m" using x by (auto simp: bal_record_subtype_contains_def)
    obtain m1 where m1: "mapping_at p s1 = Inr m1" "mo_desc m1 = mo_desc m" "keys_kept (arr_members (mo_fArray m)) (arr_members (mo_fArray m1))"
      using mapping_at_kept [OF assms m] .
    then show ?thesis
      using x True m keepsD [OF keeps_image(3) [OF assms]] keeps_record_fields [OF assms _ m1(3)]
      by (auto simp: bal_record_subtype_contains_def split: if_splits)
  qed (use x in \<open>simp add: bal_record_subtype_contains_def\<close>)
qed

lemma keeps_structure_types [keeps_intros]:
  assumes "keeps_shapes s s1"
  shows "keeps s s1 (bal_array_subtype_contains b p)" "keeps s s1 (bal_function_subtype_contains r ps p)"
proof -
  show "keeps s s1 (bal_array_subtype_contains b p)"
    unfolding bal_array_subtype_contains_def by (rule keeps_list_at [OF assms]) (simp, intro keeps_intros assms)
qed (unfold bal_function_subtype_contains_def Let_def, intro keeps_intros assms)

lemma keeps_subtype [keeps_intros]:
  assumes "keeps_shapes s s1"
  shows "keeps s s1 (subtype_contains t p)"
proof -
  have "keeps s s1 (\<lambda>s. subtype_contains t p s)"
  proof (cases t)
    case (IntSubtype ranges)
    then show ?thesis unfolding IntSubtype subtype_contains.simps bal_int_subtype_contains_def by (intro keeps_intros assms)
  next
    case (FloatSubtype included floats)
    then show ?thesis unfolding FloatSubtype subtype_contains.simps bal_float_subtype_contains_def by (intro keeps_intros assms)
  next
    case (DecimalSubtype included ds)
    then show ?thesis unfolding DecimalSubtype subtype_contains.simps bal_decimal_subtype_contains_def by (intro keeps_intros assms)
  next
    case (StringSubtype c nc strs)
    then show ?thesis unfolding StringSubtype subtype_contains.simps bal_string_subtype_contains_def by (intro keeps_intros assms)
  next
    case (PrecomputedSubtype tids)
    then show ?thesis unfolding PrecomputedSubtype subtype_contains.simps bal_precomputed_subtype_contains_def by (intro keeps_intros assms)
  qed (simp_all add: keeps_intros assms)
  then show ?thesis by simp
qed

lemma keeps_types:
  assumes "keeps_shapes s s1"
  shows "keeps s s1 (bal_type_contains ctp p)" "keeps s s1 (memberTypeContainsTagged t p)" "keeps s s1 (listDescAllowsTaggedAt ldp i p)"
  unfolding bal_type_contains_def memberTypeContainsTagged_def listDescAllowsTaggedAt_def complexTypeContainsTagged_def
  by (intro keeps_intros assms)+

section \<open>Runs\<close>

text \<open>
  The contract of operations on a structure: a step keeps the invariant of the structure and the shapes
  of all objects. Then so does a run, and no value changes its type.
\<close>

locale typed_runs =
  fixes ok :: "'c \<Rightarrow> bool" and state :: "'c \<Rightarrow> rt" and step :: "'c \<Rightarrow> 'c \<Rightarrow> bool"
  assumes step_ok: "ok c \<Longrightarrow> step c c1 \<Longrightarrow> ok c1 \<and> keeps_shapes (state c) (state c1)"
begin

lemma run_ok:
  assumes "step\<^sup>*\<^sup>* c c1" "ok c"
  shows "ok c1 \<and> keeps_shapes (state c) (state c1)"
  using assms by (induction rule: rtranclp_induct) (auto dest: step_ok intro: keeps_shapes_trans)

lemma run_types:
  assumes "step\<^sup>*\<^sup>* c c1" "ok c" "bal_type_contains ctp v (state c) = Inr b"
  shows "bal_type_contains ctp v (state c1) = Inr b"
  using keepsD [OF keeps_types(1)] run_ok [OF assms(1,2)] assms(3) by blast

end

end
