(* ===== verification/Rt_List_Types.thy ===== *)
theory Rt_List_Types
  imports Rt_Generic_Lists Rt_Type_Frame
begin

text \<open>
  The members of a generic list conform to its descriptor in every state that stores into it and
  filling reads of it can reach.
\<close>

lemma keeps_shapes_updates:
  assumes "updates (taggedToPtr p) s s1" "holds TpArray s p desc xs" "holds TpArray s1 p desc ys"
  shows "keeps_shapes s s1"
proof -
  have "\<exists>y. heap s1 a = Some y \<and> same_shape x y" if "heap s a = Some x" for a x
    using that assms by (cases "a = taggedToPtr p") (auto simp: updates_def holds_def)
  then show ?thesis using assms(1) by (simp add: keeps_shapes_def updates_def)
qed

section \<open>Conforming lists\<close>

definition conforms :: "rt \<Rightarrow> list_desc \<Rightarrow> tagged list \<Rightarrow> bool" where
  "conforms s ldp xs \<longleftrightarrow> (\<forall>i < length xs. listDescAllowsTaggedAt ldp (int i) (xs ! i) s = Inr True)"

text \<open>The fillers that the compiler chose have the rest type of the list.\<close>

definition filler_fits :: "image \<Rightarrow> list_desc \<Rightarrow> bool" where
  "filler_fits im ldp \<longleftrightarrow>
     (\<forall>s v. img s = im \<longrightarrow> filler_value {} s (ld_fillerDesc ldp) v \<longrightarrow> memberTypeContainsTagged (ld_restType ldp) v s = Inr True)"

definition list_type_ok :: "nat \<Rightarrow> image \<Rightarrow> list_desc \<Rightarrow> bool" where
  "list_type_ok d im ldp \<longleftrightarrow>
     0 \<le> ld_minLength ldp \<and> (ld_fillerDesc ldp = 0 \<or> filler_ok d im (ld_fillerDesc ldp) \<and> filler_fits im ldp)"

text \<open>The invariant: the list has its members, of the right types, and at least as many as its type demands.\<close>

definition conforming :: "tagged \<Rightarrow> u64 \<Rightarrow> list_desc \<Rightarrow> rt \<Rightarrow> bool" where
  "conforming p desc ldp s \<longleftrightarrow>
     wf_rt s \<and> list_desc_at desc s = Inr ldp \<and>
     (\<exists>xs. holds TpArray s p desc xs \<and> conforms s ldp xs \<and> ld_minLength ldp \<le> int (length xs))"

lemma conforms_kept: "conforms s ldp xs \<Longrightarrow> keeps_shapes s s1 \<Longrightarrow> conforms s1 ldp xs"
  using keepsD [OF keeps_types(3)] by (auto simp: conforms_def)

lemma allows_rest:
  assumes "0 \<le> ld_minLength ldp" "ld_minLength ldp \<le> int i" "int i \<le> INT64_MAX"
  shows "listDescAllowsTaggedAt ldp (int i) v s = memberTypeContainsTagged (ld_restType ldp) v s"
proof -
  have "\<not> cast_u64 (int i) < cast_u64 (ld_minLength ldp)" using assms by (simp add: cast_u64_def)
  then show ?thesis by (simp add: listDescAllowsTaggedAt_def)
qed

lemma new_fillers_conform:
  assumes "new_fillers s f s1 vs" "filler_fits (img s1) ldp" "f = ld_fillerDesc ldp" "v \<in> set vs"
  shows "memberTypeContainsTagged (ld_restType ldp) v s1 = Inr True"
proof -
  have "filler_value {} s1 f v" using assms(1,4) filler_value_subset [of "dom (heap s)" s1 f v "{}"] by (simp add: new_fillers_def)
  then show ?thesis using assms(2,3) by (simp add: filler_fits_def)
qed

lemma conforms_append:
  assumes "conforms s ldp xs" "\<And>i. i < length ys \<Longrightarrow> listDescAllowsTaggedAt ldp (int (length xs + i)) (ys ! i) s = Inr True"
  shows "conforms s ldp (xs @ ys)"
  unfolding conforms_def
proof (intro allI impI)
  fix i assume i: "i < length (xs @ ys)"
  show "listDescAllowsTaggedAt ldp (int i) ((xs @ ys) ! i) s = Inr True"
    using i assms(1) assms(2) [of "i - length xs"] by (cases "i < length xs") (simp_all add: conforms_def nth_append)
qed

lemma conforms_fillers:
  assumes "conforms s1 ldp xs" "new_fillers s (ld_fillerDesc ldp) s1 vs" "filler_fits (img s1) ldp"
    "0 \<le> ld_minLength ldp" "ld_minLength ldp \<le> int (length xs)" "int (length (xs @ vs)) \<le> INT64_MAX"
  shows "conforms s1 ldp (xs @ vs)"
proof (rule conforms_append [OF assms(1)])
  fix i assume "i < length vs"
  then show "listDescAllowsTaggedAt ldp (int (length xs + i)) (vs ! i) s1 = Inr True"
    using allows_rest [OF assms(4), of "length xs + i"] assms(5,6) new_fillers_conform [OF assms(2,3) refl, of "vs ! i"] by simp
qed


lemma holds_bound: "holds TpArray s p desc xs \<Longrightarrow> int (length xs) \<le> ARRAY_LENGTH_MAX"
  by (erule holdsE) (use arr_invD in fastforce)

lemma stored_conforms:
  assumes "generic_stored s (ld_fillerDesc ldp) s1 xs index val ys" "conforms s1 ldp xs" "listDescAllowsTaggedAt ldp index val s1 = Inr True"
    "0 \<le> index" "int (length ys) \<le> ARRAY_LENGTH_MAX" "0 \<le> ld_minLength ldp" "ld_minLength ldp \<le> int (length xs)"
    "int (length xs) < index \<Longrightarrow> filler_fits (img s1) ldp"
  shows "conforms s1 ldp ys \<and> length xs \<le> length ys"
proof (cases "index < int (length xs)")
  case True
  then show ?thesis using assms(1-4) by (auto simp: generic_stored_def conforms_def nth_list_update)
next
  case False
  then obtain vs where vs: "ys = (xs @ vs) @ [val]" "int (length (xs @ vs)) = index" "new_fillers s (ld_fillerDesc ldp) s1 vs"
    using assms(1) by (auto simp: generic_stored_def)
  have "conforms s1 ldp (xs @ vs)"
  proof (cases "vs = []")
    case False
    then have "int (length xs) < index" using vs(2) by (cases vs) simp_all
    then show ?thesis using assms(5,8) vs(1) by (intro conforms_fillers [OF assms(2) vs(3) _ assms(6,7)]) (simp_all add: ARRAY_LENGTH_MAX_eq)
  qed (use assms(2) in simp)
  then show ?thesis unfolding vs(1) using conforms_append [of s1 ldp "xs @ vs" "[val]"] assms(3) vs(2) by simp
qed

lemma store_keeps_conforming:
  assumes c: "conforming p desc ldp s" and t: "list_type_ok d (img s) ldp" and ix: "i64 index"
    and st: "bal_list_generic_set_tagged d p index val s = Inr (code, s1)"
  shows "conforming p desc ldp s1 \<and> keeps_shapes s s1"
proof -
  obtain xs where xs: "wf_rt s" "list_desc_at desc s = Inr ldp" "holds TpArray s p desc xs" "conforms s ldp xs"
    "ld_minLength ldp \<le> int (length xs)" using c by (auto simp: conforming_def)
  obtain lp where lp: "list_at p s = Inr lp" "lo_desc lp = desc" using xs(3) by (auto elim: holdsE)
  obtain ok where ok: "listDescAllowsTaggedAt ldp index val s = Inr ok"
    using st lp xs(2) by (auto simp: bal_list_generic_set_tagged_def)
  have f: "ld_fillerDesc ldp = 0 \<or> filler_ok d (img s) (ld_fillerDesc ldp)" using t by (auto simp: list_type_ok_def)
  define rc where "rc = generic_store_code ok (ld_fillerDesc ldp = 0) p xs index"
  obtain ys where ys: "code = rc" "updates (taggedToPtr p) s s1" "holds TpArray s1 p desc ys"
    "if rc = 0 then generic_stored s (ld_fillerDesc ldp) s1 xs index val ys else ys = xs"
    using generic_set_correct [OF xs(1,3,2) ix ok f] st by (auto simp: store_outcome_def rc_def)
  note k = keeps_shapes_updates [OF ys(2) xs(3) ys(3)] and i = ys(2) [unfolded updates_def]
  have xs1: "conforms s1 ldp xs" using conforms_kept [OF xs(4) k] .
  have "conforms s1 ldp ys \<and> length xs \<le> length ys"
  proof (cases "rc = 0")
    case True
    then have r: ok "0 \<le> index" "int (length xs) < index \<Longrightarrow> ld_fillerDesc ldp \<noteq> 0"
      by (auto simp: rc_def generic_store_code_def storePanicCode_nonzero panic_codes_nonzero split: if_splits)
    have "listDescAllowsTaggedAt ldp index val s1 = Inr True" using keepsD [OF keeps_types(3) [OF k] ok] r(1) by simp
    then show ?thesis using True ys(4) r i t xs(5) holds_bound [OF ys(3)]
      by (intro stored_conforms [OF _ xs1]) (auto simp: list_type_ok_def)
  qed (use ys(4) xs1 in simp)
  then show ?thesis using k i xs(2,5) ys(3) by (auto simp: conforming_def list_desc_at_def)
qed

lemma read_keeps_conforming:
  assumes c: "conforming p desc ldp s" and t: "list_type_ok d (img s) ldp" and ix: "i64 index"
    and st: "bal_list_filling_get d p index s = Inr (r, s1)"
  shows "conforming p desc ldp s1 \<and> keeps_shapes s s1"
proof -
  obtain xs where xs: "wf_rt s" "list_desc_at desc s = Inr ldp" "holds TpArray s p desc xs" "conforms s ldp xs"
    "ld_minLength ldp \<le> int (length xs)" using c by (auto simp: conforming_def)
  have f: "ld_fillerDesc ldp = 0 \<or> filler_ok d (img s) (ld_fillerDesc ldp)" using t by (auto simp: list_type_ok_def)
  define rc where "rc = filling_get_code (ld_fillerDesc ldp = 0) xs index"
  obtain ys where ys: "updates (taggedToPtr p) s s1" "holds TpArray s1 p desc ys"
    "ys = xs \<or> rc = 0 \<and> (\<exists>v. filling_got s (ld_fillerDesc ldp) s1 xs index v ys)"
    using filling_get_correct [OF xs(1,3,2) ix f] st by (auto simp: get_outcome_def rc_def split: sum.splits)
  note k = keeps_shapes_updates [OF ys(1) xs(3) ys(2)] and i = ys(1) [unfolded updates_def]
  have xs1: "conforms s1 ldp xs" using conforms_kept [OF xs(4) k] .
  have "conforms s1 ldp ys \<and> length xs \<le> length ys"
  proof (cases "ys = xs")
    case False
    then obtain vs where vs: "ys = xs @ vs" "new_fillers s (ld_fillerDesc ldp) s1 vs" "rc = 0" "\<not> index < int (length xs)"
      using ys(3) by (auto simp: filling_got_def split: if_splits)
    then have "ld_fillerDesc ldp \<noteq> 0" by (auto simp: rc_def filling_get_code_def panic_codes_nonzero split: if_splits)
    then show ?thesis using vs(1) i t xs(5) holds_bound [OF ys(2)]
      by (auto intro!: conforms_fillers [OF xs1 vs(2)] simp: list_type_ok_def ARRAY_LENGTH_MAX_eq)
  qed (use xs1 in simp)
  then show ?thesis using k i xs(2,5) ys(2) by (auto simp: conforming_def list_desc_at_def)
qed

section \<open>Runs\<close>

text \<open>
  The steps of a program that stores into the list at \<open>p\<close> and reads from it, with any outcome, and does
  other work between: allocation, and stores into other structures.
\<close>

inductive list_step :: "nat \<Rightarrow> tagged \<Rightarrow> rt \<Rightarrow> rt \<Rightarrow> bool" for d :: nat and p :: tagged and s :: rt where
  store: "i64 index \<Longrightarrow> bal_list_generic_set_tagged d p index val s = Inr (code, s1) \<Longrightarrow> list_step d p s s1"
| read: "i64 index \<Longrightarrow> bal_list_filling_get d p index s = Inr (r, s1) \<Longrightarrow> list_step d p s s1"
| other: "keeps_shapes s s1 \<Longrightarrow> wf_rt s1 \<Longrightarrow> heap s1 (taggedToPtr p) = heap s (taggedToPtr p) \<Longrightarrow> list_step d p s s1"

lemma other_keeps_conforming:
  assumes c: "conforming p desc ldp s" and s1: "keeps_shapes s s1" "wf_rt s1" "heap s1 (taggedToPtr p) = heap s (taggedToPtr p)"
  shows "conforming p desc ldp s1"
proof -
  obtain xs where xs: "list_desc_at desc s = Inr ldp" "holds TpArray s p desc xs" "conforms s ldp xs" "ld_minLength ldp \<le> int (length xs)"
    using c by (auto simp: conforming_def)
  have "holds TpArray s1 p desc xs" using holds_same [OF xs(2)] s1(3) by simp
  moreover have "list_desc_at desc s1 = Inr ldp" using xs(1) s1(1) by (simp add: list_desc_at_def keeps_shapes_def)
  ultimately show ?thesis using conforms_kept [OF xs(3) s1(1)] xs(4) s1(2) by (auto simp: conforming_def)
qed

interpretation list_runs: typed_runs "\<lambda>s. conforming p desc ldp s \<and> list_type_ok d (img s) ldp" "\<lambda>s. s" "list_step d p" for p desc ldp d
proof
  fix s s1
  assume c: "conforming p desc ldp s \<and> list_type_ok d (img s) ldp" and st: "list_step d p s s1"
  from st have "conforming p desc ldp s1 \<and> keeps_shapes s s1"
  proof cases
    case (store index val code)
    then show ?thesis using store_keeps_conforming [of p desc ldp s d index val code s1] c by simp
  next
    case (read index r)
    then show ?thesis using read_keeps_conforming [of p desc ldp s d index r s1] c by simp
  next
    case other
    then show ?thesis using other_keeps_conforming [of p desc ldp s s1] c by simp
  qed
  then show "(conforming p desc ldp s1 \<and> list_type_ok d (img s1) ldp) \<and> keeps_shapes s s1" using c by (simp add: keeps_shapes_def)
qed

end
