(* ===== verification/Lists_Correct.thy ===== *)
theory Lists_Correct
  imports Rt_Value_Samples Rt_List_Types
begin

text \<open>
  Theorems about lists: growth of arrays, the stores of \<open>list.c\<close> as refinements of a store into a list
  of members, the filling read, and the types of the members over time.
\<close>

section \<open>Growth\<close>

text \<open>
  \<open>_bal_array_grow\<close> keeps the members of a list and its invariant, reaches at least the requested
  capacity and strictly grows every capacity but 1 (which it grows only on request); below the
  maximal capacity it can only fail because memory is exhausted.
\<close>

lemma array_grow_correct:
  assumes "arr_inv 1 ap" "arr_capacity ap < ARRAY_LENGTH_MAX" "min_capacity \<le> ARRAY_LENGTH_MAX"
  shows "case bal_array_grow ap min_capacity TAGGED_PTR_SHIFT sizeof_word s of
      Inl e \<Rightarrow> e = OutOfMemory
    | Inr (ap1, s1) \<Rightarrow> arr_inv 1 ap1 \<and> arr_list ap1 = arr_list ap \<and> min_capacity \<le> arr_capacity ap1 \<and>
        (arr_capacity ap \<noteq> 1 \<or> 1 < min_capacity \<longrightarrow> arr_capacity ap < arr_capacity ap1) \<and> heap s1 = heap s"
proof -
  let ?nc = "grown_capacity (arr_capacity ap) min_capacity"
  have sz: "2 ^ TAGGED_PTR_SHIFT = sizeof_word * 1" "0 < sizeof_word" "0 < (1 :: nat)" by simp_all
  have cap: "0 \<le> arr_capacity ap" "arr_capacity ap \<le> ARRAY_LENGTH_MAX" using arr_invD [OF assms(1)] by simp_all
  note b = grown_capacity_bounds [OF cap assms(3)]
  have room: "?nc * 2 ^ TAGGED_PTR_SHIFT \<le> INT64_MAX" using b(4) by (simp add: ARRAY_LENGTH_MAX_eq)
  show ?thesis
  proof (cases "bal_array_grow ap min_capacity TAGGED_PTR_SHIFT sizeof_word s")
    case (Inl e)
    then show ?thesis using bal_array_grow_fault [OF assms(1) sz assms(2,3) room Inl] by simp
  next
    case (Inr r)
    obtain ap1 s1 where r: "r = (ap1, s1)" by (cases r)
    note g = bal_array_grow_inv [OF assms(1) sz assms(2,3) refl room Inr [unfolded r]]
    have "heap s1 = heap s" using g(5) alloc_same(1) by blast
    then show ?thesis using Inr r g b assms(2) by fastforce
  qed
qed

definition sample_array :: "int c_array" where
  "sample_array = \<lparr>arr_length = 1, arr_capacity = 1, arr_members = [Some 5]\<rparr>"

section \<open>Stores into primitive arrays\<close>

text \<open>
  C7: A store into an \<open>int[]\<close> or \<open>float[]\<close> refines the store into the list of its members: in range it
  replaces a member, beyond the end it extends the list with zeros and the value, a negative
  index and an index at the maximal length are refused with their panic codes; only the list
  changes, and only exhausted memory can stop the store.
\<close>

theorem primitive_store_refines:
  assumes "i64 index"
  shows "(holds IArray s p desc xs \<longrightarrow> (case bal_list_int_array_set_int p index n s of
      Inl e \<Rightarrow> e = OutOfMemory
    | Inr (code, s1) \<Rightarrow> code = fst (list_store 0 xs index n) \<and> holds IArray s1 p desc (snd (list_store 0 xs index n)) \<and>
        changes_only (taggedToPtr p) s s1)) \<and>
    (holds FArray s p desc ds \<longrightarrow> (case bal_list_float_array_set_float p index d s of
      Inl e \<Rightarrow> e = OutOfMemory
    | Inr (code, s1) \<Rightarrow> code = fst (list_store 0 ds index d) \<and> holds FArray s1 p desc (snd (list_store 0 ds index d)) \<and>
        changes_only (taggedToPtr p) s s1))"
  using int_list.set_member_correct [OF _ assms] float_list.set_member_correct [OF _ assms] by blast

definition sample_int_list :: tagged where
  "sample_int_list = ptrAddFlags 0x2000 (shifted_tag TAG_LIST OR EXACT_FLAG)"

definition sample_int_rt :: rt where
  "sample_int_rt = store 0x2000 (ObjList \<lparr>lo_desc = 0x108, lo_array = IArray sample_array\<rparr>) sample_rt"

lemma sample_int_holds: "holds IArray sample_int_rt sample_int_list 0x108 [5]"
proof -
  have "taggedToPtr sample_int_list = 0x2000" by code_simp
  then show ?thesis by (auto simp: holds_def sample_int_rt_def sample_array_def arr_inv_def arr_list_def ARRAY_LENGTH_MAX_eq)
qed

theorem primitive_store_refines_witness:
  "case bal_list_int_array_set_int sample_int_list 2 7 sample_int_rt of
      Inl e \<Rightarrow> e = OutOfMemory | Inr (code, s1) \<Rightarrow> code = 0 \<and> holds IArray s1 sample_int_list 0x108 [5, 0, 7]"
proof -
  have "i64 2" by (simp add: i64_def)
  from primitive_store_refines [OF this, of sample_int_rt sample_int_list "0x108" "[5]" 7] sample_int_holds show ?thesis
    by (auto simp: list_store_def ARRAY_LENGTH_MAX_eq split: sum.splits)
qed

text \<open>
  C23: A store into a \<open>byte[]\<close> accepts exactly the integers 0 to 255 and then stores like the other
  primitive arrays; any other integer leaves the list unchanged and gives the store panic
  (\<open>PANIC_INTERNAL_ERROR\<close> through an exact pointer).
\<close>

theorem byte_store_refines:
  assumes "holds BArray s p desc xs" "i64 index"
  shows "case bal_list_byte_array_set_int p index n s of
      Inl e \<Rightarrow> e = OutOfMemory
    | Inr (code, s1) \<Rightarrow>
        if 0 \<le> n \<and> n \<le> 255
        then code = fst (list_store 0 xs index (word_of_int n)) \<and> holds BArray s1 p desc (snd (list_store 0 xs index (word_of_int n))) \<and>
             changes_only (taggedToPtr p) s s1
        else code = storePanicCode p PANIC_LIST_STORE \<and> s1 = s"
  using assms by (rule bal_list_byte_array_set_int_correct)

definition sample_byte_rt :: rt where
  "sample_byte_rt = store 0x2000 (ObjList \<lparr>lo_desc = 0x110, lo_array = BArray \<lparr>arr_length = 1, arr_capacity = 4, arr_members = [Some 9, None, None, None]\<rparr>\<rparr>) sample_rt"

lemma sample_byte_holds: "holds BArray sample_byte_rt sample_int_list 0x110 [9]"
proof -
  have "taggedToPtr sample_int_list = 0x2000" by code_simp
  then show ?thesis by (auto simp: holds_def sample_byte_rt_def arr_inv_def arr_list_def ARRAY_LENGTH_MAX_eq)
qed

theorem byte_store_refines_witness:
  "case bal_list_byte_array_set_int sample_int_list 1 255 sample_byte_rt of
      Inl e \<Rightarrow> e = OutOfMemory | Inr (code, s1) \<Rightarrow> code = 0 \<and> holds BArray s1 sample_int_list 0x110 [9, 255]"
proof -
  have "i64 1" by (simp add: i64_def)
  from byte_store_refines [OF sample_byte_holds this, of 255] show ?thesis
    by (auto simp: list_store_def ARRAY_LENGTH_MAX_eq split: sum.splits)
qed


section \<open>Generic lists\<close>

text \<open>
  C8: A store into a generic list refines the store into the list of its members on every branch: a value
  outside the type of the position, a negative index, a gap with no filler and an index at the maximal
  length are refused with their panic codes and change no member; in range the member is
  replaced; beyond the end the list is extended by fillers of its descriptor and the value,
  where fillers with an identity are new objects, one for each member. No other object changes,
  only exhausted memory can stop the store, and the creation of nested fillers ends.
\<close>

theorem generic_store_refines:
  assumes "wf_rt s" "holds TpArray s p desc xs" "list_desc_at desc s = Inr ldp" "i64 index"
    "listDescAllowsTaggedAt ldp index val s = Inr ok"
    "ld_fillerDesc ldp = 0 \<or> filler_ok depth (img s) (ld_fillerDesc ldp)"
  shows "case bal_list_generic_set_tagged depth p index val s of
      Inl e \<Rightarrow> e = OutOfMemory
    | Inr (code, s1) \<Rightarrow>
        code = generic_store_code ok (ld_fillerDesc ldp = 0) p xs index \<and> updates (taggedToPtr p) s s1 \<and>
        (\<exists>ys. holds TpArray s1 p desc ys \<and>
           (if code = 0 then generic_stored s (ld_fillerDesc ldp) s1 xs index val ys else ys = xs))"
  using generic_set_correct [OF assms] by (auto simp: store_outcome_def split: sum.splits)

text \<open>A state with an empty \<open>int[][]\<close> at 0x2000; its fillers are new lists of the type \<open>int[]\<close>.\<close>

definition sample_nested_rt :: rt where
  "sample_nested_rt = sample_rt\<lparr>pool := [0x3000, 0x4000, 0x5000, 0x6000, 0x7000, 0x8000],
     heap := [0x2000 \<mapsto> ObjList \<lparr>lo_desc = 0x120, lo_array = TpArray \<lparr>arr_length = 0, arr_capacity = 0, arr_members = []\<rparr>\<rparr>]\<rparr>"

lemma sample_nested:
  "wf_rt sample_nested_rt" "holds TpArray sample_nested_rt (sample_ptr 0x2000) 0x120 []" "img sample_nested_rt = sample_image"
  "list_desc_at 0x120 sample_nested_rt = Inr (sample_list_desc GenericList 0x1000 0x308)"
proof -
  show "wf_rt sample_nested_rt"
    by (simp add: wf_rt_def sample_nested_rt_def heap_addr_def POINTER_MASK_def ALIGN_MASK_def HEAP_ALIGNMENT_def)
  show "holds TpArray sample_nested_rt (sample_ptr 0x2000) 0x120 []"
    by (auto simp: holds_def sample_nested_rt_def sample_ptrs arr_inv_def arr_list_def ARRAY_LENGTH_MAX_eq)
  show i: "img sample_nested_rt = sample_image" by (simp add: sample_nested_rt_def)
  show "list_desc_at 0x120 sample_nested_rt = Inr (sample_list_desc GenericList 0x1000 0x308)" by (simp add: list_desc_at_def i sample_image_def)
qed

lemma sample_nested_type:
  "listDescAllowsTaggedAt (sample_list_desc GenericList 0x1000 0x308) i v s = Inr (bit (0x1000 :: u32) (utTag v))"
proof -
  have "\<not> cast_u64 i < cast_u64 0" by (simp add: cast_u64_def not_less)
  then show ?thesis by (simp add: listDescAllowsTaggedAt_def sample_list_desc_def bitset_member_type(1))
qed

lemma sample_nested_filler: "filler_ok 1 sample_image 0x308" "filler_kind sample_image 0x308 = FILL_EACH"
  by (simp_all add: sample_image_def sample_list_desc_def filler_kind_def ARRAY_LENGTH_MAX_eq)

theorem generic_store_refines_witness:
  "case bal_list_generic_set_tagged 1 (sample_ptr 0x2000) 2 (sample_ptr 0x2000) sample_nested_rt of
      Inl e \<Rightarrow> e = OutOfMemory
    | Inr (code, s1) \<Rightarrow> code = 0 \<and>
        (\<exists>v w. holds TpArray s1 (sample_ptr 0x2000) 0x120 [v, w, sample_ptr 0x2000] \<and> v \<noteq> w)"
proof -
  have i: "i64 2" by (simp add: i64_def)
  have ok: "listDescAllowsTaggedAt (sample_list_desc GenericList 0x1000 0x308) 2 (sample_ptr 0x2000) sample_nested_rt = Inr True"
    unfolding sample_nested_type by (simp add: utTag_getTag sample_ptrs)
  have f: "ld_fillerDesc (sample_list_desc GenericList 0x1000 0x308) = 0x308" by (simp add: sample_list_desc_def)
  have fo: "ld_fillerDesc (sample_list_desc GenericList 0x1000 0x308) = 0 \<or>
      filler_ok 1 (img sample_nested_rt) (ld_fillerDesc (sample_list_desc GenericList 0x1000 0x308))"
    using sample_nested_filler(1) by (simp only: f sample_nested(3) simp_thms)
  have two: "\<exists>v w. vs = [v, w] \<and> v \<noteq> w" if "length vs = 2" "new_fillers sample_nested_rt 0x308 s1 vs" for vs :: "tagged list" and s1
    using that sample_nested_filler(2) by (auto simp: new_fillers_def sample_nested(3) numeral_2_eq_2 length_Suc_conv)
  show ?thesis
  proof (cases "bal_list_generic_set_tagged 1 (sample_ptr 0x2000) 2 (sample_ptr 0x2000) sample_nested_rt")
    case (Inr r)
    obtain code s1 where r: "r = (code, s1)" by (cases r)
    obtain vs where "code = 0" "holds TpArray s1 (sample_ptr 0x2000) 0x120 (vs @ [sample_ptr 0x2000])" "length vs = 2"
      "new_fillers sample_nested_rt 0x308 s1 vs"
      using generic_store_refines [OF sample_nested(1,2,4) i ok fo] Inr r by (auto simp: f generic_store_code_def generic_stored_def ARRAY_LENGTH_MAX_eq)
    then show ?thesis unfolding Inr r using two [of vs s1] by fastforce
  qed (use generic_store_refines [OF sample_nested(1,2,4) i ok fo] in simp)
qed


text \<open>
  C10: The filling read of a generic list returns the member in range; beyond the end it extends the list
  with fillers up to the index and returns the last of them, which is then a member; a negative
  index, a missing filler and an index at the maximal length are refused with their panic codes
  and change no member. No other object changes and only exhausted memory can stop the read.
\<close>

theorem filling_read_correct:
  assumes "wf_rt s" "holds TpArray s p desc xs" "list_desc_at desc s = Inr ldp" "i64 index"
    "ld_fillerDesc ldp = 0 \<or> filler_ok depth (img s) (ld_fillerDesc ldp)"
  shows "case bal_list_filling_get depth p index s of
      Inl e \<Rightarrow> e = OutOfMemory
    | Inr (r, s1) \<Rightarrow> updates (taggedToPtr p) s s1 \<and>
        (case r of
           Inl code \<Rightarrow> code = filling_get_code (ld_fillerDesc ldp = 0) xs index \<and> code \<noteq> 0 \<and> holds TpArray s1 p desc xs
         | Inr v \<Rightarrow> filling_get_code (ld_fillerDesc ldp = 0) xs index = 0 \<and>
             (\<exists>ys. holds TpArray s1 p desc ys \<and> filling_got s (ld_fillerDesc ldp) s1 xs index v ys))"
  using filling_get_correct [OF assms] by (auto simp: get_outcome_def split: sum.splits)

theorem filling_read_correct_witness:
  "case bal_list_filling_get 1 (sample_ptr 0x2000) 1 sample_nested_rt of
      Inl e \<Rightarrow> e = OutOfMemory
    | Inr (r, s1) \<Rightarrow> \<exists>v w. r = Inr w \<and> holds TpArray s1 (sample_ptr 0x2000) 0x120 [v, w]"
proof -
  have i: "i64 1" by (simp add: i64_def)
  have f: "ld_fillerDesc (sample_list_desc GenericList 0x1000 0x308) = 0x308" by (simp add: sample_list_desc_def)
  have fo: "ld_fillerDesc (sample_list_desc GenericList 0x1000 0x308) = 0 \<or>
      filler_ok 1 (img sample_nested_rt) (ld_fillerDesc (sample_list_desc GenericList 0x1000 0x308))"
    using sample_nested_filler(1) by (simp only: f sample_nested(3) simp_thms)
  have c: "filling_get_code ((0x308 :: u64) = 0) [] 1 = 0" by (simp add: filling_get_code_def ARRAY_LENGTH_MAX_eq)
  have two: "ys = [ys ! 0, ys ! 1]" if "int (length ys) = 1 + 1" for ys :: "tagged list"
    using that by (cases ys; cases "tl ys") auto
  note w = filling_read_correct [OF sample_nested(1,2,4) i fo, unfolded f c]
  show ?thesis
  proof (cases "bal_list_filling_get 1 (sample_ptr 0x2000) 1 sample_nested_rt")
    case (Inr r)
    obtain x s1 where r: "r = (x, s1)" by (cases r)
    obtain v ys where "x = Inr v" "holds TpArray s1 (sample_ptr 0x2000) 0x120 ys" "ys ! 1 = v" "int (length ys) = 1 + 1"
      using w Inr r by (auto simp: filling_got_def split: sum.splits)
    then have "x = Inr (ys ! 1) \<and> holds TpArray s1 (sample_ptr 0x2000) 0x120 [ys ! 0, ys ! 1]" using two [of ys] by simp
    then show ?thesis unfolding Inr r by auto
  qed (use w in simp)
qed

section \<open>Types over time\<close>

text \<open>
  C9: Lists stay within their types. Along every run of stores into a generic list and filling reads of
  it, with any values and indices, accepted or refused, and with other work of the program between, each
  member has the type that the descriptor gives its position; and no value of the program changes its
  type, so a type test that has been made stays valid. The fillers the compiler chose are
  assumed to have the rest type.
\<close>

theorem list_runs_conform:
  assumes "(list_step depth p)\<^sup>*\<^sup>* s0 s" "conforming p desc ldp s0" "list_type_ok depth (img s0) ldp"
  shows "(\<exists>xs. holds TpArray s p desc xs \<and> ld_minLength ldp \<le> int (length xs) \<and>
      (\<forall>i < length xs. listDescAllowsTaggedAt ldp (int i) (xs ! i) s = Inr True)) \<and>
    (\<forall>ctp v b. bal_type_contains ctp v s0 = Inr b \<longrightarrow> bal_type_contains ctp v s = Inr b)"
  using list_runs.run_ok [OF assms(1) conjI [OF assms(2,3)]] list_runs.run_types [OF assms(1) conjI [OF assms(2,3)]]
  by (auto simp: conforming_def conforms_def)

lemma sample_nested_type_ok: "list_type_ok 1 sample_image (sample_list_desc GenericList 0x1000 0x308)"
proof -
  have "memberTypeContainsTagged (BITSET_MEMBER_TYPE 0x1000) v s = Inr True" if "img s = sample_image" "filler_value {} s 0x308 v" for s v
    using that(2) by cases (simp_all add: that(1) sample_image_def bitset_member_type(1) utTag_getTag)
  then show ?thesis using sample_nested_filler(1) by (simp add: list_type_ok_def filler_fits_def sample_list_desc_def)
qed

lemma sample_nested_conforming: "conforming (sample_ptr 0x2000) 0x120 (sample_list_desc GenericList 0x1000 0x308) sample_nested_rt"
  unfolding conforming_def using sample_nested by (auto simp: conforms_def sample_list_desc_def intro!: exI [of _ "[]"])

lemma sample_nested_store:
  "bindR (bal_list_generic_set_tagged 1 (sample_ptr 0x2000) 1 (sample_ptr 0x2000) sample_nested_rt) (\<lambda>(code, s1). Inr code) = Inr 0"
  by code_simp

theorem list_runs_conform_witness:
  "\<exists>s xs. (list_step 1 (sample_ptr 0x2000))\<^sup>*\<^sup>* sample_nested_rt s \<and> holds TpArray s (sample_ptr 0x2000) 0x120 xs \<and>
     (\<forall>i < length xs. utTag (xs ! i) = TAG_LIST)"
proof -
  obtain s1 where "bal_list_generic_set_tagged 1 (sample_ptr 0x2000) 1 (sample_ptr 0x2000) sample_nested_rt = Inr (0, s1)"
    using sample_nested_store by auto
  then have "list_step 1 (sample_ptr 0x2000) sample_nested_rt s1" by (rule list_step.store [rotated]) (simp add: i64_def)
  then have r: "(list_step 1 (sample_ptr 0x2000))\<^sup>*\<^sup>* sample_nested_rt s1" by (rule r_into_rtranclp)
  have t: "utTag v = TAG_LIST" if "listDescAllowsTaggedAt (sample_list_desc GenericList 0x1000 0x308) i v s1 = Inr True" for i v
  proof -
    have "(0x1000 :: u32) = push_bit 12 1" by code_simp
    then have "bit (push_bit 12 1 :: u32) (utTag v)" using that unfolding sample_nested_type by (simp only: sum.inject)
    then show ?thesis by (auto simp only: bit_push_bit_iff bit_1_iff TAG_LIST_def)
  qed
  show ?thesis using list_runs_conform [OF r sample_nested_conforming, unfolded sample_nested(3), OF sample_nested_type_ok] r t by blast
qed

end
