(* ===== verification/Rt_Mapping_Types.thy ===== *)
theory Rt_Mapping_Types
  imports Rt_Type_Frame
begin

text \<open>
  Mappings keep their keys: a store replaces a value in place or appends a field, also when it grows the
  array of fields and the table. So stores into mappings leave the type of every value as it was, and
  the fields of a mapping conform to its descriptor in every state that stores can reach.
\<close>

section \<open>The array of fields\<close>

text \<open>Nothing behind the last field has been written.\<close>

definition tight :: "map_field c_array \<Rightarrow> bool" where
  "tight ap \<longleftrightarrow> 0 \<le> arr_length ap \<and> (\<forall>i. nat (arr_length ap) \<le> i \<and> i < length (arr_members ap) \<longrightarrow> arr_members ap ! i = None)"

lemma tight_get: "tight ap \<Longrightarrow> block_get (arr_members ap) i = Inr f \<Longrightarrow> 0 \<le> i \<and> i < arr_length ap \<and> arr_members ap ! nat i = Some f"
  by (cases "nat (arr_length ap) \<le> nat i") (auto simp: tight_def block_get_eq_Inr)

lemma keys_keptI:
  assumes "tight ap" "nat (arr_length ap) \<le> length ms"
    "take (nat (arr_length ap)) ms = take (nat (arr_length ap)) (arr_members ap)"
  shows "keys_kept (arr_members ap) ms"
  unfolding keys_kept_def
proof (intro allI impI)
  fix i f assume "block_get (arr_members ap) i = Inr f"
  then have i: "0 \<le> i" "i < arr_length ap" "arr_members ap ! nat i = Some f" using tight_get [OF assms(1)] by blast+
  have l: "nat i < nat (arr_length ap)" using i by simp
  then have "ms ! nat i = Some f" using arg_cong [OF assms(3), of "\<lambda>l. l ! nat i"] i(3) by simp
  moreover have "nat i < length ms" using l assms(2) by linarith
  ultimately show "\<exists>f1. block_get ms i = Inr f1 \<and> mf_key f1 = mf_key f" using i(1) by (auto simp: block_get_eq_Inr)
qed


lemma grow_tight:
  assumes t: "tight ap" and c: "arr_length ap \<le> arr_capacity ap" and g: "bal_array_grow ap 0 MAP_FIELD_SHIFT sizeof_MapField s = Inr (ap1, s1)"
  shows "tight ap1 \<and> keys_kept (arr_members ap) (arr_members ap1) \<and> arr_length ap1 = arr_length ap"
proof (cases "arr_capacity ap = 0")
  case True
  then have "arr_length ap = 0" using t c by (simp add: tight_def)
  moreover obtain n nc where "ap1 = ap\<lparr>arr_members := block_new n, arr_capacity := nc\<rparr>"
    using g True by (auto simp: bal_array_grow_def Let_def)
  ultimately show ?thesis using keys_keptI [OF t, of "arr_members ap1"] by (simp add: tight_def block_new_def)
next
  case False
  then obtain nOld nc where cp: "copy_members (arr_members ap) (block_new nc) (nat nOld div sizeof_MapField) = Inr (arr_members ap1)"
    "shl64 (arr_length ap) MAP_FIELD_SHIFT = Inr nOld" "arr_length ap1 = arr_length ap"
    using g by (auto simp: bal_array_grow_def Let_def)
  define n where "n = nat nOld div sizeof_MapField"
  have r: "arr_members ap1 = take n (arr_members ap) @ drop n (block_new nc)" "n \<le> length (arr_members ap)"
    "n \<le> length (block_new nc :: map_field option list)"
    using cp(1) by (auto simp: copy_members_def n_def split: if_splits)
  have n: "nat (arr_length ap) \<le> n" using cp(2) t by (auto simp: n_def shl64_def tight_def split: if_splits)
  define ms where "ms = take n (arr_members ap) @ drop n (block_new nc)"
  have m: "arr_members ap1 = ms" "arr_length ap1 = arr_length ap" using r(1) cp(3) by (simp_all add: ms_def)
  have "ms ! i = None" if "nat (arr_length ap) \<le> i" "i < length ms" for i
    using that t r(2,3) by (auto simp: ms_def tight_def nth_append block_new_def)
  moreover have "keys_kept (arr_members ap) ms" using n r(2,3) by (intro keys_keptI [OF t]) (simp_all add: ms_def min_def)
  ultimately show ?thesis using m t by (simp add: tight_def)
qed

lemma table_only:
  "table_insert m i j = Inr m1 \<Longrightarrow> mo_fArray m1 = mo_fArray m \<and> mo_desc m1 = mo_desc m"
  "mapping_rebuild n k m s = Inr m1 \<Longrightarrow> mo_fArray m1 = mo_fArray m \<and> mo_desc m1 = mo_desc m"
  "mappingGrow m s = Inr (m1, s1) \<Longrightarrow> mo_fArray m1 = mo_fArray m \<and> mo_desc m1 = mo_desc m"
proof -
  show i: "table_insert m i j = Inr m1 \<Longrightarrow> mo_fArray m1 = mo_fArray m \<and> mo_desc m1 = mo_desc m" for m i j m1
    by (auto simp: table_insert_def)
  show r: "mapping_rebuild n k m s = Inr m1 \<Longrightarrow> mo_fArray m1 = mo_fArray m \<and> mo_desc m1 = mo_desc m" for n k m s m1
  proof (induction n arbitrary: k m)
    case (Suc n)
    then show ?case using i by fastforce
  qed simp
  show "mappingGrow m s = Inr (m1, s1) \<Longrightarrow> mo_fArray m1 = mo_fArray m \<and> mo_desc m1 = mo_desc m"
    by (auto simp: mappingGrow_def growTable_def allocTable_def Let_def dest!: r)
qed

lemma push_tight:
  assumes t: "tight (mo_fArray m)" and p: "mappingPush m key value li = Inr m1"
  shows "tight (mo_fArray m1) \<and> keys_kept (arr_members (mo_fArray m)) (arr_members (mo_fArray m1)) \<and> mo_desc m1 = mo_desc m"
proof -
  let ?ap = "mo_fArray m" and ?f = "\<lparr>mf_key = key, mf_value = value\<rparr>"
  obtain ms m2 where r: "block_set (arr_members ?ap) (arr_length ?ap) ?f = Inr ms"
    "table_insert (m\<lparr>mo_fArray := ?ap\<lparr>arr_members := ms\<rparr>\<rparr>) li (arr_length ?ap) = Inr m2"
    "m1 = m2\<lparr>mo_fArray := (mo_fArray m2)\<lparr>arr_length := arr_length ?ap + 1\<rparr>\<rparr>"
    using p by (auto simp: mappingPush_def Let_def)
  have m1: "mo_fArray m1 = ?ap\<lparr>arr_members := ms, arr_length := arr_length ?ap + 1\<rparr>" "mo_desc m1 = mo_desc m"
    using table_only(1) [OF r(2)] r(3) by simp_all
  have ms: "ms = (arr_members ?ap)[nat (arr_length ?ap) := Some ?f]" "nat (arr_length ?ap) < length (arr_members ?ap)"
    using r(1) t by (auto simp: block_set_def tight_def split: if_splits)
  have "tight (mo_fArray m1)" using t ms unfolding m1(1) by (auto simp: tight_def nth_list_update)
  moreover have "keys_kept (arr_members ?ap) ms" using ms by (intro keys_keptI [OF t]) simp_all
  ultimately show ?thesis using m1 by simp
qed


lemma growPush_tight:
  assumes t: "tight (mo_fArray m)" "arr_length (mo_fArray m) \<le> arr_capacity (mo_fArray m)"
    and p: "mappingGrowPush m key value li s = Inr (m1, s1)"
  shows "tight (mo_fArray m1) \<and> same_shape (ObjMapping m) (ObjMapping m1)"
proof -
  obtain ap s2 m2 where r: "(arr_length (mo_fArray m) \<ge> arr_capacity (mo_fArray m) \<and>
        bal_array_grow (mo_fArray m) 0 MAP_FIELD_SHIFT sizeof_MapField s = Inr (ap, s2)) \<or> ap = mo_fArray m"
    "mappingPush (m\<lparr>mo_fArray := ap\<rparr>) key value li = Inr m2" "mappingGrow m2 s2 = Inr (m1, s1) \<or> m1 = m2"
    using p by (auto simp: mappingGrowPush_def Let_def split: if_splits)
  have a: "tight ap" "keys_kept (arr_members (mo_fArray m)) (arr_members ap)" using r(1) t grow_tight [OF t] by auto
  have m2: "tight (mo_fArray m2)" "keys_kept (arr_members ap) (arr_members (mo_fArray m2))" "mo_desc m2 = mo_desc m"
    using push_tight [OF _ r(2)] a(1) by simp_all
  have "mo_fArray m1 = mo_fArray m2" "mo_desc m1 = mo_desc m2" using r(3) table_only(3) by auto
  then show ?thesis using m2 keys_kept_trans [OF a(2) m2(2)] by simp
qed

lemma set_value_tight:
  assumes t: "tight (mo_fArray m)" and p: "set_field_value m i value = Inr m1"
  shows "tight (mo_fArray m1) \<and> same_shape (ObjMapping m) (ObjMapping m1)"
proof -
  let ?ap = "mo_fArray m"
  obtain f ms where r: "block_get (arr_members ?ap) i = Inr f" "block_set (arr_members ?ap) i (f\<lparr>mf_value := value\<rparr>) = Inr ms"
    "m1 = m\<lparr>mo_fArray := ?ap\<lparr>arr_members := ms\<rparr>\<rparr>" using p by (auto simp: set_field_value_def)
  have i: "0 \<le> i" "i < arr_length ?ap" "arr_members ?ap ! nat i = Some f" using tight_get [OF t r(1)] by blast+
  have ms: "ms = (arr_members ?ap)[nat i := Some (f\<lparr>mf_value := value\<rparr>)]" "nat i < length (arr_members ?ap)"
    using r(2) by (auto simp: block_set_def split: if_splits)
  have "tight (?ap\<lparr>arr_members := ms\<rparr>)" using t ms i by (auto simp: tight_def nth_list_update)
  moreover have "keys_kept (arr_members ?ap) ms"
    using ms i by (auto simp: keys_kept_def block_get_eq_Inr nth_list_update nat_eq_iff)
  ultimately show ?thesis using r(3) by simp
qed

section \<open>The store\<close>

definition tight_at :: "rt \<Rightarrow> tagged \<Rightarrow> bool" where
  "tight_at s p \<longleftrightarrow> (\<exists>m. mapping_at p s = Inr m \<and> tight (mo_fArray m))"

lemma mapping_set_shapes:
  assumes at: "map_at s p desc kvs" "tight_at s p" and c: "changes_only (taggedToPtr p) s s1"
    and set: "bal_mapping_set p key value s = Inr (code, s1)"
  shows "keeps_shapes s s1 \<and> tight_at s1 p"
proof -
  obtain m where m: "mapping_at p s = Inr m" "map_rep s m kvs" "heap s (taggedToPtr p) = Some (ObjMapping m)"
    using at(1) by (rule map_atE)
  have t: "tight (mo_fArray m)" using at(2) m(1) by (simp add: tight_at_def)
  have cap: "arr_length (mo_fArray m) \<le> arr_capacity (mo_fArray m)" using arr_invD(2) [OF map_repD(1) [OF m(2)]] .
  have "s1 = s \<or> (\<exists>m1 s2. s1 = store (taggedToPtr p) (ObjMapping m1) s2 \<and> tight (mo_fArray m1) \<and> same_shape (ObjMapping m) (ObjMapping m1))"
    using set m(1) set_value_tight [OF t] growPush_tight [OF t cap]
    by (auto simp: bal_mapping_set_def simp del: same_shape.simps split: if_splits)
  then obtain m1 where m1: "heap s1 (taggedToPtr p) = Some (ObjMapping m1)" "tight (mo_fArray m1)" "same_shape (ObjMapping m) (ObjMapping m1)"
    using m(3) t by (auto simp del: same_shape.simps)
  have "\<exists>y. heap s1 a = Some y \<and> same_shape x y" if "heap s a = Some x" for a x
    using that c m(3) m1 by (cases "a = taggedToPtr p") (auto simp: changes_only_def simp del: same_shape.simps)
  then show ?thesis using c m1 by (auto simp: keeps_shapes_def changes_only_def tight_at_def mapping_at_def)
qed


text \<open>The constructor: an empty mapping, then its fields.\<close>

lemma construct_tight:
  assumes wf: "wf_rt s" and c: "bal_mapping_construct desc capacity s = Inr (p, s1)"
  shows "tight_at s1 p"
proof -
  obtain q s2 arr s3 m s4 where r: "bal_alloc 48 s = Inr (q, s2)" "initGenericArray capacity MAP_FIELD_SHIFT sizeof_MapField s2 = Inr (arr, s3)"
    "initTable \<lparr>mo_desc = desc, mo_fArray = arr, mo_table = [], mo_tableElementShift = 0, mo_tableLengthShift = 0\<rparr> capacity s3 = Inr (m, s4)"
    "p = ptrAddFlags q (shifted_tag TAG_MAPPING OR EXACT_FLAG)" "s1 = store q (ObjMapping m) s4"
    using c by (auto simp: bal_mapping_construct_def)
  have "heap_addr q" using bal_alloc_ok [OF r(1)] wf by (auto simp: wf_rt_def)
  then have "taggedToPtr p = q" using taggedToPtr_ptrAddFlags [of q EXACT_FLAG TAG_MAPPING] r(4) by (simp add: EXACT_FLAG_def)
  moreover have "mo_fArray m = arr" using r(3) by (auto simp: initTable_def allocTable_def Let_def)
  moreover have "tight arr" using r(2) by (auto simp: initGenericArray_def tight_def block_new_def split: if_splits)
  ultimately show ?thesis using r(5) by (simp add: tight_at_def mapping_at_def)
qed

lemma init_member_tight:
  assumes "tight_at s p" "bal_mapping_init_member p key v s = Inr s1"
  shows "tight_at s1 p"
proof -
  obtain m where m: "mapping_at p s = Inr m" "tight (mo_fArray m)" using assms(1) by (auto simp: tight_at_def)
  obtain li m1 where "mappingPush m key v li = Inr m1" "s1 = store (taggedToPtr p) (ObjMapping m1) s"
    using assms(2) m(1) by (auto simp: bal_mapping_init_member_def)
  then show ?thesis using push_tight [OF m(2)] by (auto simp: tight_at_def mapping_at_def)
qed

section \<open>Conforming mappings\<close>

definition position_type :: "mapping_desc \<Rightarrow> nat \<Rightarrow> memberType" where
  "position_type mdp i = (if int i < md_nFields mdp then md_fieldTypes mdp ! i else md_restType mdp)"

definition fields_conform :: "rt \<Rightarrow> mapping_desc \<Rightarrow> (byte list \<times> tagged) list \<Rightarrow> bool" where
  "fields_conform s mdp kvs \<longleftrightarrow> (\<forall>i < length kvs. memberTypeContainsTagged (position_type mdp i) (snd (kvs ! i)) s = Inr True)"

text \<open>The invariant: the fields that the type names are there, and every field has the type of its position.\<close>

definition conforming_map :: "tagged \<Rightarrow> u64 \<Rightarrow> mapping_desc \<Rightarrow> rt \<Rightarrow> (byte list \<times> tagged) list \<Rightarrow> bool" where
  "conforming_map p desc mdp s kvs \<longleftrightarrow>
     map_at s p desc kvs \<and> tight_at s p \<and> mapping_desc_at desc s = Inr mdp \<and> md_nFields mdp \<le> int (length (md_fieldTypes mdp)) \<and>
     md_nFields mdp \<le> int (length kvs) \<and> fields_conform s mdp kvs"

lemma fields_conform_kept: "fields_conform s mdp kvs \<Longrightarrow> keeps_shapes s s1 \<Longrightarrow> fields_conform s1 mdp kvs"
  using keepsD [OF keeps_types(2)] by (auto simp: fields_conform_def)

lemma fields_conform_update:
  assumes f: "fields_conform s mdp kvs" and n: "md_nFields mdp \<le> int (length kvs)"
    and v: "memberTypeContainsTagged (field_type mdp kvs k) v s = Inr True"
  shows "fields_conform s mdp (AList.update k v kvs) \<and> length kvs \<le> length (AList.update k v kvs)"
proof (cases "k \<in> fst ` set kvs")
  case True
  obtain x where x: "field_index kvs k = Some x" "x < length kvs" "AList.update k v kvs = kvs[x := (k, v)]" using True by (rule field_index_Some)
  then show ?thesis using f v by (auto simp: fields_conform_def field_type_def position_type_def nth_list_update)
next
  case False
  then have "field_type mdp kvs k = md_restType mdp" by (simp add: field_type_def field_index_def)
  then show ?thesis using f n v unfolding update_absent [OF False] by (auto simp: fields_conform_def position_type_def nth_append less_Suc_eq)
qed

lemma set_keeps_conforming:
  assumes c: "conforming_map p desc mdp s kvs" and k: "str_rep s key k" "length kvs + 1 < 2 ^ 29"
    and st: "bal_mapping_set p key v s = Inr (code, s1)"
  shows "conforming_map p desc mdp s1 (if code = 0 then AList.update k v kvs else kvs) \<and> keeps_shapes s s1"
proof -
  have C: "map_at s p desc kvs" "tight_at s p" "mapping_desc_at desc s = Inr mdp" "md_nFields mdp \<le> int (length (md_fieldTypes mdp))"
    "md_nFields mdp \<le> int (length kvs)" "fields_conform s mdp kvs" using c by (simp_all add: conforming_map_def)
  obtain ok where ok: "memberTypeContainsTagged (field_type mdp kvs k) v s = Inr ok"
    using bal_mapping_set_type_fault [OF C(1) k(1) C(3,4), of v] st by (cases "memberTypeContainsTagged (field_type mdp kvs k) v s") auto
  note r = bal_mapping_set_rep [OF C(1) k C(3,4) ok, unfolded st sum.case prod.case]
  show ?thesis
  proof (cases ok)
    case True
    then have m: "code = 0" "map_at s1 p desc (AList.update k v kvs)" "changes_only (taggedToPtr p) s s1" using r by simp_all
    note sh = mapping_set_shapes [OF C(1,2) m(3) st]
    have "mapping_desc_at desc s1 = Inr mdp" using C(3) m(3) by (simp add: mapping_desc_at_def changes_only_def)
    moreover have "memberTypeContainsTagged (field_type mdp kvs k) v s1 = Inr True" using keepsD [OF keeps_types(2) ok] sh True by simp
    then have "fields_conform s1 mdp (AList.update k v kvs) \<and> length kvs \<le> length (AList.update k v kvs)"
      using fields_conform_update [OF fields_conform_kept [OF C(6)] C(5)] sh by blast
    ultimately show ?thesis using sh m C(4,5) by (simp add: conforming_map_def)
  next
    case False
    have "storePanicCode p PANIC_MAPPING_STORE \<noteq> 0" by (rule storePanicCode_nonzero) (simp add: panic_codes)
    then show ?thesis using False r c by simp
  qed
qed


section \<open>Runs\<close>

text \<open>
  The steps of a program that stores into one mapping, paired with the association list the mapping
  stands for; a store may be accepted or rejected.
\<close>

inductive map_step :: "tagged \<Rightarrow> rt \<times> (byte list \<times> tagged) list \<Rightarrow> rt \<times> (byte list \<times> tagged) list \<Rightarrow> bool" for p :: tagged where
  accepted: "str_rep s key k \<Longrightarrow> length kvs + 1 < 2 ^ 29 \<Longrightarrow>
    bal_mapping_set p key v s = Inr (0, s1) \<Longrightarrow> map_step p (s, kvs) (s1, AList.update k v kvs)"
| rejected: "str_rep s key k \<Longrightarrow> length kvs + 1 < 2 ^ 29 \<Longrightarrow>
    bal_mapping_set p key v s = Inr (code, s1) \<Longrightarrow> code \<noteq> 0 \<Longrightarrow> map_step p (s, kvs) (s1, kvs)"

interpretation map_runs: typed_runs "\<lambda>c. conforming_map p desc mdp (fst c) (snd c)" fst "map_step p" for p desc mdp
proof
  fix c c1
  assume ok: "conforming_map p desc mdp (fst c) (snd c)" and "map_step p c c1"
  from this(2) show "conforming_map p desc mdp (fst c1) (snd c1) \<and> keeps_shapes (fst c) (fst c1)"
  proof cases
    case (accepted s key k kvs v s1)
    then show ?thesis using ok set_keeps_conforming [of p desc mdp s kvs key k v 0 s1] by simp
  next
    case (rejected s key k kvs v code s1)
    then show ?thesis using ok set_keeps_conforming [of p desc mdp s kvs key k v code s1] by simp
  qed
qed

end
