(* ===== verification/Mappings_Correct.thy ===== *)
theory Mappings_Correct
  imports Rt_Samples Rt_Mapping_Types
begin

text \<open>
  Theorems about mappings: the detailed operations of \<open>mapping.c\<close>, with their array of fields and
  hash table, refine an association list in insertion order. Also a step relation for a program
  that stores into one mapping, with the invariant of every reachable state, and the two limits
  of \<open>Rt_Mapping_Limits\<close>.
\<close>

section \<open>Construction from a list of fields\<close>

text \<open>The calls of \<open>_bal_mapping_init_member\<close> that the compiler emits for a mapping constructor.\<close>

fun init_members :: "tagged \<Rightarrow> (tagged \<times> tagged) list \<Rightarrow> rt \<Rightarrow> fault + rt" where
  "init_members p [] s = Inr s"
| "init_members p ((key, v) # fs) s = bindR (bal_mapping_init_member p key v s) (init_members p fs)"

definition fields_denote :: "rt \<Rightarrow> (tagged \<times> tagged) list \<Rightarrow> (byte list \<times> tagged) list \<Rightarrow> bool" where
  "fields_denote s fs kvs \<longleftrightarrow> list_all2 (\<lambda>(key, v) (k, w). str_rep s key k \<and> v = w) fs kvs"

lemma changes_only_trans: "changes_only q s s1 \<Longrightarrow> changes_only q s1 s2 \<Longrightarrow> changes_only q s s2"
  by (auto simp: changes_only_def)

lemma changes_only_refl: "changes_only q s s"
  by (simp add: changes_only_def)

lemma changes_only_str_rep:
  assumes "changes_only q s s1" "str_rep s key k" "\<And>ws. heap s q \<noteq> Some (ObjString ws)"
  shows "str_rep s1 key k"
  using assms(2)
proof (rule str_rep_strings)
  fix a ws assume a: "heap s a = Some (ObjString ws)"
  then have "a \<noteq> q" using assms(3) by auto
  then show "heap s1 a = Some (ObjString ws)" using assms(1) a by (simp add: changes_only_def)
qed

lemma fields_denote_changes:
  assumes "fields_denote s fs kvs" "changes_only q s s1" "\<And>ws. heap s q \<noteq> Some (ObjString ws)"
  shows "fields_denote s1 fs kvs"
  using assms(1) changes_only_str_rep [OF assms(2) _ assms(3)] unfolding fields_denote_def
  by (auto elim!: list_all2_mono)

lemma init_at_not_string: "init_at s p desc cap kvs \<Longrightarrow> heap s (taggedToPtr p) \<noteq> Some (ObjString ws)"
  by (auto simp: init_at_def)

lemma init_members_rep:
  assumes "init_at s p desc cap kvs0" "fields_denote s fs kvs" "distinct (map fst (kvs0 @ kvs))"
    "int (length kvs0 + length kvs) \<le> cap"
  shows "\<exists>s1. init_members p fs s = Inr s1 \<and> init_at s1 p desc cap (kvs0 @ kvs) \<and> changes_only (taggedToPtr p) s s1"
  using assms
proof (induction fs arbitrary: s kvs0 kvs)
  case Nil
  then show ?case by (auto simp: fields_denote_def intro: changes_only_refl)
next
  case (Cons f fs)
  obtain key v where f: "f = (key, v)" by (cases f)
  obtain k kvs' where kvs: "kvs = (k, v) # kvs'" "str_rep s key k" "fields_denote s fs kvs'"
    using Cons.prems(2) f by (auto simp: fields_denote_def list_all2_Cons1)
  have new: "k \<notin> fst ` set kvs0" and room: "int (length kvs0) < cap" using Cons.prems(3,4) kvs(1) by auto
  obtain s1 where s1: "bal_mapping_init_member p key v s = Inr s1" "init_at s1 p desc cap (kvs0 @ [(k, v)])"
    "changes_only (taggedToPtr p) s s1" using bal_mapping_init_member_rep [OF Cons.prems(1) kvs(2) new room] by blast
  have "fields_denote s1 fs kvs'"
    using kvs(3) s1(3) init_at_not_string [OF Cons.prems(1)] by (rule fields_denote_changes)
  then have "\<exists>s2. init_members p fs s1 = Inr s2 \<and> init_at s2 p desc cap ((kvs0 @ [(k, v)]) @ kvs') \<and> changes_only (taggedToPtr p) s1 s2"
    using Cons.prems(3,4) kvs(1) by (intro Cons.IH [OF s1(2)]) auto
  then show ?case using s1 changes_only_trans kvs(1) f by fastforce
qed

text \<open>
  C15: A mapping constructor (\<open>_bal_mapping_construct\<close> with the number of fields as capacity, then
  \<open>_bal_mapping_init_member\<close> for every field) builds a new exact mapping whose lookups are those of
  the list of fields, without changing any other object; only exhausted memory can stop it.
\<close>

theorem mapping_constructor_correct:
  assumes "wf_rt s" "fields_denote s fs kvs" "distinct (map fst kvs)" "length kvs < 2 ^ 29"
  shows "case bindR (bal_mapping_construct desc (int (length kvs)) s) (\<lambda>(p, s1).
           bindR (init_members p fs s1) (\<lambda>s2. Inr (p, s2))) of
      Inl e \<Rightarrow> e = OutOfMemory
    | Inr (p, s2) \<Rightarrow> getTag p = TAG_MAPPING \<and> is_exact p \<and> heap s (taggedToPtr p) = None \<and>
        changes_only (taggedToPtr p) s s2 \<and>
        (\<forall>key k. str_rep s key k \<longrightarrow> bal_mapping_get p key s2 = Inr (case map_of kvs k of None \<Rightarrow> 0 | Some v \<Rightarrow> v))"
proof (cases "bal_mapping_construct desc (int (length kvs)) s")
  case (Inl e)
  then show ?thesis using bal_mapping_construct_rep [OF assms(1), of "int (length kvs)" desc] assms(4) by simp
next
  case (Inr r)
  obtain p s1 where r: "r = (p, s1)" by (cases r)
  have c: "0 \<le> int (length kvs)" "int (length kvs) < 2 ^ 29" using assms(4) by simp_all
  note con = bal_mapping_construct_init [OF assms(1) c Inr [unfolded r]]
  have fresh: "heap s (taggedToPtr p) \<noteq> Some (ObjString ws)" for ws using con(4) by simp
  have "fields_denote s1 fs kvs"
    using assms(2) con(5) fresh by (rule fields_denote_changes)
  then obtain s2 where s2: "init_members p fs s1 = Inr s2" "init_at s2 p desc (int (length kvs)) kvs" "changes_only (taggedToPtr p) s1 s2"
    using init_members_rep [OF con(1)] assms(3) by force
  obtain m where m: "mapping_at p s2 = Inr m" "map_rep s2 m kvs" using s2(2) by (auto simp: init_at_def mapping_at_def)
  have ch: "changes_only (taggedToPtr p) s s2" using changes_only_trans con(5) s2(3) by blast
  have "bal_mapping_get p key s2 = Inr (case map_of kvs k of None \<Rightarrow> 0 | Some v \<Rightarrow> v)" if "str_rep s key k" for key k
    using m changes_only_str_rep [OF ch that fresh] by (rule bal_mapping_get_rep)
  then show ?thesis using Inr r s2(1) con(2-4) ch by simp
qed

definition key_a :: tagged where "key_a = immediate_bits [0x61]"
definition key_b :: tagged where "key_b = immediate_bits [0x62]"

lemma sample_keys: "str_rep s key_a [0x61]" "str_rep s key_b [0x62]"
  unfolding key_a_def key_b_def by (rule sample_key; simp)+

theorem mapping_constructor_correct_witness:
  "case bindR (bal_mapping_construct 0x200 2 sample_rt) (\<lambda>(p, s1).
       bindR (init_members p [(key_a, TAGGED_TRUE), (key_b, NIL)] s1) (\<lambda>s2. Inr (p, s2))) of
     Inl e \<Rightarrow> e = OutOfMemory
   | Inr (p, s2) \<Rightarrow> bal_mapping_get p key_a s2 = Inr TAGGED_TRUE"
proof -
  have f: "fields_denote sample_rt [(key_a, TAGGED_TRUE), (key_b, NIL)] [([0x61], TAGGED_TRUE), ([0x62], NIL)]"
    using sample_keys by (simp add: fields_denote_def)
  have d: "distinct (map fst [([0x61 :: byte], TAGGED_TRUE), ([0x62], NIL)])" by simp
  have l: "length [([0x61 :: byte], TAGGED_TRUE), ([0x62], NIL)] < 2 ^ 29" by simp
  show ?thesis using mapping_constructor_correct [OF sample_wf f d l, of "0x200"] sample_keys(1) [of sample_rt]
    by (fastforce split: sum.splits prod.splits)
qed

section \<open>Access\<close>

text \<open>
  C16: A lookup in the hash table ends, without reading outside the table or the fields, and decides
  whether the key is present: a result \<open>i >= 0\<close> is the position of the field with this key in
  insertion order, a negative result \<open>-e - 1\<close> is an empty slot \<open>e\<close> for it.
\<close>

theorem mapping_lookup_decides:
  assumes "map_rep s m kvs" "str_rep s key k"
  shows "\<exists>i. lookup m key (hashFinish (hash_content (hashInit s) k) s) s = Inr i \<and> (0 \<le> i \<longleftrightarrow> k \<in> fst ` set kvs) \<and>
     (0 \<le> i \<longrightarrow> i < int (length kvs) \<and> fst (kvs ! nat i) = k) \<and>
     (i < 0 \<longrightarrow> nat (- i - 1) < length (mo_table m) \<and> slots (mo_tableElementShift m) (mo_table m) ! nat (- i - 1) = - 1)"
proof (cases "k \<in> fst ` set kvs")
  case True
  then obtain x where "x < length kvs" "fst (kvs ! x) = k" by (auto simp: in_set_conv_nth)
  then show ?thesis using lookup_rep_present [OF assms] True by auto
next
  case False
  obtain j where j: "j < length (mo_table m)" "slots (mo_tableElementShift m) (mo_table m) !
      probe (length (mo_table m)) (unat (hashFinish (hash_content (hashInit s) k) s) mod length (mo_table m)) j = - 1"
    "lookup m key (hashFinish (hash_content (hashInit s) k) s) s =
        Inr (- int (probe (length (mo_table m)) (unat (hashFinish (hash_content (hashInit s) k) s) mod length (mo_table m)) j) - 1)"
    using lookup_rep_absent [OF assms False] by blast
  have "0 < length (mo_table m)" using j(1) by (cases "mo_table m") simp_all
  then have "probe (length (mo_table m)) (unat (hashFinish (hash_content (hashInit s) k) s) mod length (mo_table m)) j < length (mo_table m)"
    by (intro probe_less mod_less_divisor)
  then show ?thesis using j False by auto
qed

definition empty_mapping :: "fault + tagged \<times> rt" where
  "empty_mapping = bal_mapping_construct 0x200 0 sample_rt"

lemma empty_mapping_at:
  obtains p s m where "empty_mapping = Inr (p, s)" "map_at s p 0x200 []" "mapping_at p s = Inr m" "map_rep s m []"
    "img s = sample_image" "wf_rt s" "pool s = [0x3000, 0x4000, 0x5000, 0x6000, 0x7000, 0x8000]"
proof -
  have "bindR empty_mapping (\<lambda>(p, s). Inr (pool s)) = Inr [0x3000, 0x4000, 0x5000, 0x6000, 0x7000, 0x8000]" by code_simp
  then obtain p s where e: "empty_mapping = Inr (p, s)" "pool s = [0x3000, 0x4000, 0x5000, 0x6000, 0x7000, 0x8000]" by auto
  note con = bal_mapping_construct_init [OF sample_wf _ _ e(1) [unfolded empty_mapping_def]]
  have at: "map_at s p 0x200 []" using init_at_map_at con(1) by force
  then obtain m where "mapping_at p s = Inr m" "map_rep s m []" by (rule map_atE)
  moreover have "img s = sample_image" "wf_rt s" using con(5) sample_wf by (simp_all add: changes_only_def)
  ultimately show thesis using that e at by blast
qed

theorem mapping_lookup_decides_witness:
  "\<exists>m s i. lookup m key_a (hashFinish (hash_content (hashInit s) [0x61]) s) s = Inr i \<and> i < 0"
proof -
  obtain p s m where "map_rep s m []" by (rule empty_mapping_at)
  from mapping_lookup_decides [OF this sample_keys(1)] show ?thesis by force
qed

text \<open>
  C1: For a mapping of fewer than \<open>2 ^ 29 - 1\<close> fields whose field array does not have capacity 1 (which it has after
  the construction with one field, and from which it does not grow properly, see the limits below), \<open>_bal_mapping_set\<close>
  refines the update of an association list: when the value has the type of
  the field (the declared type of one of the first fields, else the rest type) the field is
  replaced in place or appended, growing array and table as needed; otherwise the mapping is
  unchanged and the panic code is \<open>PANIC_MAPPING_STORE\<close>, or \<open>PANIC_INTERNAL_ERROR\<close> for an exact pointer.
  No other object changes, and only an append that exhausts memory can fail. The capacity is not 1 afterwards either.
\<close>

theorem mapping_set_refines_update:
  assumes "heap s (taggedToPtr p) = Some (ObjMapping m)" "map_rep s m kvs" "mo_desc m = desc" "arr_capacity (mo_fArray m) \<noteq> 1"
    "str_rep s key k" "length kvs + 1 < 2 ^ 29" "mapping_desc_at desc s = Inr mdp"
    "md_nFields mdp \<le> int (length (md_fieldTypes mdp))"
    "memberTypeContainsTagged (field_type mdp kvs k) value s = Inr ok"
  shows "case bal_mapping_set p key value s of
      Inl e \<Rightarrow> e = OutOfMemory \<and> ok \<and> k \<notin> fst ` set kvs
    | Inr (code, s1) \<Rightarrow>
        if ok then code = 0 \<and> map_at s1 p desc (AList.update k value kvs) \<and> changes_only (taggedToPtr p) s s1
        else code = storePanicCode p PANIC_MAPPING_STORE \<and> s1 = s"
proof -
  have "map_at s p desc kvs" using assms(1-4) by (auto simp: map_at_def)
  then show ?thesis using assms(5-9) by (rule bal_mapping_set_rep)
qed

lemma sample_rest_type: "memberTypeContainsTagged (field_type sample_mapping_desc [] k) v s = Inr (bit (4 :: u32) (utTag v))"
  by (simp add: field_type_def field_index_def sample_mapping_desc_def bitset_member_type(1))

definition one_set :: "fault + (tagged \<times> rt) \<times> (nat \<times> rt)" where
  "one_set = bindR empty_mapping (\<lambda>(p, s). bindR (bal_mapping_set p key_a TAGGED_INT_ZERO s) (\<lambda>r. Inr ((p, s), r)))"

lemma one_set_code: "bindR one_set (\<lambda>(a, code, s1). Inr code) = Inr 0"
  by code_simp

lemma one_setE:
  obtains p s s1 where "empty_mapping = Inr (p, s)" "bal_mapping_set p key_a TAGGED_INT_ZERO s = Inr (0, s1)"
    "map_at s p 0x200 []" "img s = sample_image"
proof -
  obtain p s s1 where r: "empty_mapping = Inr (p, s)" "bal_mapping_set p key_a TAGGED_INT_ZERO s = Inr (0, s1)"
    using one_set_code by (auto simp: one_set_def)
  obtain p' s' where e: "empty_mapping = Inr (p', s')" "map_at s' p' 0x200 []" "img s' = sample_image" by (rule empty_mapping_at)
  then have "Inr (p', s') = (Inr (p, s) :: fault + tagged \<times> rt)" by (simp only: e(1) [symmetric] r(1))
  then have "p' = p" "s' = s" by simp_all
  then show thesis using that [OF r] e(2,3) by blast
qed

theorem mapping_set_refines_update_witness:
  "\<exists>p s s1. empty_mapping = Inr (p, s) \<and> bal_mapping_set p key_a TAGGED_INT_ZERO s = Inr (0, s1) \<and>
     map_at s1 p 0x200 [([0x61], TAGGED_INT_ZERO)]"
proof -
  obtain p s s1 where e: "empty_mapping = Inr (p, s)" "bal_mapping_set p key_a TAGGED_INT_ZERO s = Inr (0, s1)"
    "map_at s p 0x200 []" "img s = sample_image" by (rule one_setE)
  have d: "mapping_desc_at 0x200 s = Inr sample_mapping_desc" by (simp add: mapping_desc_at_def e(4) sample_image_def)
  have ok: "memberTypeContainsTagged (field_type sample_mapping_desc [] [0x61]) TAGGED_INT_ZERO s = Inr True"
    unfolding sample_rest_type by code_simp
  have "length ([] :: (byte list \<times> tagged) list) + 1 < 2 ^ 29" "md_nFields sample_mapping_desc \<le> int (length (md_fieldTypes sample_mapping_desc))"
    by (simp_all add: sample_mapping_desc_def)
  moreover obtain m where "heap s (taggedToPtr p) = Some (ObjMapping m)" "map_rep s m []" "mo_desc m = 0x200" "arr_capacity (mo_fArray m) \<noteq> 1"
    using e(3) by (auto simp: map_at_def)
  ultimately show ?thesis
    using mapping_set_refines_update [of s p m "[]" "0x200", OF _ _ _ _ sample_keys(1) _ d _ ok] e(1,2) by auto
qed

text \<open>
  C12: After a successful \<open>_bal_mapping_set\<close>, \<open>_bal_mapping_get\<close> returns the stored value for the same
  key, and for every other key what it returned before. The mapping does not have a field array of capacity 1.
\<close>

theorem mapping_get_after_set:
  assumes "mapping_ok s p kvs" "str_rep s key k" "length kvs + 1 < 2 ^ 29" "bal_mapping_set p key v s = Inr (0, s1)"
  shows "bal_mapping_get p key s1 = Inr v \<and>
    (\<forall>key' k'. str_rep s key' k' \<longrightarrow> k' \<noteq> k \<longrightarrow> bal_mapping_get p key' s1 = bal_mapping_get p key' s)"
  using mapping.get_put_same [OF assms] mapping.get_put_other [OF assms] by blast

lemma empty_mapping_ok: "map_at s p 0x200 [] \<Longrightarrow> img s = sample_image \<Longrightarrow> mapping_ok s p []"
  unfolding mapping_ok_def mapping_desc_at_def by (fastforce simp: sample_image_def sample_mapping_desc_def)

theorem mapping_get_after_set_witness:
  "\<exists>p s s1. empty_mapping = Inr (p, s) \<and> bal_mapping_set p key_a TAGGED_INT_ZERO s = Inr (0, s1) \<and>
     bal_mapping_get p key_a s1 = Inr TAGGED_INT_ZERO"
proof -
  obtain p s s1 where r: "empty_mapping = Inr (p, s)" "bal_mapping_set p key_a TAGGED_INT_ZERO s = Inr (0, s1)"
    "map_at s p 0x200 []" "img s = sample_image" by (rule one_setE)
  have "length ([] :: (byte list \<times> tagged) list) + 1 < 2 ^ 29" by simp
  from mapping_get_after_set [OF empty_mapping_ok [OF r(3,4)] sample_keys(1) this r(2)] show ?thesis using r by blast
qed

section \<open>Runs\<close>

lemma bal_mapping_set_rejected:
  assumes "mapping_ok s p kvs" "str_rep s key k" "length kvs + 1 < 2 ^ 29" "bal_mapping_set p key v s = Inr (code, s1)" "code \<noteq> 0"
  shows "s1 = s"
proof -
  obtain desc mdp where d: "map_at s p desc kvs" "mapping_desc_at desc s = Inr mdp"
    "md_nFields mdp \<le> int (length (md_fieldTypes mdp))" using assms(1) by (auto simp: mapping_ok_def)
  obtain ok where ok: "memberTypeContainsTagged (field_type mdp kvs k) v s = Inr ok"
    using bal_mapping_set_type_fault [OF d(1) assms(2) d(2,3), of v] assms(4)
    by (cases "memberTypeContainsTagged (field_type mdp kvs k) v s") auto
  show ?thesis using bal_mapping_set_rep [OF d(1) assms(2,3) d(2,3) ok] assms(4,5) by (auto split: if_splits)
qed

lemma map_steps_ok:
  assumes "(map_step p)\<^sup>*\<^sup>* c c1" "mapping_ok (fst c) p (snd c)"
  shows "mapping_ok (fst c1) p (snd c1)"
  using assms(1)
proof (induction rule: rtranclp_induct)
  case (step c1 c2)
  from step(2) show ?case
  proof cases
    case (accepted s key k kvs v s1)
    then show ?thesis using step(3) mapping.put_law [of s p kvs key k v s1] by simp
  next
    case (rejected s key k kvs v code s1)
    then show ?thesis using step(3) bal_mapping_set_rejected [of s p kvs key k v code s1] by simp
  qed
qed (rule assms(2))

text \<open>
  C2: In every state a program can reach by storing into a well-formed mapping, with stores accepted and
  rejected in any order and fewer than \<open>2 ^ 29\<close> fields, the mapping is well formed again (\<open>mapping_ok\<close>: array, table and
  fields represent the association list that the accepted stores built, the descriptor is in the image and the
  capacity is not 1), its keys are distinct and its lookups are those of the association list. The
  mapping at the start must not have a field array of capacity 1, from which it does not grow properly.
\<close>

theorem mapping_runs_refine:
  assumes "(map_step p)\<^sup>*\<^sup>* (s0, kvs0) (s, kvs)" "mapping_ok s0 p kvs0" "str_rep s key k"
  shows "bal_mapping_get p key s = Inr (case map_of kvs k of None \<Rightarrow> 0 | Some v \<Rightarrow> v) \<and>
    mapping_ok s p kvs \<and> distinct (map fst kvs)"
proof -
  have ok: "mapping_ok s p kvs" using map_steps_ok [OF assms(1)] assms(2) by simp
  then have "distinct (map fst kvs)" using map_repD(5) by (auto simp: mapping_ok_def map_at_def)
  then show ?thesis using mapping.get_law [OF ok assms(3)] ok by simp
qed

theorem mapping_runs_refine_witness:
  "\<exists>p s s1. (map_step p)\<^sup>*\<^sup>* (s, []) (s1, [([0x61], TAGGED_INT_ZERO)]) \<and> bal_mapping_get p key_b s1 = Inr 0 \<and>
     mapping_ok s1 p [([0x61], TAGGED_INT_ZERO)]"
proof -
  obtain p s s1 where r: "empty_mapping = Inr (p, s)" "bal_mapping_set p key_a TAGGED_INT_ZERO s = Inr (0, s1)"
    "map_at s p 0x200 []" "img s = sample_image" by (rule one_setE)
  have "length ([] :: (byte list \<times> tagged) list) + 1 < 2 ^ 29" by simp
  from map_step.accepted [OF sample_keys(1) this r(2)]
  have st: "(map_step p)\<^sup>*\<^sup>* (s, []) (s1, [([0x61], TAGGED_INT_ZERO)])" by auto
  show ?thesis
    using mapping_runs_refine [OF st empty_mapping_ok [OF r(3,4)] sample_keys(2)] st by auto
qed

text \<open>
  C3: Mappings stay within their types. In every state a program can reach by storing into a mapping (whose field array does
  not have capacity 1), with any values, accepted or rejected, each field has the type that the descriptor gives its position; and
  no value of the program changes its type on the way, so a type test that has been made stays
  valid. This includes the test of record types, which reads the keys of a mapping.
\<close>

theorem mapping_runs_conform:
  assumes "(map_step p)\<^sup>*\<^sup>* (s0, kvs0) (s, kvs)" "conforming_map p desc mdp s0 kvs0"
  shows "map_at s p desc kvs \<and> (\<forall>i < length kvs. memberTypeContainsTagged (position_type mdp i) (snd (kvs ! i)) s = Inr True) \<and>
    (\<forall>ctp v b. bal_type_contains ctp v s0 = Inr b \<longrightarrow> bal_type_contains ctp v s = Inr b)"
  using map_runs.run_ok [OF assms(1), of desc mdp] map_runs.run_types [OF assms(1), of desc mdp] assms(2)
  by (simp add: conforming_map_def fields_conform_def)

theorem mapping_runs_conform_witness:
  "\<exists>p s s1. (map_step p)\<^sup>*\<^sup>* (s, []) (s1, [([0x61], TAGGED_INT_ZERO)]) \<and>
     memberTypeContainsTagged (md_restType sample_mapping_desc) TAGGED_INT_ZERO s1 = Inr True"
proof -
  obtain p s s1 where r: "empty_mapping = Inr (p, s)" "bal_mapping_set p key_a TAGGED_INT_ZERO s = Inr (0, s1)"
    "map_at s p 0x200 []" "img s = sample_image" by (rule one_setE)
  have "length ([] :: (byte list \<times> tagged) list) + 1 < 2 ^ 29" by simp
  from map_step.accepted [OF sample_keys(1) this r(2)]
  have st: "(map_step p)\<^sup>*\<^sup>* (s, []) (s1, [([0x61], TAGGED_INT_ZERO)])" by auto
  have "tight_at s p" using construct_tight [OF sample_wf r(1) [unfolded empty_mapping_def]] .
  then have c: "conforming_map p 0x200 sample_mapping_desc s []"
    using r(3,4) by (simp add: conforming_map_def fields_conform_def mapping_desc_at_def sample_image_def) (simp add: sample_mapping_desc_def)
  have "position_type sample_mapping_desc 0 = md_restType sample_mapping_desc" by (simp add: position_type_def sample_mapping_desc_def)
  then show ?thesis using mapping_runs_conform [OF st c] st by auto
qed

section \<open>Limits\<close>

text \<open>
  C24: A mapping constructed with one field is not safe to extend: growing a field array of capacity
  one keeps the capacity at one, the second field fits only because a block has four times the
  room of its capacity, and the growth for the third field copies 128 bytes out of a block of 64.
\<close>

theorem one_field_mapping_overflows:
  assumes "arr_inv 4 ap" "arr_capacity ap = 1"
  shows "(\<forall>ap1 s1. bal_array_grow ap 0 MAP_FIELD_SHIFT sizeof_MapField s = Inr (ap1, s1) \<longrightarrow> arr_capacity ap1 = 1) \<and>
    bindR (one_field_run 1) (\<lambda>(c, s). Inr c) = Inl OutOfBounds"
  using grow_one_stays [OF assms] one_field_run_eval by blast

theorem one_field_mapping_overflows_witness:
  "arr_inv 4 \<lparr>arr_length = 0, arr_capacity = 1, arr_members = replicate 4 (None :: map_field option)\<rparr> \<and>
   bindR (one_field_run 1) (\<lambda>(c, s). Inr c) = Inl OutOfBounds"
proof -
  have "arr_inv 4 \<lparr>arr_length = 0, arr_capacity = 1, arr_members = replicate 4 (None :: map_field option)\<rparr>"
    by (simp add: arr_inv_def ARRAY_LENGTH_MAX_eq)
  with one_field_mapping_overflows [OF this] show ?thesis by simp
qed

text \<open>
  A mapping constructed for \<open>2 ^ 29\<close> fields or more cannot be used: every lookup computes
  \<open>1 << tableLengthShift\<close> with a shift of 31 or more, outside the range of \<open>int\<close>.
\<close>

lemma huge_mapping_unusable:
  assumes "wf_rt s" "2 ^ 29 \<le> capacity" "bal_mapping_construct desc capacity s = Inr (p, s1)" "str_rep s1 key k"
  shows "bal_mapping_get p key s1 = Inl IntOverflow"
  using assms(1-3) bal_string_hash_rep [OF assms(4)] by (rule huge_mapping_lookup)

lemma construct_succeeds:
  assumes "init_length_shift capacity 2 = Inr t" "pool s = p1 # p2 # p3 # ps" "p1 \<noteq> 0" "p2 \<noteq> 0" "p3 \<noteq> 0"
    "0 < capacity" "capacity * 2 ^ MAP_FIELD_SHIFT \<le> INT64_MAX"
  shows "\<exists>r. bal_mapping_construct desc capacity s = Inr r"
  using assms unfolding bal_mapping_construct_def initGenericArray_def initTable_def allocTable_def bal_alloc_def shl64_def
  by (simp add: Let_def)

lemma huge_mapping_example:
  "\<exists>p s1. bal_mapping_construct 0x200 (2 ^ 29) sample_rt = Inr (p, s1) \<and> bal_mapping_get p key_a s1 = Inl IntOverflow"
proof -
  have "init_length_shift (2 ^ 29) 2 = Inr 30" by code_simp
  from construct_succeeds [OF this, of sample_rt "0x1000" "0x2000" "0x3000"]
  obtain p s1 where c: "bal_mapping_construct 0x200 (2 ^ 29) sample_rt = Inr (p, s1)" by (fastforce simp: sample_pool)
  have "(2 :: int) ^ 29 \<le> 2 ^ 29" by simp
  from huge_mapping_unusable [OF sample_wf this c sample_keys(1)] show ?thesis using c by blast
qed

end
