(* ===== verification/Equality_Correct.thy ===== *)
theory Equality_Correct
  imports Rt_Value_Samples
begin

text \<open>
  Theorems about equality and comparison of values: equality on arbitrary heap graphs and on trees,
  exact equality, comparison, and the comparison of integer arrays without boxing. The witnesses
  run on a state with two lists that contain themselves.
\<close>

section \<open>Equality\<close>

text \<open>
  C4: On a finite graph of lists and mappings, with any cycles and sharing, equality always ends
  (with a depth above the number of pairs of structures), can only fail when a boxed member cannot
  be allocated, and answers true exactly if a bisimulation relates the two values. The decimals in
  memory are numbers, as \<open>_bal_decimal_cmp\<close> expects of its arguments, and \<open>decQuadCompare\<close> orders numbers by value.
\<close>

theorem equality_decides_bisimilarity:
  assumes "wf_rt s" "value_graph s U" "compares_values (img s) numbers dv" "card U * card U < d"
    "view_ok s U (Inl t1)" "view_ok s U (Inl t2)" "heap_decimals s \<subseteq> numbers"
  shows "case bal_eq d t1 t2 s of
      Inl e \<Rightarrow> e = OutOfMemory
    | Inr (b, s1) \<Rightarrow> (b \<longleftrightarrow> bisimilar dv s t1 t2) \<and> grows s s1"
proof -
  have c: "card (U \<times> U - set []) < d" using assms(4) by (simp add: card_cartesian_product)
  have r: "reads s (Inl t1) t1" "reads s (Inl t2) t2" by simp_all
  have b: "b \<longleftrightarrow> bisimilar dv s t1 t2" if "verdict dv s {} b (\<lambda>R. related dv s R (Inl t1) (Inl t2))" for b
    using that by (auto simp: verdict_def bisimilar_def bisim_def split: if_splits)
  have dq: "compares_values (img s) (heap_decimals s) dv" using assms(3,7) unfolding compares_values_def by blast
  from decidesD [OF taggedPtrEq_decides [OF assms(2) dq c] grows_refl assms(1,5,6) r] b
  show ?thesis by (auto simp: bal_eq_def split: sum.splits)
qed

lemma sample_cycle_equal: "bal_eq 5 (sample_ptr 0x2000) (sample_ptr 0x3000) sample_cycle_rt = Inr (True, sample_cycle_rt)"
  by (simp add: bal_eq_def eval_nat_numeral sample_ptr_ne sample_ptrs bal_list_eq_internal_def sample_cycle_lists sample_cycle_get
      array_length_def sample_members_def)

theorem equality_decides_bisimilarity_witness:
  "bal_eq 5 (sample_ptr 0x2000) (sample_ptr 0x3000) sample_cycle_rt = Inr (True, sample_cycle_rt) \<and>
   bisimilar uint sample_cycle_rt (sample_ptr 0x2000) (sample_ptr 0x3000)"
proof -
  let ?U = "{sample_ptr 0x2000, sample_ptr 0x3000}"
  have "card ?U = 2" using sample_ptr_ne by simp
  then have d: "card ?U * card ?U < 5" by simp
  have v: "view_ok sample_cycle_rt ?U (Inl (sample_ptr 0x2000))" "view_ok sample_cycle_rt ?U (Inl (sample_ptr 0x3000))"
    by (simp_all add: view_ok_def)
  have n: "heap_decimals sample_cycle_rt \<subseteq> numbers" by (auto simp: heap_decimals_def sample_cycle_rt_def sample_list_obj_def split: if_splits)
  from equality_decides_bisimilarity [OF sample_cycle_wf sample_cycle_graph sample_cycle_decimals d v n] show ?thesis
    by (simp add: sample_cycle_equal)
qed

text \<open>
  C25: On values that are trees, of any representations (immediate or boxed integers, the three
  kinds of strings, generic and primitive lists, mappings with their fields in any order), equality
  decides the reference equality of the values, in particular a float \<open>NaN\<close> equals \<open>NaN\<close> and an \<open>int[]\<close> equals a
  generic list with the same members. The decimals in the values are numbers, and \<open>decQuadCompare\<close> orders numbers
  by value.
\<close>

theorem equality_decides_values:
  assumes "wf_rt s" "compares_values (img s) numbers dv" "denotes s t1 v1" "denotes s t2 v2" "size v1 < d"
    "decimals v1 \<union> decimals v2 \<subseteq> numbers"
  shows "case bal_eq d t1 t2 s of Inl e \<Rightarrow> e = OutOfMemory | Inr (b, s1) \<Rightarrow> b = veq dv v1 v2 \<and> grows s s1"
proof -
  have "stack_above s [] (Suc (size v1))" by (simp add: stack_above_def)
  from taggedPtrEq_correct [OF assms(1-5) this assms(6)] show ?thesis by (simp add: bal_eq_def)
qed

theorem equality_decides_values_witness:
  "(case bal_eq 9 (sample_ptr 0x4000) (sample_ptr 0x5008) sample_cycle_rt of
      Inl e \<Rightarrow> e = OutOfMemory | Inr (b, s1) \<Rightarrow> b \<and> grows sample_cycle_rt s1) \<and>
   (case bal_eq 9 (sample_ptr 0x4000) (sample_ptr 0x5000) sample_cycle_rt of
      Inl e \<Rightarrow> e = OutOfMemory | Inr (b, s1) \<Rightarrow> \<not> b \<and> grows sample_cycle_rt s1)"
  using equality_decides_values [OF sample_cycle_wf sample_cycle_decimals sample_tree_list sample_tree_int_lists(2), of 9]
    equality_decides_values [OF sample_cycle_wf sample_cycle_decimals sample_tree_list sample_tree_int_lists(1), of 9]
  by (auto split: sum.splits)

section \<open>Exact equality\<close>

fun vexact :: "(decQuad \<Rightarrow> decQuad) \<Rightarrow> val \<Rightarrow> val \<Rightarrow> bool" where
  "vexact canonical (VFloat x) (VFloat y) \<longleftrightarrow> bal_float_exact_eq x y"
| "vexact canonical (VDec x) (VDec y) \<longleftrightarrow> canonical x = canonical y"
| "vexact canonical v w \<longleftrightarrow> v = w"

lemma vexact_refl: "vexact canonical v v"
  by (cases v) (simp_all add: bal_float_exact_eq_def)

lemma vexact_getTag: "vexact canonical v w \<Longrightarrow> val_getTag v = val_getTag w"
  by (cases v; cases w) auto

lemma bal_exact_eq_leaf:
  assumes d: "denotes s t1 v1" "denotes s t2 v2" and ne: "t1 \<noteq> t2" and tag: "val_getTag v1 = val_getTag v2" and lf: "leaf v1"
  shows "bal_exact_eq canonical t1 t2 s = Inr (vexact canonical v1 v2)"
proof -
  have t: "getTag t1 = val_getTag v1" "getTag t2 = val_getTag v1" using denotes_getTag d tag by simp_all
  have q: "taggedToDecQuad p s = Inr x" if "boxed TAG_DECIMAL s p (ObjDecimal x)" for p x
    using getTag_boxed(3) [OF that] by (simp add: taggedToDecQuad_def)
  from d ne tag lf show ?thesis
    by (cases rule: leaf_pair_cases) (use t ne in \<open>auto simp: bal_exact_eq_def bal_decimal_exact_eq_def q\<close>)
qed

text \<open>
  C26: Exact equality (\<open>===\<close>) compares simple values by value, floats apart (bitwise, all \<open>NaN\<close>s alike)
  and decimals by canonical form, and lists and mappings by identity: two pointers are exactly
  equal if they point to the same object, whether or not they carry the exact flag.
\<close>

theorem exact_equality_correct:
  assumes d: "denotes s t1 v1" "denotes s t2 v2"
  shows "bal_exact_eq canonical t1 t2 s =
    Inr (if leaf v1 then vexact canonical v1 v2 else getTag t1 = getTag t2 \<and> taggedToPtr t1 = taggedToPtr t2)"
proof (cases "t1 = t2")
  case True
  then have "v1 = v2" using d denotes_fun by blast
  then show ?thesis using True vexact_refl by (simp add: bal_exact_eq_def)
next
  case ne: False
  have t: "getTag t1 = val_getTag v1" "getTag t2 = val_getTag v2" using denotes_getTag d by simp_all
  show ?thesis
  proof (cases "val_getTag v1 = val_getTag v2")
    case False
    then show ?thesis using t ne vexact_getTag [of canonical v1 v2] by (auto simp: bal_exact_eq_def)
  next
    case True
    show ?thesis
    proof (cases "leaf v1")
      case lf: True
      then show ?thesis using bal_exact_eq_leaf [OF d ne True lf] by simp
    next
      case False
      then have "val_getTag v1 = TAG_LIST \<or> val_getTag v1 = TAG_MAPPING" by (cases v1) (auto simp: leaf_def)
      then show ?thesis using t ne True False by (auto simp: bal_exact_eq_def)
    qed
  qed
qed

theorem exact_equality_correct_witness:
  "bal_exact_eq id (sample_ptr 0x4000) (sample_ptr 0x5008) sample_cycle_rt = Inr False \<and>
   bal_exact_eq id (sample_int 7) (sample_int 7) sample_cycle_rt = Inr True"
proof -
  have l: "\<not> leaf (VList [VInt 1, VInt 2])" "leaf (VInt 7)" by (simp_all add: leaf_def)
  have d: "denotes sample_cycle_rt (sample_int 7) (VInt 7)" by (rule sample_int_rep) simp
  show ?thesis using exact_equality_correct [OF sample_tree_list sample_tree_int_lists(2), of id] exact_equality_correct [OF d d, of id] l
    by (simp add: sample_ptrs)
qed

section \<open>Comparison\<close>

text \<open>
  C27: \<open>taggedPtrCompare\<close> computes the reference order on values without \<open>NaN\<close> among the floats of the first and the
  decimals of both (for which \<open>decQuadCompare\<close> makes no promise), whatever their
  representations: integers, floats and decimals by number, strings by bytes, \<open>false\<close> before \<open>true\<close>, lists
  lexicographically, and unordered for values of different basic types. A depth above the size of the
  value is enough.
\<close>

theorem comparison_correct:
  assumes "wf_rt s" "compares_values (img s) numbers dv" "denotes s t1 v1" "denotes s t2 v2" "ordered v1" "size v1 < d"
    "decimals v1 \<union> decimals v2 \<subseteq> numbers"
  shows "case taggedPtrCompare d t1 t2 s of Inl e \<Rightarrow> e = OutOfMemory | Inr (r, s1) \<Rightarrow> r = vcompare dv v1 v2 \<and> grows s s1"
  using taggedPtrCompare_correct [of numbers dv d] assms unfolding compares_def by blast

theorem comparison_correct_witness:
  "case taggedPtrCompare 9 (sample_ptr 0x4000) (sample_ptr 0x5000) sample_cycle_rt of
     Inl e \<Rightarrow> e = OutOfMemory | Inr (r, s1) \<Rightarrow> r = COMPARE_LT \<and> grows sample_cycle_rt s1"
  using comparison_correct [OF sample_cycle_wf sample_cycle_decimals sample_tree_list sample_tree_int_lists(1), of 9]
  by (auto simp: intCompare_def compare_codes split: sum.splits)

text \<open>The members of an integer array, compared in place.\<close>

lemma int_compare_loop_correct:
  assumes a: "arr_inv 1 a1" "arr_inv 1 a2" and n: "i + n = min (length (arr_list a1)) (length (arr_list a2))"
  shows "\<exists>r. int_compare_loop a1 a2 n (int i) = Inr r \<and>
    (if r \<noteq> COMPARE_EQ then r else intCompare (arr_length a1) (arr_length a2)) =
      vlist_compare dv (map VInt (drop i (arr_list a1))) (map VInt (drop i (arr_list a2)))"
  using n
proof (induction n arbitrary: i)
  case 0
  note len = arr_list_length1 [OF a(1)] arr_list_length1 [OF a(2)]
  show ?case
  proof (cases "length (arr_list a1) \<le> length (arr_list a2)")
    case True
    then have "drop i (arr_list a1) = []" "i = length (arr_list a1)" using 0 by simp_all
    then show ?thesis using True len by (cases "drop i (arr_list a2)") (auto simp: intCompare_def)
  next
    case False
    then have "drop i (arr_list a2) = []" "i = length (arr_list a2)" using 0 by simp_all
    then show ?thesis using False len by (cases "drop i (arr_list a1)") (auto simp: intCompare_def)
  qed
next
  case (Suc n)
  have i: "i < length (arr_list a1)" "i < length (arr_list a2)" using Suc.prems by simp_all
  have g: "block_get (arr_members a1) (int i) = Inr (arr_list a1 ! i)" "block_get (arr_members a2) (int i) = Inr (arr_list a2 ! i)"
    using block_get_arr_list [OF a(1), of "int i"] block_get_arr_list [OF a(2), of "int i"] i
      arr_list_length1 [OF a(1)] arr_list_length1 [OF a(2)] by simp_all
  have dr: "drop i (arr_list a1) = arr_list a1 ! i # drop (Suc i) (arr_list a1)"
    "drop i (arr_list a2) = arr_list a2 ! i # drop (Suc i) (arr_list a2)" using i by (simp_all add: Cons_nth_drop_Suc)
  have "Suc i + n = min (length (arr_list a1)) (length (arr_list a2))" using Suc.prems by simp
  from Suc.IH [OF this] show ?case using g by (auto simp: dr intCompare_def compare_codes add.commute)
qed

lemma bal_array_exact_int_compare_correct:
  assumes p: "list_obj_at s p1 IntArrayList (IArray a1)" "list_obj_at s p2 IntArrayList (IArray a2)" and a: "arr_inv 1 a1" "arr_inv 1 a2"
  shows "bal_array_exact_int_compare p1 p2 s = Inr (vlist_compare dv (map VInt (arr_list a1)) (map VInt (arr_list a2)))"
proof (cases "p1 = p2")
  case True
  then have "a2 = a1" using p list_obj_at_fun by blast
  moreover have "vlist_compare dv (map VInt (arr_list a1)) (map VInt (arr_list a1)) = COMPARE_EQ"
    by (rule vlist_compare_refl) (auto simp: intCompare_def)
  ultimately show ?thesis using True by (simp add: bal_array_exact_int_compare_def)
next
  case False
  note len = arr_list_length1 [OF a(1)] arr_list_length1 [OF a(2)]
  have n: "0 + nat (if arr_length a1 \<le> arr_length a2 then arr_length a1 else arr_length a2) =
      min (length (arr_list a1)) (length (arr_list a2))"
    unfolding len [symmetric] by simp
  obtain d1 d2 where l: "list_at p1 s = Inr \<lparr>lo_desc = d1, lo_array = IArray a1\<rparr>" "list_at p2 s = Inr \<lparr>lo_desc = d2, lo_array = IArray a2\<rparr>"
    using p by (auto simp: list_obj_at_def list_at_def)
  obtain r where r: "int_compare_loop a1 a2 (nat (if arr_length a1 \<le> arr_length a2 then arr_length a1 else arr_length a2)) 0 = Inr r"
    "(if r \<noteq> COMPARE_EQ then r else intCompare (arr_length a1) (arr_length a2)) = vlist_compare dv (map VInt (arr_list a1)) (map VInt (arr_list a2))"
    using int_compare_loop_correct [OF a n, of dv] by auto
  have "bal_array_exact_int_compare p1 p2 s = Inr (if r \<noteq> COMPARE_EQ then r else intCompare (arr_length a1) (arr_length a2))"
    using False l r(1) by (simp add: bal_array_exact_int_compare_def iArray_def Let_def)
  then show ?thesis unfolding r(2) .
qed

text \<open>
  C28: The comparison of \<open>int[]\<close> values that reads the unboxed members agrees with the general comparison
  of lists, which boxes each member, and never fails.
\<close>

theorem int_array_compare_agrees:
  assumes "list_obj_at s p1 IntArrayList (IArray a1)" "list_obj_at s p2 IntArrayList (IArray a2)" "arr_inv 1 a1" "arr_inv 1 a2"
    "wf_rt s" "length (arr_list a1) < d"
  shows "case bal_opt_list_compare d p1 p2 s of
      Inl e \<Rightarrow> e = OutOfMemory
    | Inr (r, s1) \<Rightarrow> bal_array_exact_int_compare p1 p2 s = Inr r"
proof -
  let ?vs = "map VInt (arr_list a1)"
  have d: "denotes s p1 (VList ?vs)" "denotes s p2 (VList (map VInt (arr_list a2)))" using assms denotes.ints by blast+
  have "size (VList ?vs) \<le> d" using assms(6) by (simp add: size_list_conv_sum_list comp_def sum_list_triv)
  then have c: "compares {} (\<lambda>_. 0) (size (VList ?vs)) (taggedPtrCompare d)"
    using taggedPtrCompare_correct [of "{}" "\<lambda>_. 0" d] by (fastforce simp: compares_def)
  have "compares_values (img s) {} (\<lambda>_. 0)" by (simp add: compares_values_def)
  from optListDoCompare_correct [OF c assms(5) this d] show ?thesis
    using bal_array_exact_int_compare_correct [OF assms(1-4), of "\<lambda>_. 0"] by (auto simp: bal_opt_list_compare_def split: sum.splits)
qed

theorem int_array_compare_agrees_witness:
  "case bal_opt_list_compare 3 (sample_ptr 0x5000) (sample_ptr 0x5008) sample_cycle_rt of
     Inl e \<Rightarrow> e = OutOfMemory
   | Inr (r, s1) \<Rightarrow> bal_array_exact_int_compare (sample_ptr 0x5000) (sample_ptr 0x5008) sample_cycle_rt = Inr r"
  using int_array_compare_agrees [OF sample_tree_ints sample_ints_inv sample_cycle_wf, of 3]
  by (simp add: sample_members_list)

text \<open>
  A list that contains \<open>NaN\<close> compares as equal with itself, through the test of the pointers, but as
  unordered with a distinct list of the same members.
\<close>

lemma nan_list_compare_by_identity:
  assumes "denotes s p (VList [VFloat x])" "denotes s q (VList [VFloat x])" "dbl_isnan x" "p \<noteq> q" "wf_rt s"
  shows "bal_opt_list_compare (Suc d) p p s = Inr (COMPARE_EQ, s) \<and>
    (case bal_opt_list_compare (Suc d) p q s of Inl e \<Rightarrow> e = OutOfMemory | Inr (r, s1) \<Rightarrow> r = COMPARE_UN)"
proof -
  obtain lp where lp: "list_at p s = Inr lp" "array_length (lo_array lp) = 1" using list_length_denotes [OF assms(1)] by auto
  obtain lq where lq: "list_at q s = Inr lq" "array_length (lo_array lq) = 1" using list_length_denotes [OF assms(2)] by auto
  have "getTag p = TAG_LIST" "getTag q = TAG_LIST" using denotes_getTag assms(1,2) by fastforce+
  then have nn: "p \<noteq> NIL" "q \<noteq> NIL" using getTag_constants(1) by auto
  have "case list_compare_loop (taggedPtrCompare (Suc d)) p q 1 0 s of Inl e \<Rightarrow> e = OutOfMemory | Inr (r, s1) \<Rightarrow> r = COMPARE_UN"
  proof (rule read_members [OF assms(1,2) _ _ assms(5), of 0])
    fix t1 s1 t2 s2
    assume r: "list_get p (int 0) s = Inr (t1, s1)" "list_get q (int 0) s1 = Inr (t2, s2)"
      and d: "denotes s2 t1 ([VFloat x] ! 0)" "denotes s2 t2 ([VFloat x] ! 0)"
    have t: "utTag t1 = TAG_FLOAT" "utTag t2 = TAG_FLOAT" using denotes_utTag [OF d(1)] denotes_utTag [OF d(2)] by simp_all
    have "taggedToFloat t1 s2 = Inr x" "taggedToFloat t2 s2 = Inr x"
      using d taggedToFloat_boxed by (auto elim!: denotes_floatE)
    then have "taggedPtrCompare (Suc d) t1 t2 s2 = Inr (COMPARE_UN, s2)"
      using t assms(3) by (simp add: lift_compare_def taggedFloatCompare_def floatCompare_def dbl_eq_def dbl_lt_def)
    then show ?thesis using r by (simp add: compare_codes)
  qed simp_all
  then show ?thesis using lp lq nn assms(4)
    by (auto simp: bal_opt_list_compare_def optListDoCompare_def compare_codes split: sum.splits)
qed

lemma nan_list_example:
  "bal_opt_list_compare 1 (sample_ptr 0x5000) (sample_ptr 0x5000) sample_nan_rt = Inr (COMPARE_EQ, sample_nan_rt) \<and>
   (case bal_opt_list_compare 1 (sample_ptr 0x5000) (sample_ptr 0x5008) sample_nan_rt of
      Inl e \<Rightarrow> e = OutOfMemory | Inr (r, s1) \<Rightarrow> r = COMPARE_UN)"
proof -
  have n: "dbl_isnan 0x7FF8000000000000" by (simp add: dbl_isnan_def)
  have ne: "sample_ptr 0x5000 \<noteq> sample_ptr 0x5008" by code_simp
  have wf: "wf_rt sample_nan_rt"
    by (simp add: wf_rt_def sample_nan_rt_def heap_addr_def POINTER_MASK_def ALIGN_MASK_def HEAP_ALIGNMENT_def)
  show ?thesis using nan_list_compare_by_identity [OF sample_nan_lists n ne wf, of 0] by simp
qed

end
