(* ===== verification/Rt_Demangle.thy ===== *)
theory Rt_Demangle
  imports Rt_Objects
begin

text \<open>
  C text and the names in backtraces: printing and scanning of integers, and the demangler of
  \<open>error.c\<close>. A pointer into a zero-terminated string is the rest of the string, without the
  terminator: \<open>[]\<close> points at the terminator, and a step beyond it is \<open>OutOfBounds\<close>. A function with an
  optional \<open>FILE\<close> argument returns what it writes.

  The mangling is that of the compiler (\<open>symbol.bal\<close>). A name is the string of its UTF-8 bytes, as it
  appears in the symbol; the lengths that the compiler writes count code points, those that the demangler reads
  count bytes.
\<close>

section \<open>Integers as text\<close>

definition digit :: "nat \<Rightarrow> char" where
  "digit n = char_of (48 + n mod 10)"

fun print_nat :: "nat \<Rightarrow> string" where
  "print_nat n = (if n < 10 then [digit n] else print_nat (n div 10) @ [digit n])"

declare print_nat.simps [simp del]

definition print_int :: "int \<Rightarrow> string" where
  "print_int n = (if n < 0 then CHR ''-'' # print_nat (nat (- n)) else print_nat (nat n))"

definition is_digit :: "char \<Rightarrow> bool" where
  "is_digit c \<longleftrightarrow> (of_char c :: nat) \<in> {48..57}"

definition is_space :: "char \<Rightarrow> bool" where
  "is_space c \<longleftrightarrow> (of_char c :: nat) = 32 \<or> (of_char c :: nat) \<in> {9..13}"

definition digit_value :: "char \<Rightarrow> nat" where
  "digit_value c = of_char c - 48"

text \<open>
  \<open>sscanf\<close> with the format \<open>%ld%n\<close>: white space, an optional sign, digits. The result is the number and the
  rest of the text, or nothing if there is no digit. A number beyond the range of \<open>long\<close> is kept as
  it is: whatever \<open>sscanf\<close> stores then is longer than any string.
\<close>

definition scan_digits :: "string \<Rightarrow> (int \<times> string) option" where
  "scan_digits p =
     (let ds = takeWhile is_digit p
      in if ds = [] then None
         else Some (int (foldl (\<lambda>n c. 10 * n + digit_value c) 0 ds), dropWhile is_digit p))"

definition sscanf_ld :: "string \<Rightarrow> (int \<times> string) option" where
  "sscanf_ld p =
     (case dropWhile is_space p of
        [] \<Rightarrow> None
      | c # q \<Rightarrow>
          if c = CHR ''-'' then map_option (\<lambda>(n, r). (- n, r)) (scan_digits q)
          else if c = CHR ''+'' then scan_digits q
          else scan_digits (c # q))"

section \<open>Demangling (error.c)\<close>

datatype DemangleResult =
    PUBLIC_BALLERINA_NAME
  | NON_PUBLIC_BALLERINA_NAME
  | NON_BALLERINA_NAME
  | BAD_BALLERINA_NAME

text \<open>\<open>*p\<close>\<close>

definition char_at :: "string \<Rightarrow> char" where
  "char_at p = (case p of [] \<Rightarrow> CHR 0x00 | c # _ \<Rightarrow> c)"

fun isPrefix :: "string \<Rightarrow> string \<Rightarrow> bool" where
  "isPrefix [] str = True"
| "isPrefix (c # prefix) [] = False"
| "isPrefix (c # prefix) (d # str) = (c = d \<and> isPrefix prefix str)"

text \<open>The loop of \<open>demangleCountedName\<close>: \<open>None\<close> is \<open>return false\<close>.\<close>

function skip_chars :: "int \<Rightarrow> string \<Rightarrow> fault + string option" where
  "skip_chars nChars p =
     (if nChars > 0
      then (case p of
              [] \<Rightarrow> Inl OutOfBounds
            | _ # q \<Rightarrow> if q = [] then Inr None else skip_chars (nChars - 1) q)
      else Inr (Some p))"
  by pat_completeness auto
termination by (relation "measure (\<lambda>(n, p). length p)") auto

declare skip_chars.simps [simp del]

text \<open>On success the new \<open>*pp\<close> and \<open>*name\<close>.\<close>

definition demangleCountedName :: "string \<Rightarrow> fault + (string \<times> string) option" where
  "demangleCountedName pp =
     (case sscanf_ld pp of
        None \<Rightarrow> Inr None
      | Some (nChars, rest) \<Rightarrow>
          let name = (if char_at rest = CHR ''_'' then tl rest else rest)
          in bindR (skip_chars nChars name) (\<lambda>r. Inr (map_option (\<lambda>p. (p, name)) r)))"

text \<open>\<open>fwrite(from, 1, to - from, fp)\<close> for two pointers into one string\<close>

definition between :: "string \<Rightarrow> string \<Rightarrow> string" where
  "between from to = take (length from - length to) from"

definition write_to :: "bool \<Rightarrow> string \<Rightarrow> string" where
  "write_to fp text = (if fp then text else [])"

text \<open>
  The results are the value of the function (with the new \<open>*mangledModules\<close>) and the output. The
  recursion moves on by at least the letter \<open>m\<close>; \<open>fuel\<close> is the length of the text.
\<close>

fun demangle_modules :: "nat \<Rightarrow> string \<Rightarrow> bool \<Rightarrow> fault + string option \<times> string" where
  "demangle_modules 0 mangledModules fp = Inr (Some mangledModules, [])"
| "demangle_modules (Suc fuel) mangledModules fp =
     (if char_at mangledModules \<noteq> CHR ''m'' then Inr (Some mangledModules, [])
      else bindR (demangleCountedName (tl mangledModules)) (\<lambda>r.
           case r of
             None \<Rightarrow> Inr (None, [])
           | Some (p, module) \<Rightarrow>
               bindR (demangle_modules fuel p fp) (\<lambda>(r2, out).
                 Inr (r2, write_to fp (between module p @ ''.'') @ out))))"

definition demangleModules :: "string \<Rightarrow> bool \<Rightarrow> fault + string option \<times> string" where
  "demangleModules mangledModules fp = demangle_modules (length mangledModules) mangledModules fp"

text \<open>The result, the local name where it is set, and the output.\<close>

definition demangle :: "string \<Rightarrow> bool \<Rightarrow> fault + DemangleResult \<times> string option \<times> string" where
  "demangle mangledName fp =
     (if char_at mangledName \<noteq> CHR ''_'' \<or> char_at (tl mangledName) \<noteq> CHR ''B'' then Inr (NON_BALLERINA_NAME, None, [])
      else let p2 = drop 2 mangledName
      in if char_at p2 = CHR ''_'' then Inr (NON_PUBLIC_BALLERINA_NAME, Some (tl p2), [])
      else let ballerinaOrg = (char_at p2 = CHR ''b'');
               p3 = (if ballerinaOrg then tl p2 else p2)
      in bindR (if char_at p3 = CHR ''0'' then Inr (Some (tl p3, None))
                else bindR (demangleCountedName p3) (\<lambda>r. Inr (map_option (\<lambda>(p, org). (p, Some org)) r))) (\<lambda>orgResult.
         case orgResult of
           None \<Rightarrow> Inr (BAD_BALLERINA_NAME, None, [])
         | Some (p4, org) \<Rightarrow>
             let orgText = (if ballerinaOrg then ''ballerina'' else []) @
                           (case org of None \<Rightarrow> [] | Some o1 \<Rightarrow> between o1 p4);
                 haveOrg = (ballerinaOrg \<or> org \<noteq> None);
                 out1 = write_to fp (orgText @ (if haveOrg then ''/'' else []))
             in bindR (demangleModules p4 fp) (\<lambda>(m, out2).
                case m of
                  None \<Rightarrow> Inr (NON_BALLERINA_NAME, None, out1 @ out2)
                | Some p5 \<Rightarrow>
                    bindR (demangleCountedName p5) (\<lambda>l.
                      case l of
                        None \<Rightarrow> Inr (NON_BALLERINA_NAME, None, out1 @ out2)
                      | Some (localName, lastModule) \<Rightarrow>
                          Inr (PUBLIC_BALLERINA_NAME, Some localName,
                               out1 @ out2 @ write_to fp (between lastModule localName))))))"

definition bal_print_mangled_name :: "string \<Rightarrow> fault + string" where
  "bal_print_mangled_name mangledName =
     bindR (demangle mangledName False) (\<lambda>(res, localName, _).
       case (res, localName) of
         (NON_PUBLIC_BALLERINA_NAME, Some l) \<Rightarrow> Inr l
       | (PUBLIC_BALLERINA_NAME, Some l) \<Rightarrow>
           bindR (demangle mangledName True) (\<lambda>(_, _, out). Inr (l @ '' ('' @ out @ '')''))
       | _ \<Rightarrow> Inr mangledName)"

section \<open>Mangling (compiler, symbol.bal)\<close>

text \<open>
  \<open>name.length()\<close>: the code points of a name are the bytes that do not continue another. The first
  code point is a digit exactly if the first byte is.
\<close>

definition name_length :: "string \<Rightarrow> nat" where
  "name_length name = length (filter (\<lambda>c. (of_char c :: nat) \<notin> {128..191}) name)"

definition delimitName :: "string \<Rightarrow> string" where
  "delimitName name =
     print_int (int (name_length name)) @ (if 0 < name_length name \<and> is_digit (hd name) then ''_'' else []) @ name"

definition mangleOrg :: "string \<Rightarrow> string" where
  "mangleOrg org =
     (if take 9 org = ''ballerina'' then ''b'' @ delimitName (drop 9 org) else delimitName org)"

text \<open>A module name has at least one segment; the source fails on an empty list.\<close>

fun mangleModuleNames :: "string list \<Rightarrow> string" where
  "mangleModuleNames [] = []"
| "mangleModuleNames [name] = delimitName name"
| "mangleModuleNames (name # names) = ''m'' @ delimitName name @ mangleModuleNames names"

definition manglePublicSymbol :: "string \<Rightarrow> string list \<Rightarrow> string \<Rightarrow> string" where
  "manglePublicSymbol org names identifier = ''_B'' @ mangleOrg org @ mangleModuleNames names @ identifier"

definition mangleInternalSymbol :: "string \<Rightarrow> string list \<Rightarrow> bool \<Rightarrow> string \<Rightarrow> string" where
  "mangleInternalSymbol org names isPublic identifier =
     (if isPublic then manglePublicSymbol org names identifier else ''_B_'' @ identifier)"

section \<open>The text of numbers\<close>

lemma digit_props: "is_digit (digit n)" "digit_value (digit n) = n mod 10"
  by (simp_all add: digit_def is_digit_def digit_value_def take_bit_eq_mod)

lemma print_nat_digits: "print_nat n \<noteq> []" "list_all is_digit (print_nat n)"
  by (induction n rule: print_nat.induct) (subst print_nat.simps, simp add: digit_props; fail)+

lemma foldl_print_nat: "foldl (\<lambda>m c. 10 * m + digit_value c) 0 (print_nat n) = n"
proof (induction n rule: print_nat.induct)
  case (1 n)
  then show ?case by (subst print_nat.simps) (simp add: digit_props)
qed

lemma scan_print_nat:
  assumes "rest = [] \<or> \<not> is_digit (hd rest)"
  shows "scan_digits (print_nat n @ rest) = Some (int n, rest)"
proof -
  have "takeWhile is_digit (print_nat n @ rest) = print_nat n" "dropWhile is_digit (print_nat n @ rest) = rest"
    using print_nat_digits(2) [of n] assms
    by (cases rest; simp add: takeWhile_append2 dropWhile_append2 list_all_iff)+
  then show ?thesis using print_nat_digits(1) [of n] foldl_print_nat [of n] by (simp add: scan_digits_def Let_def)
qed

lemma sscanf_print_nat:
  assumes "rest = [] \<or> \<not> is_digit (hd rest)"
  shows "sscanf_ld (print_nat n @ rest) = Some (int n, rest)"
proof -
  obtain c q where c: "print_nat n = c # q" "is_digit c" using print_nat_digits [of n] by (cases "print_nat n") auto
  have "\<not> is_space c" "c \<noteq> CHR ''-''" "c \<noteq> CHR ''+''" using c(2) by (auto simp: is_digit_def is_space_def)
  then show ?thesis using scan_print_nat [OF assms, of n] c(1) by (simp add: sscanf_ld_def)
qed

lemma print_nat_leading: "0 < n \<Longrightarrow> hd (print_nat n) \<noteq> CHR ''0''"
proof (induction n rule: print_nat.induct)
  case (1 n)
  have d: "digit n \<noteq> CHR ''0''" if "n < 10" using that 1(2) digit_props(2) [of n] by (auto simp: digit_value_def)
  show ?case using 1 d print_nat_digits(1) [of "n div 10"] by (subst print_nat.simps) (auto simp: hd_append)
qed

lemma print_nat_zero: "print_nat 0 = ''0''"
  by code_simp

section \<open>Counted names\<close>

text \<open>The loop steps beyond the terminator exactly if it starts at the terminator.\<close>

lemma skip_chars_past_end: "skip_chars n p = Inl e \<longleftrightarrow> 0 < n \<and> p = [] \<and> e = OutOfBounds"
proof (induction n p rule: skip_chars.induct)
  case (1 n p)
  show ?case
  proof (cases "0 < n")
    case True
    then show ?thesis using 1 by (subst skip_chars.simps) (auto split: list.splits)
  next
    case False
    then show ?thesis by (subst skip_chars.simps) simp
  qed
qed

lemma demangleCountedName_past_end:
  "demangleCountedName pp = Inl e \<longleftrightarrow>
     e = OutOfBounds \<and> (\<exists>n rest. sscanf_ld pp = Some (n, rest) \<and> 0 < n \<and> (rest = [] \<or> rest = ''_''))"
proof (cases "sscanf_ld pp")
  case None
  then show ?thesis by (simp add: demangleCountedName_def)
next
  case (Some r)
  obtain n rest where r: "r = (n, rest)" by (cases r)
  have "(if char_at rest = CHR ''_'' then tl rest else rest) = [] \<longleftrightarrow> rest = [] \<or> rest = ''_''"
    by (cases rest) (auto simp: char_at_def)
  then show ?thesis using Some r
    by (auto simp: demangleCountedName_def Let_def bindR_eq_Inl skip_chars_past_end)
qed

lemma skip_chars_append: "rest \<noteq> [] \<Longrightarrow> skip_chars (int (length name)) (name @ rest) = Inr (Some rest)"
  by (induction name) (subst skip_chars.simps, simp)+

lemma skip_chars_shorter: "skip_chars n p = Inr (Some q) \<Longrightarrow> length q \<le> length p"
  by (induction n p rule: skip_chars.induct) (subst (asm) skip_chars.simps, auto split: if_splits list.splits)

lemma scan_digits_shorter: "scan_digits p = Some (n, q) \<Longrightarrow> length q < length p"
  by (cases p) (auto simp: scan_digits_def Let_def split: if_splits intro: le_imp_less_Suc length_dropWhile_le)

lemma sscanf_ld_shorter: "sscanf_ld p = Some (n, q) \<Longrightarrow> length q < length p"
proof -
  assume a: "sscanf_ld p = Some (n, q)"
  have "length (dropWhile is_space p) \<le> length p" by (rule length_dropWhile_le)
  with a show ?thesis unfolding sscanf_ld_def
    by (cases "dropWhile is_space p") (auto split: if_splits dest!: scan_digits_shorter)
qed

lemma demangleCountedName_shorter:
  assumes "demangleCountedName pp = Inr (Some (p, name))"
  shows "length p < length pp"
proof -
  obtain n r where r: "sscanf_ld pp = Some (n, r)" "skip_chars n (if char_at r = CHR ''_'' then tl r else r) = Inr (Some p)"
    using assms by (auto simp: demangleCountedName_def Let_def bindR_eq_Inr split: option.splits)
  then show ?thesis using sscanf_ld_shorter [OF r(1)] skip_chars_shorter [OF r(2)] by (auto split: if_splits)
qed

text \<open>The fuel of \<open>demangleModules\<close> is enough: it satisfies the equation of the source.\<close>

lemma demangle_modules_fuel:
  "length p \<le> fuel \<Longrightarrow> length p \<le> fuel' \<Longrightarrow> demangle_modules fuel p fp = demangle_modules fuel' p fp"
proof (induction fuel arbitrary: fuel' p)
  case 0
  then show ?case by (cases fuel') (simp_all add: char_at_def)
next
  case (Suc fuel)
  show ?case
  proof (cases fuel')
    case 0
    then show ?thesis using Suc.prems by (simp add: char_at_def)
  next
    case (Suc f)
    have "demangle_modules fuel q fp = demangle_modules f q fp" if "demangleCountedName (tl p) = Inr (Some (q, m))" for q m
      using demangleCountedName_shorter [OF that] Suc.IH [of q f] Suc Suc.prems by simp
    then show ?thesis unfolding Suc
      by (auto simp: bindR_def split: sum.splits option.splits)
  qed
qed

lemma demangleModules_unfold:
  "demangleModules mangledModules fp =
     (if char_at mangledModules \<noteq> CHR ''m'' then Inr (Some mangledModules, [])
      else bindR (demangleCountedName (tl mangledModules)) (\<lambda>r.
           case r of
             None \<Rightarrow> Inr (None, [])
           | Some (p, module) \<Rightarrow>
               bindR (demangleModules p fp) (\<lambda>(r2, out).
                 Inr (r2, write_to fp (between module p @ ''.'') @ out))))"
proof (cases mangledModules)
  case Nil
  then show ?thesis by (simp add: demangleModules_def char_at_def)
next
  case (Cons c q)
  have "demangle_modules (length q) p fp = demangle_modules (length p) p fp" if "demangleCountedName q = Inr (Some (p, m))" for p m
    using demangleCountedName_shorter [OF that] by (intro demangle_modules_fuel) simp_all
  then show ?thesis unfolding Cons demangleModules_def
    by (auto simp: bindR_def split: sum.splits option.splits)
qed

text \<open>A name in ASCII that does not start with an underscore is read back from its counted form.\<close>

definition plain_name :: "string \<Rightarrow> bool" where
  "plain_name name \<longleftrightarrow> name \<noteq> [] \<and> hd name \<noteq> CHR ''_'' \<and> list_all (\<lambda>c. (of_char c :: nat) < 128) name"

lemma name_length_ascii: "list_all (\<lambda>c. (of_char c :: nat) < 128) name \<Longrightarrow> name_length name = length name"
  unfolding name_length_def by (subst filter_True) (auto simp: list_all_iff)

lemma plain_name_length: "plain_name name \<Longrightarrow> name_length name = length name"
  by (simp add: plain_name_def name_length_ascii)

lemma name_length_Nil [simp]: "name_length [] = 0"
  by (simp add: name_length_def)

lemma demangle_delimited:
  assumes "plain_name name" "rest \<noteq> []"
  shows "demangleCountedName (delimitName name @ rest) = Inr (Some (rest, name @ rest))"
proof -
  obtain c q where n: "name = c # q" "c \<noteq> CHR ''_''" using assms(1) by (cases name) (auto simp: plain_name_def)
  have u: "\<not> is_digit (CHR ''_'')" by (simp add: is_digit_def)
  have pi: "delimitName name = print_nat (length name) @ (if is_digit (hd name) then ''_'' else []) @ name"
    using assms(1) unfolding delimitName_def plain_name_length [OF assms(1)] by (simp add: print_int_def plain_name_def)
  show ?thesis
  proof (cases "is_digit c")
    case True
    have "sscanf_ld (delimitName name @ rest) = Some (int (length name), CHR ''_'' # name @ rest)"
      using sscanf_print_nat [of "CHR ''_'' # name @ rest" "length name"] True u n unfolding pi by simp
    then show ?thesis using skip_chars_append [OF assms(2), of name] by (simp add: demangleCountedName_def char_at_def)
  next
    case False
    have "sscanf_ld (delimitName name @ rest) = Some (int (length name), name @ rest)"
      using sscanf_print_nat [of "name @ rest" "length name"] False n unfolding pi by simp
    then show ?thesis using skip_chars_append [OF assms(2), of name] n by (simp add: demangleCountedName_def char_at_def)
  qed
qed

lemma between_append [simp]: "between (name @ rest) rest = name"
  by (simp add: between_def)

lemma delimited_leading:
  "delimitName name = (if name = [] then ''0'' else delimitName name)"
  "\<exists>c q. delimitName name = c # q \<and> is_digit c \<and> (0 < name_length name \<longrightarrow> c \<noteq> CHR ''0'')"
proof -
  show "delimitName name = (if name = [] then ''0'' else delimitName name)"
    by (simp add: delimitName_def print_int_def print_nat_zero)
  have pi: "print_int (int (name_length name)) = print_nat (name_length name)" by (simp add: print_int_def)
  obtain c q where c: "print_nat (name_length name) = c # q" "is_digit c"
    using print_nat_digits [of "name_length name"] by (cases "print_nat (name_length name)") auto
  then have "0 < name_length name \<longrightarrow> c \<noteq> CHR ''0''" using print_nat_leading [of "name_length name"] by auto
  then show "\<exists>c q. delimitName name = c # q \<and> is_digit c \<and> (0 < name_length name \<longrightarrow> c \<noteq> CHR ''0'')"
    using c by (simp add: delimitName_def pi)
qed

section \<open>The round trip\<close>

fun dotted :: "string list \<Rightarrow> string" where
  "dotted [] = []"
| "dotted [name] = name"
| "dotted (name # names) = name @ ''.'' @ dotted names"

lemma char_at_append: "p \<noteq> [] \<Longrightarrow> char_at (p @ q) = hd p"
  by (cases p) (simp_all add: char_at_def)

lemma mangleModuleNames_nonempty: "names \<noteq> [] \<Longrightarrow> mangleModuleNames names \<noteq> []"
  using delimited_leading(2) by (cases names rule: mangleModuleNames.cases) (auto, metis list.distinct(1))

text \<open>All segments but the last are read by \<open>demangleModules\<close>.\<close>

lemma demangleModules_mangled:
  assumes "names \<noteq> []" "list_all plain_name names" "identifier \<noteq> []"
  shows "\<exists>out. demangleModules (mangleModuleNames names @ identifier) fp = Inr (Some (delimitName (last names) @ identifier), out) \<and>
    out @ write_to fp (last names) = write_to fp (dotted names)"
  using assms
proof (induction names rule: mangleModuleNames.induct)
  case (2 name)
  obtain c q where "delimitName name = c # q" "is_digit c" using delimited_leading(2) by blast
  then have "char_at (delimitName name @ identifier) \<noteq> CHR ''m''" by (auto simp: char_at_def is_digit_def)
  then show ?case by (subst demangleModules_unfold) simp
next
  case (3 name n2 names)
  define rest where "rest = mangleModuleNames (n2 # names) @ identifier"
  have r: "demangleCountedName (delimitName name @ rest) = Inr (Some (rest, name @ rest))"
    by (rule demangle_delimited) (use 3 in \<open>auto simp: rest_def\<close>)
  obtain out where out: "demangleModules rest fp = Inr (Some (delimitName (last (n2 # names)) @ identifier), out)"
    "out @ write_to fp (last (n2 # names)) = write_to fp (dotted (n2 # names))" using 3 unfolding rest_def by auto
  have m: "mangleModuleNames (name # n2 # names) @ identifier = CHR ''m'' # delimitName name @ rest" by (simp add: rest_def)
  have "demangleModules (mangleModuleNames (name # n2 # names) @ identifier) fp =
      Inr (Some (delimitName (last (n2 # names)) @ identifier), write_to fp (name @ ''.'') @ out)"
    unfolding m by (subst demangleModules_unfold) (simp add: char_at_def r out(1))
  then show ?case using out(2) by (auto simp: write_to_def)
qed simp

text \<open>An organization whose delimited part is in ASCII and does not start with an underscore.\<close>

definition plain_org :: "string \<Rightarrow> bool" where
  "plain_org org \<longleftrightarrow>
     (let rest = (if take 9 org = ''ballerina'' then drop 9 org else org) in rest = [] \<or> plain_name rest)"

definition org_prefix :: "string \<Rightarrow> string" where
  "org_prefix org = (if org = [] then [] else org @ ''/'')"

text \<open>The part of \<open>demangle\<close> after the prefix \<open>_B\<close> and the letter of the organization \<open>ballerina\<close>.\<close>

lemma demangle_org:
  assumes "rest = [] \<or> plain_name rest" "q \<noteq> []"
  shows "(if char_at (delimitName rest @ q) = CHR ''0'' then Inr (Some (tl (delimitName rest @ q), None))
     else bindR (demangleCountedName (delimitName rest @ q)) (\<lambda>r. Inr (map_option (\<lambda>(p, org). (p, Some org)) r))) =
    Inr (Some (q, if rest = [] then None else Some (rest @ q)))"
proof (cases "rest = []")
  case True
  then show ?thesis using delimited_leading(1) [of rest] by (simp add: char_at_def)
next
  case False
  obtain c r where "delimitName rest = c # r" "c \<noteq> CHR ''0''"
    using delimited_leading(2) [of rest] False assms(1) plain_name_length [of rest] by fastforce
  then have "char_at (delimitName rest @ q) \<noteq> CHR ''0''" by (simp add: char_at_def)
  then show ?thesis using False assms demangle_delimited [of rest q] by simp
qed

lemma demangle_mangled:
  assumes org: "plain_org org" and names: "names \<noteq> []" "list_all plain_name names" and id: "identifier \<noteq> []"
  shows "demangle (manglePublicSymbol org names identifier) fp =
    Inr (PUBLIC_BALLERINA_NAME, Some identifier, write_to fp (org_prefix org @ dotted names))"
proof -
  define isBal where "isBal = (take 9 org = ''ballerina'')"
  define rest where "rest = (if isBal then drop 9 org else org)"
  define q where "q = mangleModuleNames names @ identifier"
  have q: "q \<noteq> []" using id by (simp add: q_def)
  have rest: "rest = [] \<or> plain_name rest" using org by (simp add: plain_org_def rest_def isBal_def Let_def)
  have ot: "org = (if isBal then ''ballerina'' else []) @ rest"
  proof (cases isBal)
    case True
    then have "take 9 org = ''ballerina''" by (simp add: isBal_def)
    then show ?thesis using append_take_drop_id [of 9 org] True by (metis rest_def)
  qed (simp add: rest_def)
  have mangled: "manglePublicSymbol org names identifier = ''_B'' @ (if isBal then ''b'' else []) @ delimitName rest @ q"
    by (simp add: manglePublicSymbol_def mangleOrg_def isBal_def rest_def q_def)
  obtain c r where c: "delimitName rest = c # r" "is_digit c" using delimited_leading(2) by blast
  have ne: "c \<noteq> CHR ''_''" "c \<noteq> CHR ''b''" using c(2) by (auto simp: is_digit_def)
  obtain out where out: "demangleModules q fp = Inr (Some (delimitName (last names) @ identifier), out)"
    "out @ write_to fp (last names) = write_to fp (dotted names)"
    using demangleModules_mangled [OF names id] unfolding q_def by blast
  have lst: "demangleCountedName (delimitName (last names) @ identifier) = Inr (Some (identifier, last names @ identifier))"
    by (rule demangle_delimited) (use names id in \<open>auto simp: list_all_iff\<close>)
  have prefix: "org_prefix org = (if isBal then ''ballerina'' else []) @ (if rest = [] then [] else rest) @ (if isBal \<or> rest \<noteq> [] then ''/'' else [])"
    using ot by (auto simp: org_prefix_def)
  let ?p2 = "(if isBal then ''b'' else []) @ delimitName rest @ q"
  have p2: "drop 2 (manglePublicSymbol org names identifier) = ?p2" unfolding mangled by simp
  have b: "(char_at ?p2 = CHR ''b'') = isBal" "char_at ?p2 \<noteq> CHR ''_''" using c(1) ne by (auto simp: char_at_def)
  have p3: "(if char_at ?p2 = CHR ''b'' then tl ?p2 else ?p2) = delimitName rest @ q" using b by simp
  have head: "\<not> (char_at (manglePublicSymbol org names identifier) \<noteq> CHR ''_'' \<or> char_at (tl (manglePublicSymbol org names identifier)) \<noteq> CHR ''B'')"
    unfolding mangled by (simp add: char_at_def)
  show ?thesis
    unfolding demangle_def Let_def if_not_P [OF head] p2
    unfolding if_not_P [OF b(2)] p3
    unfolding demangle_org [OF rest q] b(1)
    using out(2) by (auto simp: out(1) lst prefix write_to_def)
qed

text \<open>How a symbol is shown: its identifier, and for a public one its module.\<close>

definition symbol_text :: "string \<Rightarrow> string list \<Rightarrow> bool \<Rightarrow> string \<Rightarrow> string" where
  "symbol_text org names isPublic identifier =
     (if isPublic then identifier @ '' ('' @ org_prefix org @ dotted names @ '')'' else identifier)"

lemma print_mangled_symbol:
  assumes "plain_org org" "names \<noteq> []" "list_all plain_name names" "identifier \<noteq> []"
  shows "bal_print_mangled_name (mangleInternalSymbol org names isPublic identifier) = Inr (symbol_text org names isPublic identifier)"
proof (cases isPublic)
  case True
  have "bal_print_mangled_name (manglePublicSymbol org names identifier) = Inr (symbol_text org names True identifier)"
    unfolding bal_print_mangled_name_def demangle_mangled [OF assms] by (simp add: symbol_text_def write_to_def)
  then show ?thesis using True by (simp add: mangleInternalSymbol_def)
next
  case False
  then show ?thesis by (simp add: mangleInternalSymbol_def bal_print_mangled_name_def demangle_def char_at_def symbol_text_def)
qed

lemma mangled_prefix: "isPrefix ''_B'' (mangleInternalSymbol org names isPublic identifier)"
  by (simp add: mangleInternalSymbol_def manglePublicSymbol_def)

end
