(* ===== verification/Rt_Backtrace.thy ===== *)
theory Rt_Backtrace
  imports Rt_Demangle Rt_String_Props
begin

text \<open>
  Errors, backtraces and panics: \<open>error.c\<close> and \<open>panic.c\<close>. The library libbacktrace is a parameter: what
  each of its calls reports to the callbacks of the runtime. Output to a \<open>FILE\<close> is the string of the
  characters written.
\<close>

section \<open>The library libbacktrace\<close>

text \<open>
  \<open>backtrace_simple\<close> reports the frames of the stack, \<open>backtrace_pcinfo\<close> the functions at a program
  counter (several if calls were inlined), \<open>backtrace_syminfo\<close> the symbol at a program counter; each
  may report errors.
\<close>

datatype bt_event = BtFrame u64 | BtError string int
datatype pc_event = PcInfo "string option" int "string option" | PcError string int
datatype sym_event = SymInfo "string option" | SymError

record libbacktrace =
  bt_create_error :: "(string \<times> int) option"
  bt_simple :: "bt_event list"
  bt_pcinfo :: "u64 \<Rightarrow> pc_event list"
  bt_syminfo :: "u64 \<Rightarrow> sym_event"
  bt_strerror :: "int \<Rightarrow> string"

definition INITIAL_PC_COUNT :: nat where "INITIAL_PC_COUNT = 1"
definition MAX_PC_COUNT :: nat where "MAX_PC_COUNT = 256"
definition SUCCESS :: int where "SUCCESS = 0"
definition FAIL :: int where "FAIL = 1"
definition NO_DEBUG_INFO :: int where "NO_DEBUG_INFO = - 1"
definition NO_ERROR :: int where "NO_ERROR = - 2"
definition EXCEEDS_MAX_PC_COUNT :: int where "EXCEEDS_MAX_PC_COUNT = - 3"
definition OUT_OF_MEMORY :: int where "OUT_OF_MEMORY = - 4"

lemmas bt_codes = SUCCESS_def FAIL_def NO_DEBUG_INFO_def NO_ERROR_def EXCEEDS_MAX_PC_COUNT_def OUT_OF_MEMORY_def

record BacktraceError =
  be_code :: int
  be_message :: "string option"

record BacktraceStartLine =
  bl_error :: BacktraceError
  bl_lineNumber :: int

record SimpleBacktrace =
  sb_error :: BacktraceError
  sb_nPCs :: nat
  sb_szPCs :: nat
  sb_pcs :: "u64 option list option"

section \<open>Capturing the stack (error.c)\<close>

text \<open>\<open>malloc\<close> and \<open>realloc\<close>, which return 0 on failure\<close>

definition c_malloc :: "rt \<Rightarrow> u64 \<times> rt" where
  "c_malloc s = (case pool s of [] \<Rightarrow> (0, s) | p # ps \<Rightarrow> (p, s\<lparr>pool := ps\<rparr>))"

definition saveMessage :: "string \<Rightarrow> rt \<Rightarrow> string option \<times> rt" where
  "saveMessage msg s = (let (p, s1) = c_malloc s in (if p = 0 then None else Some msg, s1))"

definition storeBacktraceErrorCB :: "BacktraceError \<Rightarrow> string \<Rightarrow> int \<Rightarrow> rt \<Rightarrow> BacktraceError \<times> rt" where
  "storeBacktraceErrorCB err msg errnum s =
     (if be_code err \<noteq> NO_ERROR then (err, s)
      else let (str, s1) = saveMessage msg s in (\<lparr>be_code = errnum, be_message = str\<rparr>, s1))"

definition set_code :: "int \<Rightarrow> SimpleBacktrace \<Rightarrow> SimpleBacktrace" where
  "set_code c sb = sb\<lparr>sb_error := (sb_error sb)\<lparr>be_code := c\<rparr>\<rparr>"

definition storePCCB :: "SimpleBacktrace \<Rightarrow> u64 \<Rightarrow> rt \<Rightarrow> fault + int \<times> SimpleBacktrace \<times> rt" where
  "storePCCB sb pc s =
     (let nPCs = sb_nPCs sb; szPCs = sb_szPCs sb
      in bindR (if nPCs = szPCs
                then if szPCs = MAX_PC_COUNT then Inr (FAIL, set_code EXCEEDS_MAX_PC_COUNT sb, s)
                     else let szPCs1 = szPCs * 2; (p, s1) = c_malloc s
                          in if p = 0 then Inr (FAIL, set_code OUT_OF_MEMORY sb, s1)
                             else (case sb_pcs sb of
                                     None \<Rightarrow> Inl BadPointer
                                   | Some pcs \<Rightarrow>
                                       Inr (SUCCESS, sb\<lparr>sb_szPCs := szPCs1,
                                              sb_pcs := Some (pcs @ block_new (szPCs1 - length pcs))\<rparr>, s1))
                else Inr (SUCCESS, sb, s)) (\<lambda>(ret, sb1, s1).
         if ret \<noteq> SUCCESS then Inr (ret, sb1, s1)
         else bindR (of_option BadPointer (sb_pcs sb1)) (\<lambda>pcs.
              bindR (block_set pcs (int nPCs) pc) (\<lambda>pcs1.
                Inr (SUCCESS, sb1\<lparr>sb_pcs := Some pcs1, sb_nPCs := nPCs + 1\<rparr>, s1)))))"

text \<open>\<open>backtrace_simple\<close> with the callbacks of the runtime: it stops when the callback does not return zero.\<close>

fun backtrace_simple :: "bt_event list \<Rightarrow> SimpleBacktrace \<Rightarrow> rt \<Rightarrow> fault + SimpleBacktrace \<times> rt" where
  "backtrace_simple [] sb s = Inr (sb, s)"
| "backtrace_simple (BtFrame pc # es) sb s =
     bindR (storePCCB sb pc s) (\<lambda>(ret, sb1, s1).
       if ret \<noteq> SUCCESS then Inr (sb1, s1) else backtrace_simple es sb1 s1)"
| "backtrace_simple (BtError msg errnum # es) sb s =
     (let (err, s1) = storeBacktraceErrorCB (sb_error sb) msg errnum s
      in backtrace_simple es (sb\<lparr>sb_error := err\<rparr>) s1)"

text \<open>
  \<open>created\<close> says whether the static variable \<open>state\<close> is set. \<open>backtrace_create_state\<close> fails by reporting
  an error.
\<close>

definition getSimpleBacktrace :: "libbacktrace \<Rightarrow> bool \<Rightarrow> rt \<Rightarrow> fault + SimpleBacktrace \<times> bool \<times> rt" where
  "getSimpleBacktrace lib created s =
     (let (p, s1) = c_malloc s
      in if p = 0
         then Inr (\<lparr>sb_error = \<lparr>be_code = OUT_OF_MEMORY, be_message = None\<rparr>, sb_nPCs = 0, sb_szPCs = 0, sb_pcs = None\<rparr>, created, s1)
         else let sb = \<lparr>sb_error = \<lparr>be_code = NO_ERROR, be_message = None\<rparr>, sb_nPCs = 0, sb_szPCs = INITIAL_PC_COUNT,
                        sb_pcs = Some (block_new INITIAL_PC_COUNT)\<rparr>
              in case (if created then None else bt_create_error lib) of
                   Some (msg, errnum) \<Rightarrow>
                     (let (err, s2) = storeBacktraceErrorCB (sb_error sb) msg errnum s1 in Inr (sb\<lparr>sb_error := err\<rparr>, False, s2))
                 | None \<Rightarrow> bindR (backtrace_simple (bt_simple lib) sb s1) (\<lambda>(sb1, s2). Inr (sb1, True, s2)))"

fun block_read :: "'a option list \<Rightarrow> nat \<Rightarrow> fault + 'a list" where
  "block_read b 0 = Inr []"
| "block_read [] (Suc n) = Inl OutOfBounds"
| "block_read (x # b) (Suc n) = bindR (of_option BadPointer x) (\<lambda>v. bindR (block_read b n) (\<lambda>vs. Inr (v # vs)))"

definition sizeof_Error :: int where "sizeof_Error = 40"

definition bal_error_construct :: "libbacktrace \<Rightarrow> bool \<Rightarrow> tagged \<Rightarrow> int \<Rightarrow> rt \<Rightarrow> fault + tagged \<times> bool \<times> rt" where
  "bal_error_construct lib created message lineNumber s =
     bindR (getSimpleBacktrace lib created s) (\<lambda>(sb, created1, s1).
       let nPCs = sb_nPCs sb;
           errorSize = sizeof_Error + 8 * int nPCs +
             (case be_message (sb_error sb) of None \<Rightarrow> 0 | Some m \<Rightarrow> int (length m) + 1)
       in bindR (bal_alloc errorSize s1) (\<lambda>(ep, s2).
          bindR (case sb_pcs sb of None \<Rightarrow> Inr [] | Some pcs \<Rightarrow> block_read pcs nPCs) (\<lambda>pcs.
            let err = \<lparr>eo_message = message, eo_lineNumber = lineNumber, eo_backtraceErrorCode = be_code (sb_error sb),
                       eo_backtraceErrorMessage = be_message (sb_error sb), eo_pcs = pcs\<rparr>
            in Inr (ptrAddFlags ep (shifted_tag TAG_ERROR), created1, store ep (ObjError err) s2))))"

definition error_at :: "tagged \<Rightarrow> rt \<Rightarrow> fault + error_obj" where
  "error_at tp s = (case heap s (taggedToPtr tp) of Some (ObjError e) \<Rightarrow> Inr e | _ \<Rightarrow> Inl BadPointer)"

definition bal_lang_error_message :: "tagged \<Rightarrow> rt \<Rightarrow> fault + tagged" where
  "bal_lang_error_message error s = bindR (error_at error s) (\<lambda>ep. Inr (eo_message ep))"

section \<open>Printing the backtrace (error.c)\<close>

definition printBacktraceLine :: "string option \<Rightarrow> int \<Rightarrow> string option \<Rightarrow> fault + string" where
  "printBacktraceLine filename lineNumber function1 =
     bindR (case function1 of None \<Rightarrow> Inr ([], ''    '')
            | Some f \<Rightarrow> bindR (bal_print_mangled_name f) (\<lambda>t. Inr (''    '' @ t, '' ''))) (\<lambda>(out1, sep1).
       let (out2, sep2) = (case filename of None \<Rightarrow> ([], sep1) | Some n \<Rightarrow> (sep1 @ n, '':''));
           out3 = (if lineNumber \<noteq> 0 then sep2 @ print_int lineNumber @ [CHR 0x0A]
                   else if function1 \<noteq> None \<or> filename \<noteq> None then [CHR 0x0A] else [])
       in Inr (out1 @ out2 @ out3))"

definition printBacktraceLineCB ::
  "BacktraceStartLine \<Rightarrow> string option \<Rightarrow> int \<Rightarrow> string option \<Rightarrow> fault + BacktraceStartLine \<times> string" where
  "printBacktraceLineCB bsl filename lineno function1 =
     (case function1 of
        None \<Rightarrow> Inr (bsl, [])
      | Some f \<Rightarrow>
          if isPrefix ''_B'' f
          then let lineNumber = (if bl_lineNumber bsl \<noteq> 0 then bl_lineNumber bsl else lineno)
               in bindR (printBacktraceLine filename lineNumber function1) (\<lambda>out. Inr (bsl\<lparr>bl_lineNumber := 0\<rparr>, out))
          else Inr (bsl, []))"

definition printMissingSymbolsCB :: "BacktraceStartLine \<Rightarrow> string option \<Rightarrow> fault + string" where
  "printMissingSymbolsCB bsl symname = printBacktraceLine None (bl_lineNumber bsl) symname"

text \<open>\<open>backtrace_pcinfo\<close> with the callbacks of the runtime\<close>

fun backtrace_pcinfo :: "pc_event list \<Rightarrow> BacktraceStartLine \<Rightarrow> rt \<Rightarrow> fault + BacktraceStartLine \<times> string \<times> rt" where
  "backtrace_pcinfo [] bsl s = Inr (bsl, [], s)"
| "backtrace_pcinfo (PcInfo filename lineno function1 # es) bsl s =
     bindR (printBacktraceLineCB bsl filename lineno function1) (\<lambda>(bsl1, out1).
     bindR (backtrace_pcinfo es bsl1 s) (\<lambda>(bsl2, out2, s1). Inr (bsl2, out1 @ out2, s1)))"
| "backtrace_pcinfo (PcError msg errnum # es) bsl s =
     (let (err, s1) = storeBacktraceErrorCB (bl_error bsl) msg errnum s
      in backtrace_pcinfo es (bsl\<lparr>bl_error := err\<rparr>) s1)"

text \<open>\<open>backtrace_syminfo\<close>: the runtime passes no error callback, so an error is a call of a null pointer.\<close>

definition backtrace_syminfo :: "sym_event \<Rightarrow> BacktraceStartLine \<Rightarrow> fault + string" where
  "backtrace_syminfo e bsl = (case e of SymInfo symname \<Rightarrow> printMissingSymbolsCB bsl symname | SymError \<Rightarrow> Inl BadPointer)"

definition processInitialPC :: "libbacktrace \<Rightarrow> u64 \<Rightarrow> BacktraceStartLine \<Rightarrow> rt \<Rightarrow> fault + BacktraceStartLine \<times> string \<times> rt" where
  "processInitialPC lib pc bsl s =
     bindR (backtrace_pcinfo (bt_pcinfo lib pc) bsl s) (\<lambda>(bsl1, out1, s1).
       if be_code (bl_error bsl1) = NO_DEBUG_INFO
       then bindR (backtrace_syminfo (bt_syminfo lib pc) bsl1) (\<lambda>out2. Inr (bsl1, out1 @ out2, s1))
       else Inr (bsl1, out1, s1))"

fun syminfo_loop :: "libbacktrace \<Rightarrow> u64 list \<Rightarrow> BacktraceStartLine \<Rightarrow> fault + string" where
  "syminfo_loop lib [] bsl = Inr []"
| "syminfo_loop lib (pc # pcs) bsl =
     bindR (backtrace_syminfo (bt_syminfo lib pc) bsl) (\<lambda>out1.
     bindR (syminfo_loop lib pcs bsl) (\<lambda>out2. Inr (out1 @ out2)))"

fun pcinfo_loop :: "libbacktrace \<Rightarrow> u64 list \<Rightarrow> BacktraceStartLine \<Rightarrow> rt \<Rightarrow> fault + BacktraceStartLine \<times> string \<times> rt" where
  "pcinfo_loop lib [] bsl s = Inr (bsl, [], s)"
| "pcinfo_loop lib (pc # pcs) bsl s =
     bindR (backtrace_pcinfo (bt_pcinfo lib pc) bsl s) (\<lambda>(bsl1, out1, s1).
     bindR (pcinfo_loop lib pcs bsl1 s1) (\<lambda>(bsl2, out2, s2). Inr (bsl2, out1 @ out2, s2)))"

text \<open>\<open>pcs\<close> starts at the index \<open>start\<close> of the source.\<close>

definition processPCs :: "libbacktrace \<Rightarrow> u64 \<Rightarrow> u64 list \<Rightarrow> int \<Rightarrow> BacktraceError \<Rightarrow> rt \<Rightarrow> fault + BacktraceError \<times> string \<times> rt" where
  "processPCs lib pc pcs lineNumber err s =
     bindR (processInitialPC lib pc \<lparr>bl_error = err, bl_lineNumber = lineNumber\<rparr> s) (\<lambda>(bsl1, out1, s1).
       if be_code (bl_error bsl1) = NO_DEBUG_INFO
       then bindR (syminfo_loop lib pcs bsl1) (\<lambda>out2. Inr (bl_error bsl1, out1 @ out2, s1))
       else bindR (pcinfo_loop lib pcs bsl1 s1) (\<lambda>(bsl2, out2, s2). Inr (bl_error bsl2, out1 @ out2, s2)))"

definition bal_error_backtrace_print :: "libbacktrace \<Rightarrow> error_obj \<Rightarrow> nat \<Rightarrow> rt \<Rightarrow> fault + string \<times> rt" where
  "bal_error_backtrace_print lib ep start s =
     (let err = \<lparr>be_code = eo_backtraceErrorCode ep, be_message = eo_backtraceErrorMessage ep\<rparr>
      in bindR (case drop start (eo_pcs ep) of
                  [] \<Rightarrow> Inr (err, [], s)
                | pc # pcs \<Rightarrow> processPCs lib pc pcs (eo_lineNumber ep) err s) (\<lambda>(err1, out, s1).
           if be_code err1 = NO_ERROR then Inr (out, s1)
           else if be_code err1 = EXCEEDS_MAX_PC_COUNT then Inr (out @ ''...'' @ [CHR 0x0A], s1)
           else if be_code err1 = OUT_OF_MEMORY then Inr (out @ ''out of memory to store backtrace'' @ [CHR 0x0A], s1)
           else Inr (out @ ''libbacktrace'' @
                     (case be_message err1 of None \<Rightarrow> [] | Some m \<Rightarrow> '': '' @ m) @
                     (if be_code err1 > 0 then '': '' @ bt_strerror lib (be_code err1) else []) @ [CHR 0x0A], s1)))"

section \<open>Panics (panic.c)\<close>

definition panicMessages :: "string list" where
  "panicMessages =
     [''arithmetic overflow'', ''divide by zero'', ''bad type cast'', ''stack overflow'', ''index out of bounds'',
      ''list too long'', ''string too long'', ''bad list store'', ''bad mapping store'', ''no filler value'',
      ''internal error'', ''not a valid decimal'']"

definition ascii :: "string \<Rightarrow> byte list" where
  "ascii str = map (\<lambda>c. of_nat (of_char c)) str"

text \<open>
  \<open>DECL_MEDIUM_STRING_13_19\<close>: two lengths of 16 bits and 20 bytes, filled up with zeros, as 64-bit units.
\<close>

definition medium_string_13_19 :: "string \<Rightarrow> u64 list" where
  "medium_string_13_19 str =
     (let n = length str
      in bytes_mem ([of_nat n, of_nat (n div 256), of_nat n, of_nat (n div 256)] @ ascii str @ replicate (20 - n) 0))"

text \<open>\<open>statics\<close> gives the addresses of the static strings, indexed by the panic code.\<close>

definition panicMessageStrings :: "(nat \<Rightarrow> u64) \<Rightarrow> rt \<Rightarrow> bool" where
  "panicMessageStrings statics s \<longleftrightarrow>
     (\<forall>code \<in> {1..12}. heap_addr (statics code) \<and>
        heap s (statics code) = Some (ObjString (medium_string_13_19 (panicMessages ! (code - 1)))))"

definition bal_panic_construct :: "libbacktrace \<Rightarrow> (nat \<Rightarrow> u64) \<Rightarrow> bool \<Rightarrow> u64 \<Rightarrow> rt \<Rightarrow> fault + tagged \<times> bool \<times> rt" where
  "bal_panic_construct lib statics created err s =
     (let code = unat (err AND 0xFF); lineNumber = uint (drop_bit 8 err)
      in if code = 0 \<or> code \<ge> Suc (length panicMessages) then Inl Aborted
         else bal_error_construct lib created (ptrAddFlags (statics code) (shifted_tag TAG_STRING)) lineNumber s)"

definition BACKTRACE_START_INDEX :: nat where "BACKTRACE_START_INDEX = 1"

definition chars :: "byte list \<Rightarrow> string" where
  "chars bs = map (\<lambda>b. char_of (unat b)) bs"

text \<open>What \<open>_bal_panic\<close> writes to \<open>stderr\<close> before it aborts.\<close>

definition bal_panic :: "libbacktrace \<Rightarrow> tagged \<Rightarrow> rt \<Rightarrow> fault + string" where
  "bal_panic lib error s =
     bindR (error_at error s) (\<lambda>ep.
     bindR (taggedStringLength (eo_message ep) s) (\<lambda>len.
     bindR (taggedStringBytes (eo_message ep) s) (\<lambda>mem.
     bindR (bytes_at mem (nBytes len)) (\<lambda>bytes.
     bindR (bal_error_backtrace_print lib ep BACKTRACE_START_INDEX s) (\<lambda>(out, _).
       Inr (''panic: '' @ chars bytes @ [CHR 0x0A] @ out))))))"

definition bal_panic_internal :: "libbacktrace \<Rightarrow> (nat \<Rightarrow> u64) \<Rightarrow> bool \<Rightarrow> nat \<Rightarrow> rt \<Rightarrow> fault + string" where
  "bal_panic_internal lib statics created code s =
     bindR (bal_panic_construct lib statics created (of_nat code) s) (\<lambda>(error, _, s1). bal_panic lib error s1)"

end
