(* ===== verification/Rt_Backtrace_Props.thy ===== *)
theory Rt_Backtrace_Props
  imports Rt_Backtrace
begin

text \<open>
  Properties of backtraces and panics: the array of program counters keeps its bounds, what is
  captured is a prefix of the stack and all of it when there is no error, the static panic messages are
  well-formed strings, and what a panic prints.
\<close>

section \<open>Memory\<close>

definition heap_same :: "rt \<Rightarrow> rt \<Rightarrow> bool" where
  "heap_same s s1 \<longleftrightarrow> heap s1 = heap s \<and> img s1 = img s \<and> (wf_rt s \<longrightarrow> wf_rt s1)"

lemma heap_same_refl [simp]: "heap_same s s"
  by (simp add: heap_same_def)

lemma heap_same_trans: "heap_same s s1 \<Longrightarrow> heap_same s1 s2 \<Longrightarrow> heap_same s s2"
  by (simp add: heap_same_def)

lemma c_malloc_same: "heap_same s (snd (c_malloc s))"
  by (auto simp: c_malloc_def heap_same_def wf_rt_def split: list.splits)

lemma storeBacktraceErrorCB_same: "heap_same s (snd (storeBacktraceErrorCB err msg n s))"
  using c_malloc_same [of s] by (auto simp: storeBacktraceErrorCB_def saveMessage_def split: prod.splits)

text \<open>The next \<open>n\<close> calls of \<open>malloc\<close> succeed.\<close>

definition memory :: "nat \<Rightarrow> rt \<Rightarrow> bool" where
  "memory n s \<longleftrightarrow> n \<le> length (pool s) \<and> (\<forall>p \<in> set (take n (pool s)). p \<noteq> 0)"

lemma memory_less: "memory n s \<Longrightarrow> m \<le> n \<Longrightarrow> memory m s"
  by (auto simp: memory_def dest: in_set_takeD set_take_subset_set_take [THEN subsetD])

lemma c_malloc_memory:
  assumes "memory (Suc n) s"
  obtains p s1 where "c_malloc s = (p, s1)" "p \<noteq> 0" "memory n s1" "heap_same s s1"
proof -
  obtain p ps where p: "pool s = p # ps" using assms by (cases "pool s") (auto simp: memory_def)
  then have "c_malloc s = (p, s\<lparr>pool := ps\<rparr>)" "p \<noteq> 0" "memory n (s\<lparr>pool := ps\<rparr>)"
    using assms by (auto simp: c_malloc_def memory_def)
  then show thesis using that c_malloc_same [of s] by simp
qed

section \<open>The array of program counters\<close>

text \<open>\<open>sb_inv k fs sb\<close>: the array has \<open>2\<^sup>k\<close> elements, of which the first are \<open>fs\<close>.\<close>

definition sb_inv :: "nat \<Rightarrow> u64 list \<Rightarrow> SimpleBacktrace \<Rightarrow> bool" where
  "sb_inv k fs sb \<longleftrightarrow> k \<le> 8 \<and> sb_szPCs sb = 2 ^ k \<and> sb_nPCs sb = length fs \<and> length fs \<le> 2 ^ k \<and>
     (\<exists>b. sb_pcs sb = Some b \<and> length b = 2 ^ k \<and> take (length fs) b = map Some fs)"

lemma sb_inv_bound: "sb_inv k fs sb \<Longrightarrow> length fs \<le> 256"
proof -
  assume "sb_inv k fs sb"
  then have k: "length fs \<le> 2 ^ k" "k \<le> 8" by (simp_all add: sb_inv_def)
  from k(2) have "(2 :: nat) ^ k \<le> 2 ^ 8" by (rule power_increasing) simp
  then show ?thesis using k(1) by simp
qed

lemma sb_inv_error [simp]: "sb_inv k fs (sb\<lparr>sb_error := e\<rparr>) \<longleftrightarrow> sb_inv k fs sb" "sb_inv k fs (set_code c sb) \<longleftrightarrow> sb_inv k fs sb"
  by (simp_all add: sb_inv_def set_code_def)

lemma store_pc:
  assumes "sb_inv k fs sb" "length fs < 2 ^ k" "sb_pcs sb = Some b"
  shows "sb_inv k (fs @ [pc]) (sb\<lparr>sb_pcs := Some (b[length fs := Some pc]), sb_nPCs := length fs + 1\<rparr>)"
proof -
  have b: "length b = 2 ^ k" "take (length fs) b = map Some fs" using assms by (auto simp: sb_inv_def)
  have "take (Suc (length fs)) (b[length fs := Some pc]) = map Some fs @ [Some pc]"
    using b assms(2) by (simp add: take_Suc_conv_app_nth)
  then show ?thesis using assms b by (simp add: sb_inv_def)
qed

text \<open>Growing the array.\<close>

lemma grow_pcs:
  assumes "sb_inv k fs sb" "k < 8" "sb_pcs sb = Some b"
  shows "sb_inv (Suc k) fs (sb\<lparr>sb_szPCs := sb_szPCs sb * 2, sb_pcs := Some (b @ block_new (sb_szPCs sb * 2 - length b))\<rparr>)"
  using assms by (auto simp: sb_inv_def)

lemma two_power_256: "k \<le> 8 \<Longrightarrow> (2 :: nat) ^ k = 256 \<longleftrightarrow> k = 8"
  using power_inject_exp [of "2 :: nat" k 8] by simp

lemma storePCCB_cases:
  assumes inv: "sb_inv k fs sb"
  obtains (stored) k1 sb1 s1 where "storePCCB sb pc s = Inr (SUCCESS, sb1, s1)" "sb_inv k1 (fs @ [pc]) sb1" "sb_error sb1 = sb_error sb"
      "heap_same s s1" "k1 = k \<and> s1 = s \<and> length fs < 2 ^ k \<or> k1 = Suc k \<and> s1 = snd (c_malloc s) \<and> length fs = 2 ^ k"
    | (full) "storePCCB sb pc s = Inr (FAIL, set_code EXCEEDS_MAX_PC_COUNT sb, s)" "length fs = 256"
    | (no_memory) s1 where "storePCCB sb pc s = Inr (FAIL, set_code OUT_OF_MEMORY sb, s1)" "heap_same s s1" "fst (c_malloc s) = 0"
        "length fs = 2 ^ k" "k < 8"
proof -
  obtain b where b: "sb_pcs sb = Some b" "length b = 2 ^ k" using inv by (auto simp: sb_inv_def)
  have n: "sb_nPCs sb = length fs" "sb_szPCs sb = 2 ^ k" "length fs \<le> 2 ^ k" "k \<le> 8" using inv by (auto simp: sb_inv_def)
  consider "length fs < 2 ^ k" | "length fs = 2 ^ k" "k = 8" | "length fs = 2 ^ k" "k < 8" using n(3,4) by linarith
  then show thesis
  proof cases
    case 1
    have "storePCCB sb pc s = Inr (SUCCESS, sb\<lparr>sb_pcs := Some (b[length fs := Some pc]), sb_nPCs := length fs + 1\<rparr>, s)"
      using 1 n b by (simp add: storePCCB_def Let_def of_option_def block_set_def)
    then show thesis using stored store_pc [OF inv 1 b(1), of pc] 1 by simp
  next
    case 2
    then show thesis using full n by (simp add: storePCCB_def MAX_PC_COUNT_def bt_codes)
  next
    case 3
    have ne: "sb_szPCs sb \<noteq> MAX_PC_COUNT" using two_power_256 [of k] 3(2) n(2) by (simp add: MAX_PC_COUNT_def)
    obtain p s1 where m: "c_malloc s = (p, s1)" by (cases "c_malloc s")
    have same: "heap_same s s1" using c_malloc_same [of s] m by simp
    show thesis
    proof (cases "p = 0")
      case True
      then show thesis using no_memory [of s1] same m n 3 ne by (simp add: storePCCB_def bt_codes)
    next
      case False
      let ?sb = "sb\<lparr>sb_szPCs := sb_szPCs sb * 2, sb_pcs := Some (b @ block_new (sb_szPCs sb * 2 - length b))\<rparr>"
      let ?b = "b @ block_new (sb_szPCs sb * 2 - length b)"
      note inv1 = grow_pcs [OF inv 3(2) b(1)]
      have l: "length fs < 2 ^ Suc k" using 3 by simp
      have "storePCCB sb pc s = Inr (SUCCESS, ?sb\<lparr>sb_pcs := Some (?b[length fs := Some pc]), sb_nPCs := length fs + 1\<rparr>, s1)"
        using 3 n b m False ne by (simp add: storePCCB_def Let_def of_option_def block_set_def nat_power_eq)
      then show thesis using stored [of _ s1 "Suc k"] store_pc [OF inv1 l, of ?b pc] same m 3(1) by simp
    qed
  qed
qed

fun frames :: "bt_event list \<Rightarrow> u64 list" where
  "frames [] = []"
| "frames (BtFrame pc # es) = pc # frames es"
| "frames (BtError msg n # es) = frames es"

text \<open>The error code after the errors that the library reported: the first one counts.\<close>

fun reported :: "int \<Rightarrow> bt_event list \<Rightarrow> int" where
  "reported c [] = c"
| "reported c (BtFrame pc # es) = reported c es"
| "reported c (BtError msg n # es) = reported (if c = NO_ERROR then n else c) es"

fun errors :: "bt_event list \<Rightarrow> nat" where
  "errors [] = 0"
| "errors (BtFrame pc # es) = errors es"
| "errors (BtError msg n # es) = Suc (errors es)"

text \<open>
  Why capturing ends: all frames are stored and the code is that of the library; or 256 frames are stored
  and there is another; or the array, full at a power of two, cannot grow.
\<close>

definition capture_end :: "u64 list \<Rightarrow> u64 list \<Rightarrow> int \<Rightarrow> int \<Rightarrow> bool \<Rightarrow> bool" where
  "capture_end stored rest code lib_code exhausted \<longleftrightarrow>
     rest = [] \<and> code = lib_code \<or>
     rest \<noteq> [] \<and> length stored = 256 \<and> code = EXCEEDS_MAX_PC_COUNT \<or>
     rest \<noteq> [] \<and> (\<exists>j < 8. length stored = 2 ^ j) \<and> code = OUT_OF_MEMORY \<and> exhausted"

lemma memory_malloc: "memory (Suc n) s \<Longrightarrow> memory n (snd (c_malloc s))"
  by (erule c_malloc_memory) simp

lemma memory_storeBacktraceErrorCB: "memory (Suc n) s \<Longrightarrow> memory n (snd (storeBacktraceErrorCB err msg k s))"
  using memory_malloc [of n s] memory_less [of "Suc n" s n]
  by (auto simp: storeBacktraceErrorCB_def saveMessage_def split: prod.splits)

lemma storeBacktraceErrorCB_code:
  "be_code (fst (storeBacktraceErrorCB err msg n s)) = (if be_code err = NO_ERROR then n else be_code err)"
  by (auto simp: storeBacktraceErrorCB_def split: prod.splits)

text \<open>Whatever the library reports and however little memory there is.\<close>

lemma backtrace_simple_prefix:
  assumes "sb_inv k fs sb"
  shows "\<exists>sb1 s1 gs hs k1. backtrace_simple es sb s = Inr (sb1, s1) \<and> sb_inv k1 (fs @ gs) sb1 \<and> heap_same s s1 \<and>
     frames es = gs @ hs \<and>
     capture_end (fs @ gs) hs (be_code (sb_error sb1)) (reported (be_code (sb_error sb)) es) (\<not> memory (8 - k + errors es) s) \<and>
     (\<forall>n. memory (8 - k + errors es + n) s \<longrightarrow> memory n s1)"
  using assms
proof (induction es sb s arbitrary: k fs rule: backtrace_simple.induct)
  case (1 sb s)
  then show ?case using memory_less [of _ s] by (auto simp: capture_end_def intro!: exI [of _ k])
next
  case (2 pc es sb s)
  from 2(2) show ?case
  proof (cases rule: storePCCB_cases [where pc = pc and s = s])
    case (stored k1 sb1 s1)
    obtain sb2 s2 gs hs k2 where r: "backtrace_simple es sb1 s1 = Inr (sb2, s2)" "sb_inv k2 ((fs @ [pc]) @ gs) sb2"
      "heap_same s1 s2" "frames es = gs @ hs"
      "capture_end ((fs @ [pc]) @ gs) hs (be_code (sb_error sb2)) (reported (be_code (sb_error sb1)) es) (\<not> memory (8 - k1 + errors es) s1)"
      "\<And>n. memory (8 - k1 + errors es + n) s1 \<Longrightarrow> memory n s2"
      using 2(1) [OF stored(1) refl refl _ stored(2)] by auto
    have k1: "k1 \<le> 8" using stored(2) by (simp add: sb_inv_def)
    have m: "memory (8 - k1 + n) s1" if "memory (8 - k + n) s" for n
      using stored(5) that memory_malloc [of "8 - k1 + n" s] k1 by (auto simp: Suc_diff_Suc [symmetric])
    have "capture_end (fs @ pc # gs) hs (be_code (sb_error sb2)) (reported (be_code (sb_error sb)) es) (\<not> memory (8 - k + errors es) s)"
      using r(5) m [of "errors es"] stored(3) by (auto simp: capture_end_def)
    then show ?thesis using stored(1,4) heap_same_trans r(1-4) r(6) m
      by (intro exI [of _ sb2] exI [of _ s2] exI [of _ "pc # gs"] exI [of _ hs] exI [of _ k2]) (auto simp: bindR_def add.assoc)
  next
    case full
    then show ?thesis using 2(2) memory_less [of _ s]
      by (intro exI [of _ "set_code EXCEEDS_MAX_PC_COUNT sb"] exI [of _ s] exI [of _ "[]"] exI [of _ "pc # frames es"] exI [of _ k])
        (auto simp: capture_end_def set_code_def bt_codes sb_inv_def)
  next
    case (no_memory s1)
    have no: "\<not> memory (8 - k + n) s" for n
      using no_memory(3,5) memory_less [of "8 - k + n" s 1] c_malloc_memory [of 0 s] by (metis One_nat_def Suc_leI fst_conv trans_le_add1 zero_less_diff)
    then show ?thesis using 2(2) no_memory
      by (intro exI [of _ "set_code OUT_OF_MEMORY sb"] exI [of _ s1] exI [of _ "[]"] exI [of _ "pc # frames es"] exI [of _ k])
        (auto simp: capture_end_def set_code_def bt_codes sb_inv_def add.assoc)
  qed
next
  case (3 msg n es sb s)
  obtain err s1 where e: "storeBacktraceErrorCB (sb_error sb) msg n s = (err, s1)" by (cases "storeBacktraceErrorCB (sb_error sb) msg n s")
  have same: "heap_same s s1" using storeBacktraceErrorCB_same [of s "sb_error sb" msg n] e by simp
  have c: "be_code err = (if be_code (sb_error sb) = NO_ERROR then n else be_code (sb_error sb))"
    using storeBacktraceErrorCB_code [of "sb_error sb" msg n s] e by simp
  have m: "memory i s1" if "memory (Suc i) s" for i using memory_storeBacktraceErrorCB [OF that, of "sb_error sb" msg n] e by simp
  have "sb_inv k fs (sb\<lparr>sb_error := err\<rparr>)" using 3(2) by simp
  then obtain sb1 s2 gs hs k1 where r: "backtrace_simple es (sb\<lparr>sb_error := err\<rparr>) s1 = Inr (sb1, s2)" "sb_inv k1 (fs @ gs) sb1"
    "heap_same s1 s2" "frames es = gs @ hs"
    "capture_end (fs @ gs) hs (be_code (sb_error sb1)) (reported (be_code err) es) (\<not> memory (8 - k + errors es) s1)"
    "\<And>n. memory (8 - k + errors es + n) s1 \<Longrightarrow> memory n s2"
    using 3(1) [OF e [symmetric] refl, of k fs] by auto
  have "capture_end (fs @ gs) hs (be_code (sb_error sb1)) (reported (be_code (sb_error sb)) (BtError msg n # es))
      (\<not> memory (8 - k + errors (BtError msg n # es)) s)"
    using r(5) m [of "8 - k + errors es"] unfolding capture_end_def reported.simps c by auto
  then show ?case using e r(1-4) r(6) m heap_same_trans [OF same r(3)]
    by (intro exI [of _ sb1] exI [of _ s2] exI [of _ gs] exI [of _ hs] exI [of _ k1]) auto
qed

text \<open>With enough memory and no error of the library.\<close>

lemma backtrace_simple_complete:
  assumes "sb_inv k fs sb" "be_code (sb_error sb) = NO_ERROR" "memory (9 - k) s"
  shows "\<exists>sb1 s1 k1. backtrace_simple (map BtFrame gs) sb s = Inr (sb1, s1) \<and> sb_inv k1 (take 256 (fs @ gs)) sb1 \<and> heap_same s s1 \<and>
     be_message (sb_error sb1) = be_message (sb_error sb) \<and> memory 1 s1 \<and>
     be_code (sb_error sb1) = (if length (fs @ gs) \<le> 256 then NO_ERROR else EXCEEDS_MAX_PC_COUNT)"
  using assms
proof (induction gs arbitrary: k fs sb s)
  case Nil
  then show ?case using sb_inv_bound [OF Nil(1)] memory_less [OF Nil(3), of 1] by (auto simp: sb_inv_def intro!: exI [of _ k])
next
  case (Cons pc gs)
  from Cons.prems(1) show ?case
  proof (cases rule: storePCCB_cases [where pc = pc and s = s])
    case (stored k1 sb1 s1)
    have "memory (9 - k1) s1"
    proof (cases "k1 = k")
      case True
      then show ?thesis using stored(5) Cons.prems(3) by auto
    next
      case False
      then have k: "k1 = Suc k" "s1 = snd (c_malloc s)" using stored(5) by auto
      then have "k < 8" using stored(2) by (simp add: sb_inv_def)
      then have "9 - k = Suc (9 - k1)" using k(1) by linarith
      then obtain p s2 where "c_malloc s = (p, s2)" "memory (9 - k1) s2" using c_malloc_memory [of "9 - k1" s] Cons.prems(3) by metis
      then show ?thesis using k by simp
    qed
    moreover have "be_code (sb_error sb1) = NO_ERROR" using stored(3) Cons.prems(2) by simp
    ultimately obtain sb2 s2 k2 where r: "backtrace_simple (map BtFrame gs) sb1 s1 = Inr (sb2, s2)"
      "sb_inv k2 (take 256 ((fs @ [pc]) @ gs)) sb2" "heap_same s1 s2" "be_message (sb_error sb2) = be_message (sb_error sb1)" "memory 1 s2"
      "be_code (sb_error sb2) = (if length ((fs @ [pc]) @ gs) \<le> 256 then NO_ERROR else EXCEEDS_MAX_PC_COUNT)"
      using Cons.IH [OF stored(2)] by blast
    then show ?thesis using stored(1,3) heap_same_trans [OF stored(4) r(3)]
      by (intro exI [of _ sb2] exI [of _ s2] exI [of _ k2]) simp
  next
    case full
    then show ?thesis using Cons.prems memory_less [OF Cons.prems(3), of 1]
      by (intro exI [of _ "set_code EXCEEDS_MAX_PC_COUNT sb"] exI [of _ s] exI [of _ k]) (auto simp: set_code_def bt_codes sb_inv_def)
  next
    case (no_memory s1)
    then have "9 - k = Suc (8 - k)" by linarith
    then obtain p s2 where "c_malloc s = (p, s2)" "p \<noteq> 0" using c_malloc_memory [of "8 - k" s] Cons.prems(3) by metis
    then show ?thesis using no_memory(3) by simp
  qed
qed

section \<open>Errors\<close>

lemma block_read_take: "take (length fs) b = map Some fs \<Longrightarrow> block_read b (length fs) = Inr fs"
  by (induction fs arbitrary: b) (case_tac b, auto simp: of_option_def)+

text \<open>The first allocation and the state of the library, before the frames are reported.\<close>

definition sb_empty :: SimpleBacktrace where
  "sb_empty = \<lparr>sb_error = \<lparr>be_code = NO_ERROR, be_message = None\<rparr>, sb_nPCs = 0, sb_szPCs = 1, sb_pcs = Some [None]\<rparr>"

lemma sb_empty_inv: "sb_inv 0 [] sb_empty"
  by (simp add: sb_inv_def sb_empty_def)

lemma getSimpleBacktrace_eq:
  assumes "created \<or> bt_create_error lib = None" "fst (c_malloc s) \<noteq> 0"
  shows "getSimpleBacktrace lib created s = bindR (backtrace_simple (bt_simple lib) sb_empty (snd (c_malloc s))) (\<lambda>(sb1, s2). Inr (sb1, True, s2))"
  using assms by (auto simp: getSimpleBacktrace_def sb_empty_def INITIAL_PC_COUNT_def block_new_def split: prod.splits option.splits)

lemma getSimpleBacktrace_no_memory:
  assumes "fst (c_malloc s) = 0"
  shows "getSimpleBacktrace lib created s =
    Inr (\<lparr>sb_error = \<lparr>be_code = OUT_OF_MEMORY, be_message = None\<rparr>, sb_nPCs = 0, sb_szPCs = 0, sb_pcs = None\<rparr>, created, snd (c_malloc s))"
  using assms by (cases "c_malloc s") (simp add: getSimpleBacktrace_def)

text \<open>Building the error object from what was captured.\<close>

definition error_of :: "tagged \<Rightarrow> int \<Rightarrow> BacktraceError \<Rightarrow> u64 list \<Rightarrow> error_obj" where
  "error_of msg line e fs = \<lparr>eo_message = msg, eo_lineNumber = line, eo_backtraceErrorCode = be_code e,
     eo_backtraceErrorMessage = be_message e, eo_pcs = fs\<rparr>"

lemma error_of_sel [simp]:
  "eo_message (error_of msg line e fs) = msg" "eo_lineNumber (error_of msg line e fs) = line"
  "eo_backtraceErrorCode (error_of msg line e fs) = be_code e" "eo_backtraceErrorMessage (error_of msg line e fs) = be_message e"
  "eo_pcs (error_of msg line e fs) = fs"
  by (simp_all add: error_of_def)

definition error_stored :: "rt \<Rightarrow> rt \<Rightarrow> tagged \<Rightarrow> error_obj \<Rightarrow> bool" where
  "error_stored s s1 tp ep \<longleftrightarrow> error_at tp s1 = Inr ep \<and> getTag tp = TAG_ERROR \<and> heap s \<subseteq>\<^sub>m heap s1 \<and> wf_rt s1 \<and> img s1 = img s"

lemma error_construct_captured:
  assumes sb: "getSimpleBacktrace lib created s = Inr (sb, created1, s1)" and same: "heap_same s s1" and wf: "wf_rt s"
    and pcs: "(case sb_pcs sb of None \<Rightarrow> Inr [] | Some b \<Rightarrow> block_read b (sb_nPCs sb)) = Inr fs"
  shows "case bal_error_construct lib created msg line s of
      Inl e \<Rightarrow> e = OutOfMemory \<and> \<not> memory 1 s1
    | Inr (tp, c1, s2) \<Rightarrow> error_stored s s2 tp (error_of msg line (sb_error sb) fs)"
proof -
  define n where "n = sizeof_Error + 8 * int (sb_nPCs sb) +
    (case be_message (sb_error sb) of None \<Rightarrow> 0 | Some m \<Rightarrow> int (length m) + 1)"
  define x where "x = ObjError (error_of msg line (sb_error sb) fs)"
  have r: "bal_error_construct lib created msg line s =
      bindR (alloc_obj n x s1) (\<lambda>(ep, s2). Inr (ptrAddFlags ep (shifted_tag TAG_ERROR), created1, s2))"
    using sb pcs by (cases "bal_alloc n s1")
      (auto simp: bal_error_construct_def alloc_obj_def error_of_def x_def n_def Let_def split: prod.splits)
  have wf1: "wf_rt s1" using same wf by (simp add: heap_same_def)
  show ?thesis
  proof (cases "alloc_obj n x s1")
    case (Inl e)
    have "e = OutOfMemory" using Inl by (rule alloc_obj_fault)
    moreover have "\<not> memory 1 s1" using Inl by (cases "pool s1") (auto simp: memory_def alloc_obj_def bal_alloc_def split: if_splits)
    ultimately show ?thesis using r Inl by simp
  next
    case (Inr q)
    obtain ep s2 where q: "alloc_obj n x s1 = Inr (ep, s2)" using Inr by (cases q) auto
    note ok = alloc_obj_ok [OF wf1 q]
    have "taggedToPtr (ptrAddFlags ep (shifted_tag TAG_ERROR)) = ep" "getTag (ptrAddFlags ep (shifted_tag TAG_ERROR)) = TAG_ERROR"
      using taggedToPtr_ptrAddFlags [OF ok(2), of 0 TAG_ERROR] getTag_ptrAddFlags [OF ok(2), of 0 TAG_ERROR] by simp_all
    then have "error_stored s s2 (ptrAddFlags ep (shifted_tag TAG_ERROR)) (error_of msg line (sb_error sb) fs)"
      using ok same by (auto simp: error_stored_def error_at_def heap_same_def map_le_def x_def)
    then show ?thesis using r q by simp
  qed
qed

lemma error_construct_prefix:
  assumes wf: "wf_rt s" and lib: "created \<or> bt_create_error lib = None"
  shows "case bal_error_construct lib created msg line s of
      Inl e \<Rightarrow> e = OutOfMemory \<and> \<not> memory (10 + errors (bt_simple lib)) s
    | Inr (tp, c1, s1) \<Rightarrow> \<exists>e fs hs. error_stored s s1 tp (error_of msg line e fs) \<and> frames (bt_simple lib) = fs @ hs \<and> length fs \<le> 256 \<and>
        (fs = [] \<and> be_code e = OUT_OF_MEMORY \<and> \<not> memory 1 s \<or>
         capture_end fs hs (be_code e) (reported NO_ERROR (bt_simple lib)) (\<not> memory (9 + errors (bt_simple lib)) s))"
proof (cases "fst (c_malloc s) = 0")
  case True
  let ?e = "\<lparr>be_code = OUT_OF_MEMORY, be_message = None\<rparr>"
  have no: "\<not> memory 1 s" using True c_malloc_memory [of 0 s] by (metis One_nat_def fst_conv)
  then have "\<not> memory (10 + n) s" for n using memory_less [of "10 + n" s 1] by auto
  moreover have "case bal_error_construct lib created msg line s of
      Inl e \<Rightarrow> e = OutOfMemory \<and> \<not> memory 1 (snd (c_malloc s))
    | Inr (tp, c1, s1) \<Rightarrow> error_stored s s1 tp (error_of msg line ?e [])"
    using error_construct_captured [OF getSimpleBacktrace_no_memory [OF True, of lib created] c_malloc_same wf, of "[]" msg line]
    unfolding SimpleBacktrace.simps by simp
  ultimately show ?thesis using no by (fastforce split: sum.splits)
next
  case False
  let ?s = "snd (c_malloc s)"
  obtain sb1 s2 gs hs k1 where r: "backtrace_simple (bt_simple lib) sb_empty ?s = Inr (sb1, s2)" "sb_inv k1 gs sb1"
    "heap_same ?s s2" "frames (bt_simple lib) = gs @ hs"
    "capture_end gs hs (be_code (sb_error sb1)) (reported NO_ERROR (bt_simple lib)) (\<not> memory (8 + errors (bt_simple lib)) ?s)"
    "\<And>n. memory (8 + errors (bt_simple lib) + n) ?s \<Longrightarrow> memory n s2"
    using backtrace_simple_prefix [OF sb_empty_inv, of "bt_simple lib" ?s] by (auto simp: sb_empty_def)
  have m: "memory n ?s" if "memory (Suc n) s" for n using that by (rule memory_malloc)
  have g: "getSimpleBacktrace lib created s = Inr (sb1, True, s2)" using getSimpleBacktrace_eq [OF lib False] r(1) by simp
  have pcs: "(case sb_pcs sb1 of None \<Rightarrow> Inr [] | Some b \<Rightarrow> block_read b (sb_nPCs sb1)) = Inr gs"
    using r(2) block_read_take by (auto simp: sb_inv_def)
  have x: "capture_end gs hs (be_code (sb_error sb1)) (reported NO_ERROR (bt_simple lib)) (\<not> memory (9 + errors (bt_simple lib)) s)"
    using r(5) m [of "8 + errors (bt_simple lib)"] by (auto simp: capture_end_def)
  have y: "memory 1 s2" if "memory (10 + errors (bt_simple lib)) s" using r(6) [of 1] m [of "9 + errors (bt_simple lib)"] that by simp
  from error_construct_captured [OF g heap_same_trans [OF c_malloc_same r(3)] wf pcs, of msg line] show ?thesis
    using r(4) x y sb_inv_bound [OF r(2)] by (fastforce split: sum.splits)
qed

lemma error_construct_complete:
  assumes wf: "wf_rt s" and lib: "created \<or> bt_create_error lib = None" "bt_simple lib = map BtFrame fs" and mem: "memory 10 s"
  shows "\<exists>tp c1 s1. bal_error_construct lib created msg line s = Inr (tp, c1, s1) \<and>
     error_stored s s1 tp (error_of msg line
       \<lparr>be_code = if length fs \<le> 256 then NO_ERROR else EXCEEDS_MAX_PC_COUNT, be_message = None\<rparr> (take 256 fs))"
proof -
  have "memory (Suc 9) s" using mem by simp
  then obtain p s1 where m: "c_malloc s = (p, s1)" "p \<noteq> 0" "memory (9 - 0) s1" by (rule c_malloc_memory) simp
  obtain sb1 s2 k1 where r: "backtrace_simple (map BtFrame fs) sb_empty s1 = Inr (sb1, s2)" "sb_inv k1 (take 256 fs) sb1" "heap_same s1 s2"
    "be_message (sb_error sb1) = None" "memory 1 s2" "be_code (sb_error sb1) = (if length fs \<le> 256 then NO_ERROR else EXCEEDS_MAX_PC_COUNT)"
    using backtrace_simple_complete [OF sb_empty_inv _ m(3), of fs] by (auto simp: sb_empty_def)
  have g: "getSimpleBacktrace lib created s = Inr (sb1, True, s2)" using getSimpleBacktrace_eq [OF lib(1), of s] m r(1) lib(2) by simp
  have pcs: "(case sb_pcs sb1 of None \<Rightarrow> Inr [] | Some b \<Rightarrow> block_read b (sb_nPCs sb1)) = Inr (take 256 fs)"
    using r(2) block_read_take [of "take 256 fs"] by (auto simp: sb_inv_def)
  have same: "heap_same s s2" using c_malloc_same [of s] m(1) r(3) heap_same_trans by auto
  have e: "sb_error sb1 = \<lparr>be_code = if length fs \<le> 256 then NO_ERROR else EXCEEDS_MAX_PC_COUNT, be_message = None\<rparr>"
    using r(4,6) by (cases "sb_error sb1") simp
  from error_construct_captured [OF g same wf pcs, of msg line] show ?thesis using r(5) unfolding e
    by (cases "bal_error_construct lib created msg line s") auto
qed

section \<open>Panic messages\<close>

lemma panic_messages_ascii: "list_all (list_all (\<lambda>c. (of_char c :: nat) < 128)) panicMessages"
  by (simp add: panicMessages_def)

lemma panic_messages_length: "list_all (\<lambda>m. 13 \<le> length m \<and> length m \<le> 19) panicMessages"
  by (simp add: panicMessages_def)

lemma chars_ascii: "list_all (\<lambda>c. (of_char c :: nat) < 128) m \<Longrightarrow> chars (ascii m) = m"
  by (induction m) (simp_all add: chars_def ascii_def unat_of_nat)

lemma ascii_less: "list_all (\<lambda>c. (of_char c :: nat) < 128) m \<Longrightarrow> \<forall>b \<in> set (ascii m). b < 0x80"
  by (auto simp: ascii_def list_all_iff word_less_nat_alt unat_of_nat)

lemma utf8_of_ascii: "\<forall>b \<in> set bs. b < 0x80 \<Longrightarrow> utf8 bs"
  by (induction bs) (simp_all add: utf8.simps utf8_len_def Let_def)

text \<open>The layout of \<open>DECL_MEDIUM_STRING_13_19\<close> is that of a medium string, for the lengths its name says.\<close>

lemma medium_header_small:
  assumes "code_points bs = length bs" "length bs \<le> 19"
  shows "medium_header bs = [of_nat (length bs), 0, of_nat (length bs), 0]"
proof -
  have "list_all (\<lambda>n. take 4 (word_bytes (word_of_nat n OR push_bit 16 (word_of_nat n))) = [of_nat n, 0, of_nat n, 0]) [0..<20]" by code_simp
  then have "\<forall>n < 20. take 4 (word_bytes (word_of_nat n OR push_bit 16 (word_of_nat n))) = [of_nat n, 0, of_nat n, 0]"
    by (simp only: list_all_iff set_upt atLeastLessThan_iff) simp
  then show ?thesis using assms by (simp add: medium_header_def)
qed

lemma medium_string_layout:
  assumes m: "list_all (\<lambda>c. (of_char c :: nat) < 128) m" "13 \<le> length m" "length m \<le> 19"
  shows "medium_string_13_19 m = medium_words (ascii m)"
proof -
  have len: "length (ascii m) = length m" by (simp add: ascii_def)
  have cp: "code_points (ascii m) = length (ascii m)" by (rule code_points_ascii) (rule ascii_less [OF m(1)])
  have "length m \<in> {13, 14, 15, 16, 17, 18, 19}" using m(2,3) by auto
  then have "pad8 (length m + 4) = 20 - length m" by (auto simp: pad8_def)
  then show ?thesis using medium_header_small [OF cp] m(3) len by (simp add: medium_string_13_19_def medium_words_def Let_def)
qed

lemma panic_message_rep:
  assumes st: "panicMessageStrings statics s" and code: "0 < code" "code \<le> 12"
  shows "str_rep s (ptrAddFlags (statics code) (shifted_tag TAG_STRING)) (ascii (panicMessages ! (code - 1)))"
proof -
  let ?m = "panicMessages ! (code - 1)"
  have "?m \<in> set panicMessages" using code by (intro nth_mem) (simp add: panicMessages_def)
  then have m: "list_all (\<lambda>c. (of_char c :: nat) < 128) ?m" "13 \<le> length ?m" "length ?m \<le> 19"
    using panic_messages_ascii panic_messages_length by (auto simp: list_all_iff)
  have len: "length (ascii ?m) = length ?m" by (simp add: ascii_def)
  have u: "utf8 (ascii ?m)" by (rule utf8_of_ascii) (rule ascii_less [OF m(1)])
  have cp: "code_points (ascii ?m) = length (ascii ?m)" by (rule code_points_ascii) (rule ascii_less [OF m(1)])
  have "heap_addr (statics code)" "heap s (statics code) = Some (ObjString (medium_words (ascii ?m)))"
    using st code medium_string_layout [OF m] by (auto simp: panicMessageStrings_def)
  then show ?thesis using u cp len m(2,3) by (auto simp: str_rep_def immediate_rep_def)
qed

section \<open>What is printed\<close>

text \<open>A call in the program, as debug information describes it.\<close>

record call_site =
  cs_org :: string
  cs_names :: "string list"
  cs_public :: bool
  cs_id :: string
  cs_file :: string
  cs_line :: int

definition plain_site :: "call_site \<Rightarrow> bool" where
  "plain_site c \<longleftrightarrow> plain_org (cs_org c) \<and> cs_names c \<noteq> [] \<and> list_all plain_name (cs_names c) \<and> cs_id c \<noteq> [] \<and> cs_line c \<noteq> 0"

definition site_symbol :: "call_site \<Rightarrow> string" where
  "site_symbol c = mangleInternalSymbol (cs_org c) (cs_names c) (cs_public c) (cs_id c)"

definition site_text :: "call_site \<Rightarrow> string" where
  "site_text c = symbol_text (cs_org c) (cs_names c) (cs_public c) (cs_id c)"

definition site_line :: "int \<Rightarrow> call_site \<Rightarrow> string" where
  "site_line n c = ''    '' @ site_text c @ '' '' @ cs_file c @ '':'' @ print_int n @ [CHR 0x0A]"

definition described :: "libbacktrace \<Rightarrow> u64 \<Rightarrow> call_site \<Rightarrow> bool" where
  "described lib pc c \<longleftrightarrow> plain_site c \<and> bt_pcinfo lib pc = [PcInfo (Some (cs_file c)) (cs_line c) (Some (site_symbol c))]"

lemma print_site: "plain_site c \<Longrightarrow> bal_print_mangled_name (site_symbol c) = Inr (site_text c)"
  by (simp add: plain_site_def site_symbol_def site_text_def print_mangled_symbol)

lemma print_described:
  assumes "described lib pc c"
  shows "backtrace_pcinfo (bt_pcinfo lib pc) bsl s =
    Inr (bsl\<lparr>bl_lineNumber := 0\<rparr>, site_line (if bl_lineNumber bsl \<noteq> 0 then bl_lineNumber bsl else cs_line c) c, s)"
proof -
  have c: "plain_site c" "cs_line c \<noteq> 0" "isPrefix ''_B'' (site_symbol c)"
    using assms mangled_prefix by (simp_all add: described_def plain_site_def site_symbol_def)
  show ?thesis using assms c print_site [OF c(1)]
    by (auto simp: described_def printBacktraceLineCB_def printBacktraceLine_def site_line_def)
qed

lemma pcinfo_loop_described:
  assumes "list_all2 (described lib) pcs cs" "bl_lineNumber bsl = 0"
  shows "pcinfo_loop lib pcs bsl s = Inr (bsl, concat (map (\<lambda>c. site_line (cs_line c) c) cs), s)"
  using assms(1)
proof (induction rule: list_all2_induct)
  case (Cons pc pcs c cs)
  have "backtrace_pcinfo (bt_pcinfo lib pc) bsl s = Inr (bsl, site_line (cs_line c) c, s)"
    using print_described [OF Cons(1), of bsl s] assms(2) by (cases bsl) simp
  then show ?case using Cons by simp
qed simp

lemma backtrace_print_described:
  assumes "list_all2 (described lib) pcs (c # cs)" "eo_pcs ep = pc # pcs" "eo_backtraceErrorCode ep = NO_ERROR"
  shows "bal_error_backtrace_print lib ep 1 s =
    Inr (site_line (if eo_lineNumber ep \<noteq> 0 then eo_lineNumber ep else cs_line c) c @ concat (map (\<lambda>c. site_line (cs_line c) c) cs), s)"
proof -
  obtain p ps where p: "pcs = p # ps" "described lib p c" "list_all2 (described lib) ps cs" using assms(1) by (cases pcs) auto
  show ?thesis using assms(2,3) p(1) print_described [OF p(2)] pcinfo_loop_described [OF p(3)]
    by (simp add: bal_error_backtrace_print_def processPCs_def processInitialPC_def bt_codes)
qed

lemma bal_panic_message:
  assumes "error_at tp s = Inr ep" "str_rep s (eo_message ep) bs"
  shows "bal_panic lib tp s =
    bindR (bal_error_backtrace_print lib ep 1 s) (\<lambda>(out, _). Inr (''panic: '' @ chars bs @ [CHR 0x0A] @ out))"
proof -
  obtain rest where "taggedStringBytes (eo_message ep) s = Inr (bs @ rest)" using taggedStringBytes_rep [OF assms(2)] by blast
  then show ?thesis using assms(1) taggedStringLength_rep [OF assms(2)]
    by (simp add: bal_panic_def bytes_at_def BACKTRACE_START_INDEX_def)
qed

end
