(* ===== verification/Errors_Correct.thy ===== *)
theory Errors_Correct
  imports Rt_Backtrace_Props Rt_Samples
begin

text \<open>
  Theorems about errors and panics: the names in backtraces, what an error captures of the stack,
  and what a panic prints, with and without debug information.
\<close>

section \<open>Names\<close>

text \<open>
  C31: Printing the mangled name of a symbol gives back its identifier and, for a public symbol, its
  organization and module, when the counted parts, the module names and the organization (without
  the prefix \<open>ballerina\<close>, which is abbreviated), are in ASCII and none starts with an underscore. The
  identifier can be any. For other counted parts it can fail, as the examples below show.
\<close>

theorem symbol_roundtrip:
  assumes "plain_org org" "names \<noteq> []" "list_all plain_name names" "identifier \<noteq> []"
  shows "bal_print_mangled_name (mangleInternalSymbol org names isPublic identifier) =
    Inr (if isPublic then identifier @ '' ('' @ org_prefix org @ dotted names @ '')'' else identifier)"
  using print_mangled_symbol [OF assms, of isPublic] by (simp add: symbol_text_def)

theorem symbol_roundtrip_witness:
  "bal_print_mangled_name (mangleInternalSymbol ''ballerinax'' [''a'', ''4me''] True ''main'') = Inr ''main (ballerinax/a.4me)''"
  using symbol_roundtrip [of "''ballerinax''" "[''a'', ''4me'']" "''main''" True]
  by (simp add: plain_org_def plain_name_def org_prefix_def)

text \<open>An organization \<open>ballerina_x\<close> is mangled with an underscore that the demangler takes for a separator.\<close>

lemma underscore_org_misread:
  "manglePublicSymbol ''ballerina_x'' [''m''] ''f'' = ''_Bb2_x1mf''"
  "bal_print_mangled_name ''_Bb2_x1mf'' = Inr ''_Bb2_x1mf''"
  by code_simp+

text \<open>An organization of one code point and two bytes: the compiler counts one, the demangler takes one byte.\<close>

lemma non_ascii_org_misread:
  "manglePublicSymbol [CHR 0xC3, CHR 0xA9] [''m''] ''f'' = ''_B1'' @ [CHR 0xC3, CHR 0xA9] @ ''1mf''"
  "bal_print_mangled_name (''_B1'' @ [CHR 0xC3, CHR 0xA9] @ ''1mf'') = Inr (''_B1'' @ [CHR 0xC3, CHR 0xA9] @ ''1mf'')"
  by code_simp+

lemma demangle_bare_count: "0 < n \<Longrightarrow> demangleCountedName (print_nat n) = Inl OutOfBounds"
  using sscanf_print_nat [of "[]" n] by (simp add: demangleCountedName_def char_at_def skip_chars.simps)

lemma bare_count_symbol:
  assumes "0 < n"
  shows "bal_print_mangled_name (''_B'' @ print_nat n) = Inl OutOfBounds"
proof -
  obtain c q where c: "print_nat n = c # q" "is_digit c" using print_nat_digits [of n] by (cases "print_nat n") auto
  have "c \<noteq> CHR ''0''" using print_nat_leading [OF assms] c by simp
  moreover have "c \<noteq> CHR ''_''" "c \<noteq> CHR ''b''" using c(2) by (auto simp: is_digit_def)
  ultimately show ?thesis using demangle_bare_count [OF assms] c(1)
    by (simp add: bal_print_mangled_name_def demangle_def char_at_def)
qed

text \<open>
  C34: Reading a counted name runs beyond the end of the symbol exactly if the symbol ends right after a
  positive count, or after the underscore that may follow it: the loop steps over the terminating
  zero before it tests for it. A count that is larger than what follows is otherwise rejected. So printing the symbol
  of the prefix and a positive count reads beyond its end.
\<close>

theorem demangle_reads_past_end:
  "(demangleCountedName pp = Inl OutOfBounds \<longleftrightarrow>
      (\<exists>n rest. sscanf_ld pp = Some (n, rest) \<and> 0 < n \<and> (rest = [] \<or> rest = ''_''))) \<and>
   (0 < m \<longrightarrow> bal_print_mangled_name (''_B'' @ print_nat m) = Inl OutOfBounds)"
  using demangleCountedName_past_end [of pp OutOfBounds] bare_count_symbol [of m] by blast

theorem demangle_reads_past_end_witness:
  "bal_print_mangled_name ''_B5'' = Inl OutOfBounds \<and> demangleCountedName ''5_'' = Inl OutOfBounds \<and>
   demangleCountedName ''5ab'' \<noteq> Inl OutOfBounds"
proof -
  have t: "''_B'' @ print_nat 5 = ''_B5''" "sscanf_ld ''5_'' = Some (5, ''_'')" "sscanf_ld ''5ab'' = Some (5, ''ab'')" by code_simp+
  show ?thesis using demangle_reads_past_end [of "''5_''" 5] demangle_reads_past_end [of "''5ab''" 5] unfolding t by simp
qed

section \<open>Capturing the stack\<close>

text \<open>
  C32: An error records the program counters that libbacktrace reports, up to 256 of them, and why it does not
  have all: either all are recorded, and the code is that of the first error of the library or \<open>NO_ERROR\<close>; or
  exactly 256 are recorded, there are more, and the code is \<open>EXCEEDS_MAX_PC_COUNT\<close>; or the array could not be
  allocated or, full at a power of two below 256, not grown, and the code is \<open>OUT_OF_MEMORY\<close>. The array is never
  overrun. With memory for nine allocations, and one for each error of the library, the last case is
  impossible; constructing the error only fails when the error itself cannot be allocated, which takes one more.
\<close>

theorem error_captures_stack:
  assumes "wf_rt s" "created \<or> bt_create_error lib = None"
  shows "case bal_error_construct lib created message line s of
      Inl e \<Rightarrow> e = OutOfMemory \<and> \<not> memory (10 + errors (bt_simple lib)) s
    | Inr (tp, created1, s1) \<Rightarrow> getTag tp = TAG_ERROR \<and> wf_rt s1 \<and> heap s \<subseteq>\<^sub>m heap s1 \<and>
        bal_lang_error_message tp s1 = Inr message \<and>
        (\<exists>ep rest. error_at tp s1 = Inr ep \<and> eo_lineNumber ep = line \<and> frames (bt_simple lib) = eo_pcs ep @ rest \<and>
          length (eo_pcs ep) \<le> 256 \<and>
          (rest = [] \<and> eo_backtraceErrorCode ep = reported NO_ERROR (bt_simple lib) \<or>
           rest \<noteq> [] \<and> length (eo_pcs ep) = 256 \<and> eo_backtraceErrorCode ep = EXCEEDS_MAX_PC_COUNT \<or>
           (eo_pcs ep = [] \<or> (\<exists>j < 8. length (eo_pcs ep) = 2 ^ j)) \<and> eo_backtraceErrorCode ep = OUT_OF_MEMORY \<and>
             \<not> memory (9 + errors (bt_simple lib)) s))"
proof (cases "bal_error_construct lib created message line s")
  case (Inl e)
  then show ?thesis using error_construct_prefix [OF assms, of message line] by simp
next
  case (Inr r)
  obtain tp c1 s1 where r: "r = (tp, c1, s1)" by (cases r)
  obtain e fs hs where e: "error_stored s s1 tp (error_of message line e fs)" "frames (bt_simple lib) = fs @ hs" "length fs \<le> 256"
    "fs = [] \<and> be_code e = OUT_OF_MEMORY \<and> \<not> memory 1 s \<or>
     capture_end fs hs (be_code e) (reported NO_ERROR (bt_simple lib)) (\<not> memory (9 + errors (bt_simple lib)) s)"
    using error_construct_prefix [OF assms, of message line] Inr r by auto
  have "\<not> memory 1 s \<Longrightarrow> \<not> memory (9 + errors (bt_simple lib)) s" using memory_less by auto
  then show ?thesis unfolding Inr r using e
    by (auto simp: error_stored_def bal_lang_error_message_def capture_end_def intro!: exI [of _ hs])
qed

definition sample_site :: "string \<Rightarrow> int \<Rightarrow> call_site" where
  "sample_site f n = \<lparr>cs_org = ''acme'', cs_names = [''app''], cs_public = True, cs_id = f, cs_file = ''m.bal'', cs_line = n\<rparr>"

text \<open>A stack of three frames: the runtime at 16, \<open>f\<close> at 32, \<open>main\<close> at 48.\<close>

definition sample_lib :: libbacktrace where
  "sample_lib = \<lparr>bt_create_error = None, bt_simple = map BtFrame [16, 32, 48],
     bt_pcinfo = (\<lambda>pc. let c = (if pc = 32 then sample_site ''f'' 3 else sample_site ''main'' 9)
       in [PcInfo (Some (cs_file c)) (cs_line c) (Some (site_symbol c))]),
     bt_syminfo = (\<lambda>pc. SymInfo None), bt_strerror = (\<lambda>n. [])\<rparr>"

text \<open>Static strings at 0x100000 and up, and addresses for ten allocations.\<close>

definition sample_statics :: "nat \<Rightarrow> u64" where
  "sample_statics code = 0x100000 + 0x20 * of_nat code"

definition sample_panic_rt :: rt where
  "sample_panic_rt = sample_rt\<lparr>pool := map (\<lambda>i. 0x1000 * of_nat i) [1..<11],
     heap := map_of (map (\<lambda>code. (sample_statics code, ObjString (medium_string_13_19 (panicMessages ! (code - 1))))) [1..<13])\<rparr>"

lemma sample_panic_pool:
  "pool sample_panic_rt = [0x1000, 0x2000, 0x3000, 0x4000, 0x5000, 0x6000, 0x7000, 0x8000, 0x9000, 0xA000]"
  by (simp add: sample_panic_rt_def upt_conv_Cons)

lemma sample_panic_heap:
  "heap sample_panic_rt = map_of (map (\<lambda>code. (sample_statics code, ObjString (medium_string_13_19 (panicMessages ! (code - 1))))) [1..<13])"
  by (simp add: sample_panic_rt_def)

lemma sample_statics_addr: "code \<in> {1..12} \<Longrightarrow> heap_addr (sample_statics code)"
proof -
  have "list_all (\<lambda>code. heap_addr (sample_statics code)) [1..<13]" by code_simp
  then show "code \<in> {1..12} \<Longrightarrow> heap_addr (sample_statics code)" unfolding list_all_iff set_upt by auto
qed

lemma sample_panic_wf: "wf_rt sample_panic_rt"
proof -
  have fresh: "\<forall>p \<in> set (pool sample_panic_rt). heap_addr p \<and> p \<notin> set (map sample_statics [1..<13])"
    unfolding sample_panic_pool by code_simp
  have "distinct (filter (\<lambda>p. p \<noteq> 0) (pool sample_panic_rt))" unfolding sample_panic_pool by simp
  moreover have "heap sample_panic_rt p = None" if "p \<in> set (pool sample_panic_rt)" for p
    using fresh that unfolding sample_panic_heap by (auto simp: map_of_eq_None_iff)
  moreover have "heap_addr p" if "heap sample_panic_rt p \<noteq> None" for p
    using that sample_statics_addr unfolding sample_panic_heap by (auto dest!: map_of_SomeD)
  ultimately show ?thesis using fresh by (auto simp: wf_rt_def)
qed

lemma sample_panic_strings: "panicMessageStrings sample_statics sample_panic_rt"
proof -
  have d: "distinct (map sample_statics [1..<13])" by code_simp
  have "heap sample_panic_rt (sample_statics code) = Some (ObjString (medium_string_13_19 (panicMessages ! (code - 1))))"
    if "code \<in> {1..12}" for code
    unfolding sample_panic_heap using that d by (intro map_of_is_SomeI) (auto simp: comp_def)
  then show ?thesis using sample_statics_addr by (simp add: panicMessageStrings_def)
qed

text \<open>The same library with a stack of 300 frames.\<close>

definition sample_deep_lib :: libbacktrace where
  "sample_deep_lib = sample_lib\<lparr>bt_simple := map BtFrame (replicate 300 16)\<rparr>"

lemma frames_of_frames: "frames (map BtFrame fs) = fs" "errors (map BtFrame fs) = 0" "reported c (map BtFrame fs) = c"
  by (induction fs) simp_all

theorem error_captures_stack_witness:
  "(case bal_error_construct sample_lib False NIL 7 sample_panic_rt of
      Inl e \<Rightarrow> False
    | Inr (tp, created1, s1) \<Rightarrow> bal_lang_error_message tp s1 = Inr NIL \<and>
        (\<exists>ep. error_at tp s1 = Inr ep \<and> eo_pcs ep = [16, 32, 48] \<and> eo_backtraceErrorCode ep = NO_ERROR)) \<and>
   (case bal_error_construct sample_deep_lib False NIL 7 sample_panic_rt of
      Inl e \<Rightarrow> False
    | Inr (tp, created1, s1) \<Rightarrow>
        \<exists>ep. error_at tp s1 = Inr ep \<and> eo_pcs ep = replicate 256 16 \<and> eo_backtraceErrorCode ep = EXCEEDS_MAX_PC_COUNT)"
proof -
  have l: "bt_create_error sample_lib = None" "bt_create_error sample_deep_lib = None" "bt_simple sample_lib = map BtFrame [16, 32, 48]"
    "bt_simple sample_deep_lib = map BtFrame (replicate 300 16)" by (simp_all add: sample_lib_def sample_deep_lib_def)
  have m: "memory 10 sample_panic_rt" "memory 9 sample_panic_rt" unfolding memory_def sample_panic_pool by simp_all
  have a: "False \<or> bt_create_error sample_lib = None" "False \<or> bt_create_error sample_deep_lib = None" using l by simp_all
  note w = error_captures_stack [OF sample_panic_wf a(1), of NIL 7, unfolded l(3) frames_of_frames add_0_right]
    error_captures_stack [OF sample_panic_wf a(2), of NIL 7, unfolded l(4) frames_of_frames add_0_right]
  have three: "length xs \<noteq> 256" if "[16 :: u64, 32, 48] = xs @ rest" for xs rest using arg_cong [OF that, of length] by simp
  obtain tp c1 s1 ep rest where x: "bal_error_construct sample_deep_lib False NIL 7 sample_panic_rt = Inr (tp, c1, s1)"
    "error_at tp s1 = Inr ep" "eo_pcs ep @ rest = replicate 300 16" "length (eo_pcs ep) \<le> 256"
    "rest \<noteq> [] \<longrightarrow> length (eo_pcs ep) = 256 \<and> eo_backtraceErrorCode ep = EXCEEDS_MAX_PC_COUNT"
  proof (cases "bal_error_construct sample_deep_lib False NIL 7 sample_panic_rt")
    case (Inl e)
    then show ?thesis using w(2) m(1) by simp
  next
    case (Inr q)
    obtain tp c1 s1 where t: "q = (tp, c1, s1)" by (cases q)
    show ?thesis using w(2) [unfolded Inr t sum.case prod.case] m(2) that [OF Inr [unfolded t]] by fastforce
  qed
  have "length (eo_pcs ep) + length rest = length (replicate 300 (16 :: u64))" unfolding x(3) [symmetric] by simp
  then have n: "rest \<noteq> []" "length (eo_pcs ep) = 256" using x(4,5) by auto
  then have deep: "eo_pcs ep = replicate 256 16" using arg_cong [OF x(3), of "take 256"] by simp
  show ?thesis
  proof
    show "case bal_error_construct sample_lib False NIL 7 sample_panic_rt of
      Inl e \<Rightarrow> False
    | Inr (tp, created1, s1) \<Rightarrow> bal_lang_error_message tp s1 = Inr NIL \<and>
        (\<exists>ep. error_at tp s1 = Inr ep \<and> eo_pcs ep = [16, 32, 48] \<and> eo_backtraceErrorCode ep = NO_ERROR)"
      using w(1) m three by (auto split: sum.splits)
    show "case bal_error_construct sample_deep_lib False NIL 7 sample_panic_rt of
      Inl e \<Rightarrow> False
    | Inr (tp, created1, s1) \<Rightarrow>
        \<exists>ep. error_at tp s1 = Inr ep \<and> eo_pcs ep = replicate 256 16 \<and> eo_backtraceErrorCode ep = EXCEEDS_MAX_PC_COUNT"
      using x(1,2,5) n(1) deep by simp
  qed
qed

section \<open>Panics\<close>

lemma packed_panic:
  assumes "code < 256" "line < 2 ^ 56"
  shows "unat (word_of_nat (code + 256 * line) AND 0xFF :: u64) = code" "uint (drop_bit 8 (word_of_nat (code + 256 * line) :: u64)) = int line"
proof -
  define w where "w = (word_of_nat (code + 256 * line) :: u64)"
  have "code + 256 * line < 2 ^ LENGTH(64)" using assms by simp
  then have small: "unat w = code + 256 * line" unfolding w_def by (simp only: unsigned_of_nat take_bit_nat_eq_self of_nat_id)
  have "w AND 0xFF = take_bit 8 w" by (simp add: take_bit_eq_mask mask_eq_exp_minus_1)
  then have "unat (w AND 0xFF) = unat w mod 256" by (simp add: unat_mod take_bit_eq_mod)
  then show "unat (word_of_nat (code + 256 * line) AND 0xFF :: u64) = code" using small assms(1) unfolding w_def [symmetric] by simp
  have "unat (drop_bit 8 w) = unat w div 256" by (simp add: unat_div drop_bit_eq_div)
  then have "unat (drop_bit 8 w) = line" using small assms(1) by simp
  then show "uint (drop_bit 8 (word_of_nat (code + 256 * line) :: u64)) = int line" unfolding w_def [symmetric] by (metis uint_nat)
qed

lemma panic_prints:
  assumes "wf_rt s" "memory 10 s" "panicMessageStrings statics s" "created \<or> bt_create_error lib = None"
    "bt_simple lib = map BtFrame (pc # pcs)" "list_all2 (described lib) pcs (c # cs)" "length pcs < 256"
    "0 < code" "code \<le> 12" "0 < line" "line < 2 ^ 56"
  shows "bindR (bal_panic_construct lib statics created (word_of_nat (code + 256 * line)) s) (\<lambda>(error, _, s1). bal_panic lib error s1) =
    Inr (''panic: '' @ panicMessages ! (code - 1) @ [CHR 0x0A] @ site_line (int line) c @ concat (map (\<lambda>c. site_line (cs_line c) c) cs))"
proof -
  let ?m = "panicMessages ! (code - 1)"
  have code: "code < 256" using assms(9) by simp
  note w = packed_panic [OF code assms(11)]
  have len: "length panicMessages = 12" by (simp add: panicMessages_def)
  obtain tp c1 s1 where r: "bal_error_construct lib created (ptrAddFlags (statics code) (shifted_tag TAG_STRING)) (int line) s = Inr (tp, c1, s1)"
    "error_stored s s1 tp (error_of (ptrAddFlags (statics code) (shifted_tag TAG_STRING)) (int line) \<lparr>be_code = NO_ERROR, be_message = None\<rparr> (pc # pcs))"
    using error_construct_complete [OF assms(1,4,5,2)] assms(7) by fastforce
  have "panicMessageStrings statics s1" using r(2) assms(3)
    by (auto simp: panicMessageStrings_def error_stored_def map_le_def dom_def)
  then have str: "str_rep s1 (ptrAddFlags (statics code) (shifted_tag TAG_STRING)) (ascii ?m)" using assms(8,9) by (rule panic_message_rep)
  have "?m \<in> set panicMessages" using assms(8,9) len by (intro nth_mem) simp
  then have mt: "chars (ascii ?m) = ?m" using panic_messages_ascii by (intro chars_ascii) (simp add: list_all_iff)
  have at: "error_at tp s1 = Inr (error_of (ptrAddFlags (statics code) (shifted_tag TAG_STRING)) (int line) \<lparr>be_code = NO_ERROR, be_message = None\<rparr> (pc # pcs))"
    using r(2) by (simp add: error_stored_def)
  have "bal_panic lib tp s1 = Inr (''panic: '' @ ?m @ [CHR 0x0A] @ site_line (int line) c @ concat (map (\<lambda>c. site_line (cs_line c) c) cs))"
    using bal_panic_message [OF at, of "ascii ?m" lib] str mt backtrace_print_described [OF assms(6)] assms(10) by simp
  then show ?thesis using r(1) w assms(8,9) len by (simp add: bal_panic_construct_def Let_def)
qed

text \<open>
  C33: A panic with a code of 1 to 12 and a line, packed in one word, prints the message of the code,
  then a line for each frame but the first: function, module, file and line, where the first of these
  lines has the line of the panic and the others those of the debug information. As for the demangler, the
  organizations and modules are in ASCII.
\<close>

theorem panic_report:
  assumes "wf_rt s" "memory 10 s" "panicMessageStrings statics s" "created \<or> bt_create_error lib = None"
    "bt_simple lib = map BtFrame (pc # pcs)" "list_all2 (described lib) pcs (c # cs)" "length pcs < 256"
    "0 < code" "code \<le> 12" "0 < line" "line < 2 ^ 56"
  shows "bindR (bal_panic_construct lib statics created (word_of_nat (code + 256 * line)) s) (\<lambda>(error, _, s1). bal_panic lib error s1) =
    Inr (''panic: '' @ panicMessages ! (code - 1) @ [CHR 0x0A] @ site_line (int line) c @ concat (map (\<lambda>c. site_line (cs_line c) c) cs))"
  using assms by (rule panic_prints)

lemma sample_described: "list_all2 (described sample_lib) [32, 48] [sample_site ''f'' 3, sample_site ''main'' 9]"
  by (simp add: described_def sample_lib_def sample_site_def plain_site_def plain_org_def plain_name_def)

theorem panic_report_witness:
  "bindR (bal_panic_construct sample_lib sample_statics False (word_of_nat (2 + 256 * 7)) sample_panic_rt) (\<lambda>(error, _, s1). bal_panic sample_lib error s1) =
    Inr (''panic: divide by zero'' @ [CHR 0x0A] @ ''    f (acme/app) m.bal:7'' @ [CHR 0x0A] @ ''    main (acme/app) m.bal:9'' @ [CHR 0x0A])"
proof -
  have m: "memory 10 sample_panic_rt" unfolding memory_def sample_panic_pool by simp
  have l: "False \<or> bt_create_error sample_lib = None" "bt_simple sample_lib = map BtFrame (16 # [32, 48])" by (simp_all add: sample_lib_def)
  have n: "length [32 :: u64, 48] < 256" "0 < (2 :: nat)" "(2 :: nat) \<le> 12" "0 < (7 :: nat)" "(7 :: nat) < 2 ^ 56" by simp_all
  have t: "site_line 7 (sample_site ''f'' 3) = ''    f (acme/app) m.bal:7'' @ [CHR 0x0A]"
    "site_line (cs_line (sample_site ''main'' 9)) (sample_site ''main'' 9) = ''    main (acme/app) m.bal:9'' @ [CHR 0x0A]"
    "panicMessages ! (2 - 1) = ''divide by zero''"
    by code_simp+
  from panic_report [OF sample_panic_wf m sample_panic_strings l sample_described n] show ?thesis
    unfolding of_nat_numeral concat.simps list.map t by (simp only: append.simps append_assoc)
qed

section \<open>Without debug information\<close>

text \<open>The debug information is missing, and the symbol table names the function.\<close>

definition only_symbol :: "libbacktrace \<Rightarrow> string \<Rightarrow> u64 \<Rightarrow> call_site \<Rightarrow> bool" where
  "only_symbol lib msg pc c \<longleftrightarrow> plain_site c \<and> bt_pcinfo lib pc = [PcError msg NO_DEBUG_INFO] \<and> bt_syminfo lib pc = SymInfo (Some (site_symbol c))"

definition symbol_line :: "int \<Rightarrow> call_site \<Rightarrow> string" where
  "symbol_line n c = ''    '' @ site_text c @ '' '' @ print_int n @ [CHR 0x0A]"

lemma syminfo_only: "only_symbol lib msg pc c \<Longrightarrow> bl_lineNumber bsl \<noteq> 0 \<Longrightarrow>
    backtrace_syminfo (bt_syminfo lib pc) bsl = Inr (symbol_line (bl_lineNumber bsl) c)"
  using print_site [of c]
  by (simp add: only_symbol_def backtrace_syminfo_def printMissingSymbolsCB_def printBacktraceLine_def symbol_line_def)

lemma syminfo_loop_only:
  assumes "list_all2 (only_symbol lib msg) pcs cs" "bl_lineNumber bsl \<noteq> 0"
  shows "syminfo_loop lib pcs bsl = Inr (concat (map (symbol_line (bl_lineNumber bsl)) cs))"
  using assms(1) by (induction rule: list_all2_induct) (simp_all add: syminfo_only assms(2))

lemma pcinfo_loop_only:
  assumes "list_all2 (only_symbol lib msg) pcs cs" "be_code (bl_error bsl) \<noteq> NO_ERROR"
  shows "pcinfo_loop lib pcs bsl s = Inr (bsl, [], s)"
  using assms(1) by (induction rule: list_all2_induct) (simp_all add: only_symbol_def storeBacktraceErrorCB_def assms(2))

text \<open>
  Without debug information every frame is printed with the line of the panic, because only the
  callback for debug information clears it; and if the stack was truncated at 256 frames no frame is
  printed at all, because the error that would select the symbol table is dropped in favour of
  the earlier one.
\<close>

lemma missing_debug_info:
  assumes "list_all2 (only_symbol lib msg) pcs cs" "pcs \<noteq> []" "eo_pcs ep = pc # pcs" "eo_lineNumber ep \<noteq> 0"
    "eo_backtraceErrorMessage ep = None" "memory 1 s"
  shows "(eo_backtraceErrorCode ep = NO_ERROR \<longrightarrow>
      (\<exists>s1. bal_error_backtrace_print lib ep 1 s =
        Inr (concat (map (symbol_line (eo_lineNumber ep)) cs) @ ''libbacktrace: '' @ msg @ [CHR 0x0A], s1))) \<and>
    (eo_backtraceErrorCode ep = EXCEEDS_MAX_PC_COUNT \<longrightarrow>
      bal_error_backtrace_print lib ep 1 s = Inr (''...'' @ [CHR 0x0A], s))"
proof -
  obtain p ps c cs' where p: "pcs = p # ps" "cs = c # cs'" "only_symbol lib msg p c" "list_all2 (only_symbol lib msg) ps cs'"
    using assms(1,2) by (cases pcs; cases cs) auto
  obtain q s1 where q: "c_malloc s = (q, s1)" "q \<noteq> 0" using assms(6) c_malloc_memory [of 0 s] by (metis One_nat_def)
  have i: "bt_pcinfo lib p = [PcError msg NO_DEBUG_INFO]" using p(3) by (simp add: only_symbol_def)
  let ?b = "\<lparr>bl_error = \<lparr>be_code = NO_DEBUG_INFO, be_message = Some msg\<rparr>, bl_lineNumber = eo_lineNumber ep\<rparr>"
  have y: "backtrace_syminfo (bt_syminfo lib p) ?b = Inr (symbol_line (eo_lineNumber ep) c)"
    "syminfo_loop lib ps ?b = Inr (concat (map (symbol_line (eo_lineNumber ep)) cs'))"
    using syminfo_only [OF p(3), of ?b] syminfo_loop_only [OF p(4), of ?b] assms(4) by simp_all
  have "bal_error_backtrace_print lib ep 1 s = Inr (concat (map (symbol_line (eo_lineNumber ep)) cs) @ ''libbacktrace: '' @ msg @ [CHR 0x0A], s1)"
    if "eo_backtraceErrorCode ep = NO_ERROR"
    using that assms(3) p(1,2) i q y
    by (simp add: bal_error_backtrace_print_def processPCs_def processInitialPC_def storeBacktraceErrorCB_def saveMessage_def bt_codes)
  moreover have "bal_error_backtrace_print lib ep 1 s = Inr (''...'' @ [CHR 0x0A], s)"
    if "eo_backtraceErrorCode ep = EXCEEDS_MAX_PC_COUNT"
    using that assms(3,5) p(1) i pcinfo_loop_only [OF p(4)]
    by (simp add: bal_error_backtrace_print_def processPCs_def processInitialPC_def storeBacktraceErrorCB_def bt_codes)
  ultimately show ?thesis by blast
qed

definition sample_stripped_lib :: libbacktrace where
  "sample_stripped_lib = \<lparr>bt_create_error = None, bt_simple = map BtFrame [16, 32, 48],
     bt_pcinfo = (\<lambda>pc. [PcError ''no debug info'' NO_DEBUG_INFO]),
     bt_syminfo = (\<lambda>pc. SymInfo (Some (site_symbol (if pc = 32 then sample_site ''f'' 3 else sample_site ''main'' 9)))),
     bt_strerror = (\<lambda>n. [])\<rparr>"

lemma missing_debug_info_example:
  "\<exists>s1. bal_error_backtrace_print sample_stripped_lib (error_of NIL 7 \<lparr>be_code = NO_ERROR, be_message = None\<rparr> [16, 32, 48]) 1 sample_panic_rt =
     Inr (symbol_line 7 (sample_site ''f'' 3) @ symbol_line 7 (sample_site ''main'' 9) @ ''libbacktrace: no debug info'' @ [CHR 0x0A], s1)"
proof -
  have l: "list_all2 (only_symbol sample_stripped_lib ''no debug info'') [32, 48] [sample_site ''f'' 3, sample_site ''main'' 9]"
    by (simp add: only_symbol_def sample_stripped_lib_def sample_site_def plain_site_def plain_org_def plain_name_def)
  have m: "memory 1 sample_panic_rt" unfolding memory_def sample_panic_pool by simp
  show ?thesis using missing_debug_info [OF l _ _ _ _ m, of "error_of NIL 7 \<lparr>be_code = NO_ERROR, be_message = None\<rparr> [16, 32, 48]" 16] by simp
qed

end
