(* ===== verification/Rt_Print.thy ===== *)
theory Rt_Print
  imports Rt_Backtrace Rt_Compare
begin

text \<open>
  \<open>print.c\<close>: printing of values, and \<open>io:println\<close>. Output is the string of the characters written. Reading a
  member of a primitive list boxes it, so the state is threaded; the recursion through members
  has a depth bound (\<open>TooDeep\<close>). The conversions of the libraries dtoa and decNumber and the format of a
  pointer are parameters.
\<close>

record print_lib =
  emyg_dtoa_non_special :: "u64 \<Rightarrow> string"
  decQuadToString :: "decQuad \<Rightarrow> string"
  print_pointer :: "u64 \<Rightarrow> string"

definition STYLE_DIRECT :: nat where "STYLE_DIRECT = 0"
definition STYLE_INFORMAL :: nat where "STYLE_INFORMAL = 1"

definition printStringLiteralChar :: "char \<Rightarrow> string" where
  "printStringLiteralChar c =
     (if c = CHR 0x22 \<or> c = CHR 0x5C then [CHR 0x5C, c]
      else if c = CHR 0x0A then [CHR 0x5C, CHR ''n'']
      else if c = CHR 0x0D then [CHR 0x5C, CHR ''r'']
      else if c = CHR 0x09 then [CHR 0x5C, CHR ''t'']
      else [c])"

type_synonym print_stack = "tagged list"

fun stackContains :: "print_stack \<Rightarrow> tagged \<Rightarrow> bool" where
  "stackContains [] p = False"
| "stackContains (q # stack) p = (if p = q then True else stackContains stack p)"

definition dbl_isinf :: "u64 \<Rightarrow> bool" where
  "dbl_isinf d \<longleftrightarrow> d AND 0x7FFFFFFFFFFFFFFF = 0x7FF0000000000000"

text \<open>The case of \<open>TAG_FLOAT\<close>.\<close>

definition print_float :: "print_lib \<Rightarrow> u64 \<Rightarrow> string" where
  "print_float lib d =
     (if dbl_isnan d then ''NaN''
      else if dbl_isinf d then (if dbl_lt d 0 then ''-Infinity'' else ''Infinity'')
      else if dbl_eq d 0 then (if bit d 63 then ''-0.0'' else ''0.0'')
      else emyg_dtoa_non_special lib d)"

text \<open>The loop variables are of type \<open>int\<close>.\<close>

definition INT_MAX :: int where "INT_MAX = 2 ^ 31 - 1"

definition int_inc :: "int \<Rightarrow> fault + int" where
  "int_inc i = (if i = INT_MAX then Inl IntOverflow else Inr (i + 1))"

text \<open>The loops over the members of a list (with or without commas) and the fields of a mapping.\<close>

fun list_print_loop :: "(tagged \<Rightarrow> rt \<Rightarrow> fault + string \<times> rt) \<Rightarrow> bool \<Rightarrow> tagged \<Rightarrow> nat \<Rightarrow> int \<Rightarrow> rt \<Rightarrow> fault + string \<times> rt" where
  "list_print_loop pr sep p 0 i s = Inr ([], s)"
| "list_print_loop pr sep p (Suc n) i s =
     bindR (list_get p i s) (\<lambda>(v, s1).
     bindR (pr v s1) (\<lambda>(out1, s2).
     bindR (int_inc i) (\<lambda>i1.
     bindR (list_print_loop pr sep p n i1 s2) (\<lambda>(out2, s3).
       Inr ((if sep \<and> i > 0 then '','' else []) @ out1 @ out2, s3)))))"

fun mapping_print_loop ::
  "(tagged \<Rightarrow> rt \<Rightarrow> fault + string \<times> rt) \<Rightarrow> (tagged \<Rightarrow> rt \<Rightarrow> fault + string \<times> rt) \<Rightarrow> mapping_obj \<Rightarrow> nat \<Rightarrow> int \<Rightarrow> rt \<Rightarrow> fault + string \<times> rt" where
  "mapping_print_loop prKey prVal mp 0 i s = Inr ([], s)"
| "mapping_print_loop prKey prVal mp (Suc n) i s =
     bindR (block_get (arr_members (mo_fArray mp)) i) (\<lambda>f.
     bindR (prKey (mf_key f) s) (\<lambda>(outKey, s1).
     bindR (prVal (mf_value f) s1) (\<lambda>(outVal, s2).
     bindR (int_inc i) (\<lambda>i1.
     bindR (mapping_print_loop prKey prVal mp n i1 s2) (\<lambda>(out2, s3).
       Inr ((if i > 0 then '','' else []) @ outKey @ '':'' @ outVal @ out2, s3))))))"

primrec printTaggedInner :: "nat \<Rightarrow> print_lib \<Rightarrow> tagged \<Rightarrow> nat \<Rightarrow> print_stack \<Rightarrow> rt \<Rightarrow> fault + string \<times> rt" where
  "printTaggedInner 0 = (\<lambda>lib p style stack s. Inl TooDeep)"
| "printTaggedInner (Suc d) = (\<lambda>lib p style stack s.
     let tag = utTag p
     in if tag = 0
        then (if p \<noteq> 0 then Inl Aborted else Inr (if style = STYLE_INFORMAL then ''null'' else [], s))
        else if tag = TAG_BOOLEAN then Inr (if taggedToBoolean p \<noteq> 0 then ''true'' else ''false'', s)
        else if tag = TAG_INT then bindR (taggedToInt p s) (\<lambda>n. Inr (print_int n, s))
        else if tag = TAG_FLOAT then bindR (taggedToFloat p s) (\<lambda>x. Inr (print_float lib x, s))
        else if tag = TAG_ERROR
        then bindR (error_at p s) (\<lambda>ep.
             bindR (printTaggedInner d lib (eo_message ep) STYLE_INFORMAL [] s) (\<lambda>(out, s1).
               Inr (''error('' @ out @ '')'', s1)))
        else if tag = TAG_LIST
        then (if stackContains stack p then Inr (''...'', s)
              else bindR (list_at p s) (\<lambda>lp.
                   bindR (list_print_loop (\<lambda>v. printTaggedInner d lib v STYLE_INFORMAL (p # stack)) True p
                            (nat (array_length (lo_array lp))) 0 s) (\<lambda>(out, s1).
                     Inr (''['' @ out @ '']'', s1))))
        else if tag = TAG_MAPPING
        then (if stackContains stack p then Inr (''...'', s)
              else bindR (mapping_at p s) (\<lambda>mp.
                   bindR (mapping_print_loop (\<lambda>k. printTaggedInner d lib k STYLE_INFORMAL [])
                            (\<lambda>v. printTaggedInner d lib v STYLE_INFORMAL (p # stack)) mp
                            (nat (arr_length (mo_fArray mp))) 0 s) (\<lambda>(out, s1).
                     Inr (''{'' @ out @ ''}'', s1))))
        else if tag = TAG_STRING
        then bindR (taggedStringLength p s) (\<lambda>len.
             bindR (taggedStringBytes p s) (\<lambda>mem.
             bindR (bytes_at mem (nBytes len)) (\<lambda>bytes.
               Inr (if style = STYLE_INFORMAL
                    then CHR 0x22 # concat (map printStringLiteralChar (chars bytes)) @ [CHR 0x22]
                    else chars bytes, s))))
        else if tag = TAG_DECIMAL then bindR (taggedToDecQuad p s) (\<lambda>x. Inr (decQuadToString lib x, s))
        else if tag = TAG_FUNCTION then Inr (''function '' @ print_pointer lib (taggedToPtr p), s)
        else Inl Aborted)"

definition printTagged :: "nat \<Rightarrow> print_lib \<Rightarrow> tagged \<Rightarrow> nat \<Rightarrow> print_stack \<Rightarrow> rt \<Rightarrow> fault + string \<times> rt" where
  "printTagged d lib p style stack s =
     bindR (list_at p s) (\<lambda>lp.
       list_print_loop (\<lambda>v. printTaggedInner d lib v style (p # stack)) False p (nat (array_length (lo_array lp))) 0 s)"

definition bal_lib_io_println :: "nat \<Rightarrow> print_lib \<Rightarrow> tagged \<Rightarrow> rt \<Rightarrow> fault + string \<times> rt" where
  "bal_lib_io_println d lib p s =
     bindR (printTagged d lib p STYLE_DIRECT [] s) (\<lambda>(out, s1). Inr (out @ [CHR 0x0A], s1))"

end
