(* ===== verification/Rt_Print_Props.thy ===== *)
theory Rt_Print_Props
  imports Rt_Print Rt_Equality_Graph
begin

text \<open>
  Printing. A value that is a tree is printed as the reference text \<open>vprint\<close>, whatever its
  representation; on a graph with cycles printing ends, because a structure that is being printed
  is shown as an ellipsis. The escapes of string literals can be read back.
\<close>

section \<open>The text of a value\<close>

definition quote :: "string \<Rightarrow> string" where
  "quote cs = CHR 0x22 # concat (map printStringLiteralChar cs) @ [CHR 0x22]"

definition commas :: "string list \<Rightarrow> string" where
  "commas ts = (case ts of [] \<Rightarrow> [] | t # us \<Rightarrow> t @ concat (map (\<lambda>u. '','' @ u) us))"

fun vprint :: "print_lib \<Rightarrow> bool \<Rightarrow> val \<Rightarrow> string" where
  "vprint lib informal VNil = (if informal then ''null'' else [])"
| "vprint lib informal (VBool b) = (if b then ''true'' else ''false'')"
| "vprint lib informal (VInt n) = print_int n"
| "vprint lib informal (VFloat x) = print_float lib x"
| "vprint lib informal (VDec x) = decQuadToString lib x"
| "vprint lib informal (VStr bs) = (if informal then quote (chars bs) else chars bs)"
| "vprint lib informal (VList vs) = ''['' @ commas (map (vprint lib True) vs) @ '']''"
| "vprint lib informal (VMap fs) = ''{'' @ commas (map (\<lambda>(k, v). quote (chars k) @ '':'' @ vprint lib True v) fs) @ ''}''"

text \<open>No list or mapping has more members than an \<open>int\<close> can count.\<close>

fun short :: "val \<Rightarrow> bool" where
  "short (VList vs) \<longleftrightarrow> int (length vs) \<le> INT_MAX \<and> (\<forall>v \<in> set vs. short v)"
| "short (VMap fs) \<longleftrightarrow> int (length fs) \<le> INT_MAX \<and> (\<forall>f \<in> set fs. short (snd f))"
| "short v \<longleftrightarrow> True"

text \<open>The text from position \<open>i\<close> on.\<close>

definition members_text :: "bool \<Rightarrow> nat \<Rightarrow> string list \<Rightarrow> string" where
  "members_text sep i ts =
     (if \<not> sep then concat ts else if i = 0 then commas ts else concat (map (\<lambda>u. '','' @ u) ts))"

lemma members_text_Nil [simp]: "members_text sep i [] = []"
  by (simp add: members_text_def commas_def)

lemma members_text_Cons: "members_text sep i (t # ts) = (if sep \<and> 0 < i then '','' else []) @ t @ members_text sep (Suc i) ts"
  by (simp add: members_text_def commas_def)

lemma stackContains_iff [simp]: "stackContains stack p \<longleftrightarrow> p \<in> set stack"
  by (induction stack) auto

lemma int_inc_ok: "int i < INT_MAX \<Longrightarrow> int_inc (int i) = Inr (int (Suc i))"
  by (simp add: int_inc_def)

section \<open>Values without members\<close>

lemma printTaggedInner_leaf:
  assumes "denotes s t v" "leaf v"
  shows "printTaggedInner (Suc d) lib t style stack s = Inr (vprint lib (style = STYLE_INFORMAL) v, s)"
proof -
  have u: "utTag t = val_tag v" using assms(1) by (rule denotes_utTag)
  show ?thesis
  proof (cases v)
    case VNil
    then have "t = 0" using assms(1) by (auto elim!: denotes_nilE simp: NIL_def)
    then show ?thesis using u VNil by simp
  next
    case (VBool b)
    then have "t = (if b then TAGGED_TRUE else TAGGED_FALSE)" using assms(1) by (auto elim!: denotes_boolE)
    then show ?thesis using u VBool taggedToBoolean_constants by simp
  next
    case (VInt n)
    then show ?thesis using u assms(1) taggedToInt_rep by (auto elim!: denotes_intE)
  next
    case (VFloat x)
    then show ?thesis using u assms(1) taggedToFloat_boxed by (auto elim!: denotes_floatE)
  next
    case (VDec x)
    then have "taggedToDecQuad t s = Inr x" using assms(1) getTag_boxed(3) by (auto elim!: denotes_decE simp: taggedToDecQuad_def)
    then show ?thesis using u VDec by simp
  next
    case (VStr bs)
    then have r: "str_rep s t bs" using assms(1) by (auto elim!: denotes_strE)
    obtain rest where "taggedStringBytes t s = Inr (bs @ rest)" using taggedStringBytes_rep [OF r] by blast
    then show ?thesis using u VStr taggedStringLength_rep [OF r] by (simp add: bytes_at_def quote_def)
  qed (use assms(2) in \<open>auto simp: leaf_def\<close>)
qed

section \<open>Trees\<close>

definition renders :: "print_lib \<Rightarrow> bool \<Rightarrow> rt \<Rightarrow> nat \<Rightarrow> (tagged \<Rightarrow> rt \<Rightarrow> fault + string \<times> rt) \<Rightarrow> bool" where
  "renders lib informal s0 n pr \<longleftrightarrow>
     (\<forall>s t v. grows s0 s \<longrightarrow> wf_rt s \<longrightarrow> denotes s t v \<longrightarrow> size v < n \<longrightarrow> short v \<longrightarrow>
        (case pr t s of Inl e \<Rightarrow> e = OutOfMemory | Inr (out, s1) \<Rightarrow> out = vprint lib informal v \<and> grows s s1))"

lemma rendersD:
  assumes "renders lib informal s0 n pr" "grows s0 s" "wf_rt s" "denotes s t v" "size v < n" "short v"
  shows "case pr t s of Inl e \<Rightarrow> e = OutOfMemory | Inr (out, s1) \<Rightarrow> out = vprint lib informal v \<and> grows s s1"
  using assms unfolding renders_def by blast

lemma list_print_loop_renders:
  assumes pr: "renders lib informal s0 (size (VList vs)) pr" and sh: "short (VList vs)"
    and g: "grows s0 s" and wf: "wf_rt s" and d: "denotes s p (VList vs)" and n: "i + n = length vs"
  shows "case list_print_loop pr sep p n (int i) s of
      Inl e \<Rightarrow> e = OutOfMemory
    | Inr (out, s1) \<Rightarrow> out = members_text sep i (map (vprint lib informal) (drop i vs)) \<and> grows s s1"
  using g wf d n
proof (induction n arbitrary: i s)
  case 0
  then show ?case by simp
next
  case (Suc n)
  have i: "i < length vs" "int i < INT_MAX" using Suc.prems(4) sh by simp_all
  have dr: "drop i vs = vs ! i # drop (Suc i) vs" using i by (simp add: Cons_nth_drop_Suc)
  show ?case unfolding list_print_loop.simps
  proof (rule seq_outcome [OF list_get_denotes [OF Suc.prems(3) i(1) Suc.prems(2)]], goal_cases)
    case g1: (1 t s1)
    have w1: "grows s0 s1" "wf_rt s1" using Suc.prems(1,2) g1 by (auto intro: grows_trans grows_wf)
    have "size (vs ! i) < size (VList vs)" "short (vs ! i)" using sh i(1) size_member by simp_all
    then show ?case
    proof (rule seq_outcome [OF rendersD [OF pr w1 conjunct1 [OF g1]]], goal_cases)
      case (1 out s2)
      then have g2: "out = vprint lib informal (vs ! i)" "grows s s2" using g1 by (auto intro: grows_trans)
      have w2: "grows s0 s2" "wf_rt s2" "denotes s2 p (VList vs)" "Suc i + n = length vs"
        using Suc.prems g2(2) by (auto intro: grows_trans grows_wf denotes_mono)
      show ?case using Suc.IH [OF w2] g2 int_inc_ok [OF i(2)] grows_trans [OF g2(2)]
        by (auto simp: dr members_text_Cons split: sum.splits)
    qed
  qed
qed

lemma mapping_print_loop_renders:
  assumes prKey: "renders lib True s0 1 prKey" and prVal: "renders lib True s0 N prVal" and N: "\<And>v. v \<in> set vs \<Longrightarrow> size v < N \<and> short v"
    and rep: "map_rep s0 m kts" and den: "list_all2 (denotes s0) (map snd kts) vs"
    and len: "int (length kts) \<le> INT_MAX" and g: "grows s0 s" and wf: "wf_rt s" and n: "i + n = length kts"
  shows "case mapping_print_loop prKey prVal m n (int i) s of
      Inl e \<Rightarrow> e = OutOfMemory
    | Inr (out, s1) \<Rightarrow>
        out = members_text True i (map (\<lambda>(k, v). quote (chars k) @ '':'' @ vprint lib True v) (drop i (zip (map fst kts) vs))) \<and> grows s s1"
  using g wf n
proof (induction n arbitrary: i s)
  case 0
  then show ?case by simp
next
  case (Suc n)
  have i: "i < length kts" "int i < INT_MAX" using Suc.prems(3) len by simp_all
  have lv: "length vs = length kts" using list_all2_lengthD [OF den] by simp
  define f where "f = arr_list (mo_fArray m) ! i"
  note r0 = map_rep_grows [OF rep Suc.prems(1)]
  have bg: "block_get (arr_members (mo_fArray m)) (int i) = Inr f"
    unfolding f_def using block_get_arr_list [OF map_repD(1) [OF r0], of "int i"] map_repD(9) [OF r0] i by simp
  have key: "denotes s (mf_key f) (VStr (fst (kts ! i)))"
    using map_repD(3) [OF r0] i map_repD(8) [OF r0] by (intro denotes.str) (simp add: f_def list_all2_conv_all_nth)
  have "mf_value f = snd (kts ! i)" using map_repD(4) [OF r0] map_repD(8) [OF r0] i by (metis f_def nth_map)
  then have val: "denotes s0 (mf_value f) (vs ! i)" using den i by (simp add: list_all2_conv_all_nth)
  have dr: "drop i (zip (map fst kts) vs) = (fst (kts ! i), vs ! i) # drop (Suc i) (zip (map fst kts) vs)"
    using i lv by (simp add: Cons_nth_drop_Suc [symmetric])
  have k: "case prKey (mf_key f) s of Inl e \<Rightarrow> e = OutOfMemory
      | Inr (out, s1) \<Rightarrow> out = quote (chars (fst (kts ! i))) \<and> grows s s1"
    using rendersD [OF prKey Suc.prems(1,2) key] by (auto split: sum.splits)
  show ?case unfolding mapping_print_loop.simps bg bindR_simps
  proof (rule seq_outcome [OF k], goal_cases)
    case g1: (1 out1 s1)
    have w1: "grows s0 s1" "wf_rt s1" using Suc.prems(1,2) g1 by (auto intro: grows_trans grows_wf)
    have "size (vs ! i) < N" "short (vs ! i)" using N [of "vs ! i"] i lv by simp_all
    then show ?case
    proof (rule seq_outcome [OF rendersD [OF prVal w1 denotes_mono [OF val w1(1)]]], goal_cases)
      case (1 out2 s2)
      then have g2: "out2 = vprint lib True (vs ! i)" "grows s s2" using g1 by (auto intro: grows_trans)
      have w2: "grows s0 s2" "wf_rt s2" "Suc i + n = length kts" using Suc.prems g2(2) by (auto intro: grows_trans grows_wf)
      show ?case using Suc.IH [OF w2] g1 g2 int_inc_ok [OF i(2)] grows_trans [OF g2(2)]
        unfolding dr list.map members_text_Cons by (auto split: sum.splits)
    qed
  qed
qed

text \<open>The structures on the stack are being printed: their values are larger than the current one.\<close>

definition print_above :: "rt \<Rightarrow> print_stack \<Rightarrow> nat \<Rightarrow> bool" where
  "print_above s stack n \<longleftrightarrow> (\<forall>q \<in> set stack. \<exists>w. denotes s q w \<and> n \<le> size w)"

lemma print_above_mono: "print_above s stack n \<Longrightarrow> grows s s1 \<Longrightarrow> m \<le> n \<Longrightarrow> print_above s1 stack m"
  unfolding print_above_def by (fastforce intro: denotes_mono)

lemma print_above_new: "print_above s stack n \<Longrightarrow> denotes s t v \<Longrightarrow> size v < n \<Longrightarrow> t \<notin> set stack"
  unfolding print_above_def using denotes_fun by fastforce

lemma print_above_push:
  assumes "print_above s stack (Suc (size v))" "denotes s t v" "grows s s1" "size w < size v"
  shows "print_above s1 (t # stack) (Suc (size w))"
  using print_above_mono [OF assms(1,3), of "Suc (size w)"] denotes_mono [OF assms(2,3)] assms(4)
  by (auto simp: print_above_def)

lemma keys_render: "0 < d \<Longrightarrow> renders lib True s 1 (\<lambda>k. printTaggedInner d lib k STYLE_INFORMAL [])"
proof -
  assume "0 < d"
  then obtain d' where d': "d = Suc d'" by (cases d) auto
  have "leaf w" if "size w < 1" for w using that by (cases w) (auto simp: leaf_def)
  then show ?thesis unfolding renders_def d' using printTaggedInner_leaf by fastforce
qed

lemma print_list_members:
  assumes "wf_rt s" "denotes s t (VList vs)" "short (VList vs)" "renders lib True s (size (VList vs)) pr"
  shows "\<exists>lp. list_at t s = Inr lp \<and>
    (case list_print_loop pr True t (nat (array_length (lo_array lp))) 0 s of
       Inl e \<Rightarrow> e = OutOfMemory | Inr (out, s1) \<Rightarrow> out = members_text True 0 (map (vprint lib True) vs) \<and> grows s s1)"
proof -
  obtain lp where l: "list_at t s = Inr lp" "array_length (lo_array lp) = int (length vs)" using list_length_denotes [OF assms(2)] by blast
  have n: "0 + nat (int (length vs)) = length vs" by simp
  from list_print_loop_renders [OF assms(4,3) grows_refl assms(1,2) n, of True, unfolded drop_0] show ?thesis using l by simp
qed

lemma print_mapping_members:
  assumes wf: "wf_rt s" and d: "denotes s t (VMap fs)" and sh: "short (VMap fs)"
    and pr: "renders lib True s 1 prKey" "renders lib True s (size (VMap fs)) pr"
  shows "\<exists>m. mapping_at t s = Inr m \<and>
    (case mapping_print_loop prKey pr m (nat (arr_length (mo_fArray m))) 0 s of
       Inl e \<Rightarrow> e = OutOfMemory
     | Inr (out, s1) \<Rightarrow> out = members_text True 0 (map (\<lambda>(k, v). quote (chars k) @ '':'' @ vprint lib True v) fs) \<and> grows s s1)"
proof -
  obtain m kts vs where m: "heap s (taggedToPtr t) = Some (ObjMapping m)" "map_rep s m kts"
    "list_all2 (denotes s) (map snd kts) vs" "fs = zip (map fst kts) vs" using d by (auto elim!: denotes_mapE)
  have at: "mapping_at t s = Inr m" using m(1) by (simp add: mapping_at_def)
  have len: "length vs = length kts" using list_all2_lengthD [OF m(3)] by simp
  have N: "size w < size (VMap fs) \<and> short w" if "w \<in> set vs" for w
  proof -
    have "\<exists>k. (k, w) \<in> set fs" using that m(4) len by (metis in_set_impl_in_set_zip2 length_map)
    then obtain k where k: "(k, w) \<in> set fs" by blast
    show ?thesis using size_field [OF k] sh k by auto
  qed
  have short_len: "int (length kts) \<le> INT_MAX" using sh m(4) len by simp
  have n: "0 + nat (int (length kts)) = length kts" by simp
  from mapping_print_loop_renders [OF pr N m(2,3) short_len grows_refl wf n, unfolded drop_0, folded m(4)] show ?thesis
    using at map_repD(9) [OF m(2)] by simp
qed

lemma printTaggedInner_correct:
  assumes "wf_rt s" "denotes s t v" "size v < d" "short v" "print_above s stack (Suc (size v))"
  shows "case printTaggedInner d lib t style stack s of
      Inl e \<Rightarrow> e = OutOfMemory
    | Inr (out, s1) \<Rightarrow> out = vprint lib (style = STYLE_INFORMAL) v \<and> grows s s1"
  using assms
proof (induction d arbitrary: s t v stack style)
  case 0
  then show ?case by simp
next
  case (Suc d)
  have rec: "renders lib True s (size v) (\<lambda>u. printTaggedInner d lib u STYLE_INFORMAL (t # stack))" unfolding renders_def
  proof (intro allI impI)
    fix s' u w
    assume a: "grows s s'" "wf_rt s'" "denotes s' u w" "size w < size v" "short w"
    have "print_above s' (t # stack) (Suc (size w))" using print_above_push [OF Suc.prems(5,2) a(1,4)] .
    have "size w < d" using Suc.prems(3) a(4) by simp
    from Suc.IH [OF a(2,3) this a(5) \<open>print_above s' (t # stack) (Suc (size w))\<close>, of STYLE_INFORMAL]
    show "case printTaggedInner d lib u STYLE_INFORMAL (t # stack) s' of Inl e \<Rightarrow> e = OutOfMemory
        | Inr (out, s1) \<Rightarrow> out = vprint lib True w \<and> grows s' s1" by (auto split: sum.splits)
  qed
  have new: "t \<notin> set stack" using print_above_new [OF Suc.prems(5,2)] by simp
  have u: "utTag t = val_tag v" using Suc.prems(2) by (rule denotes_utTag)
  consider (list) vs where "v = VList vs" | (mapping) fs where "v = VMap fs" | (leaf) "leaf v" by (cases v) (auto simp: leaf_def)
  then show ?case
  proof cases
    case list
    note p = Suc.prems(2,4) [unfolded list]
    obtain lp where l: "list_at t s = Inr lp"
      "case list_print_loop (\<lambda>u. printTaggedInner d lib u STYLE_INFORMAL (t # stack)) True t (nat (array_length (lo_array lp))) 0 s of
         Inl e \<Rightarrow> e = OutOfMemory | Inr (out, s1) \<Rightarrow> out = members_text True 0 (map (vprint lib True) vs) \<and> grows s s1"
      using print_list_members [OF Suc.prems(1) p rec [unfolded list]] by blast
    show ?thesis using l new u list by (auto simp: members_text_def split: sum.splits)
  next
    case mapping
    have d: "0 < d" using Suc.prems(3) unfolding mapping by simp
    note p = Suc.prems(2,4) [unfolded mapping]
    obtain m where m: "mapping_at t s = Inr m"
      "case mapping_print_loop (\<lambda>k. printTaggedInner d lib k STYLE_INFORMAL []) (\<lambda>u. printTaggedInner d lib u STYLE_INFORMAL (t # stack))
          m (nat (arr_length (mo_fArray m))) 0 s of
         Inl e \<Rightarrow> e = OutOfMemory
       | Inr (out, s1) \<Rightarrow> out = members_text True 0 (map (\<lambda>(k, v). quote (chars k) @ '':'' @ vprint lib True v) fs) \<and> grows s s1"
      using print_mapping_members [OF Suc.prems(1) p keys_render [OF d] rec [unfolded mapping]] by blast
    show ?thesis using m new u mapping by (auto simp: members_text_def split: sum.splits)
  next
    case leaf
    show ?thesis unfolding printTaggedInner_leaf [OF Suc.prems(2) leaf] by simp
  qed
qed

lemma bal_lib_io_println_correct:
  assumes wf: "wf_rt s" and p: "denotes s p (VList vs)" and d: "size (VList vs) \<le> d" and sh: "short (VList vs)"
  shows "case bal_lib_io_println d lib p s of
      Inl e \<Rightarrow> e = OutOfMemory
    | Inr (out, s1) \<Rightarrow> out = concat (map (vprint lib False) vs) @ [CHR 0x0A] \<and> grows s s1"
proof -
  have pr: "renders lib False s (size (VList vs)) (\<lambda>v. printTaggedInner d lib v STYLE_DIRECT [p])" unfolding renders_def
  proof (intro allI impI)
    fix s' u w
    assume a: "grows s s'" "wf_rt s'" "denotes s' u w" "size w < size (VList vs)" "short w"
    have "print_above s' [p] (Suc (size w))" using denotes_mono [OF p a(1)] a(4) by (auto simp: print_above_def)
    moreover have "size w < d" using a(4) d by simp
    ultimately show "case printTaggedInner d lib u STYLE_DIRECT [p] s' of Inl e \<Rightarrow> e = OutOfMemory
        | Inr (out, s1) \<Rightarrow> out = vprint lib False w \<and> grows s' s1"
      using printTaggedInner_correct [OF a(2,3) _ a(5), of d "[p]" lib STYLE_DIRECT]
      by (auto simp: STYLE_DIRECT_def STYLE_INFORMAL_def split: sum.splits)
  qed
  obtain lp where l: "list_at p s = Inr lp" "array_length (lo_array lp) = int (length vs)" using list_length_denotes [OF p] by blast
  have n: "0 + nat (int (length vs)) = length vs" by simp
  from list_print_loop_renders [OF pr sh grows_refl wf p n, of False] show ?thesis
    using l by (auto simp: bal_lib_io_println_def printTagged_def members_text_def split: sum.splits)
qed

section \<open>Graphs\<close>

definition graph_short :: "rt \<Rightarrow> tagged set \<Rightarrow> bool" where
  "graph_short s U \<longleftrightarrow>
     (\<forall>p \<in> U. \<forall>xs. list_view s p xs \<longrightarrow> int (length xs) \<le> INT_MAX) \<and>
     (\<forall>p \<in> U. \<forall>kts. map_view s p kts \<longrightarrow> int (length kts) \<le> INT_MAX)"

definition ends :: "rt \<Rightarrow> tagged set \<Rightarrow> (tagged \<Rightarrow> rt \<Rightarrow> fault + string \<times> rt) \<Rightarrow> bool" where
  "ends s0 U pr \<longleftrightarrow>
     (\<forall>s x t. grows s0 s \<longrightarrow> wf_rt s \<longrightarrow> view_ok s0 U x \<longrightarrow> reads s x t \<longrightarrow>
        (case pr t s of Inl e \<Rightarrow> e = OutOfMemory | Inr (out, s1) \<Rightarrow> grows s s1))"

lemma endsD:
  assumes "ends s0 U pr" "grows s0 s" "wf_rt s" "view_ok s0 U x" "reads s x t"
  shows "case pr t s of Inl e \<Rightarrow> e = OutOfMemory | Inr (out, s1) \<Rightarrow> grows s s1"
  using assms unfolding ends_def by blast

lemma list_print_loop_ends:
  assumes pr: "ends s0 U pr" and v: "list_view s0 p xs" and ok: "\<forall>x \<in> set xs. view_ok s0 U x" and sh: "int (length xs) \<le> INT_MAX"
    and g: "grows s0 s" and wf: "wf_rt s" and n: "i + n = length xs"
  shows "case list_print_loop pr sep p n (int i) s of Inl e \<Rightarrow> e = OutOfMemory | Inr (out, s1) \<Rightarrow> grows s s1"
  using g wf n
proof (induction n arbitrary: i s)
  case (Suc n)
  have i: "i < length xs" "int i < INT_MAX" using Suc.prems(3) sh by simp_all
  show ?case
  proof (cases "list_get p (int i) s")
    case (Inl e)
    then show ?thesis using list_get_view [OF v Suc.prems(1,2) i(1)] by simp
  next
    case (Inr r)
    obtain t s1 where r: "list_get p (int i) s = Inr (t, s1)" using Inr by (cases r) auto
    have g1: "reads s1 (xs ! i) t" "grows s s1" using list_get_view [OF v Suc.prems(1,2) i(1)] r by simp_all
    have w1: "grows s0 s1" "wf_rt s1" using Suc.prems(1,2) g1(2) by (auto intro: grows_trans grows_wf)
    have c: "case pr t s1 of Inl e \<Rightarrow> e = OutOfMemory | Inr (out, s2) \<Rightarrow> grows s1 s2"
      using i(1) ok by (intro endsD [OF pr w1 _ g1(1)]) simp
    show ?thesis
    proof (cases "pr t s1")
      case (Inl e)
      then show ?thesis using c r by simp
    next
      case (Inr r2)
      obtain out s2 where r2: "pr t s1 = Inr (out, s2)" using Inr by (cases r2) auto
      have g2: "grows s s2" using c r2 g1(2) by (auto intro: grows_trans)
      have w2: "grows s0 s2" "wf_rt s2" "Suc i + n = length xs" using Suc.prems g2 by (auto intro: grows_trans grows_wf)
      show ?thesis using Suc.IH [OF w2] r r2 int_inc_ok [OF i(2)] grows_trans [OF g2] by (auto split: sum.splits)
    qed
  qed
qed simp

lemma mapping_print_loop_ends:
  assumes prKey: "\<And>s k bs. str_rep s k bs \<Longrightarrow> \<exists>out. prKey k s = Inr (out, s)" and prVal: "ends s0 U prVal"
    and rep: "map_rep s0 m kts" and ok: "\<forall>kt \<in> set kts. view_ok s0 U (Inl (snd kt))" and sh: "int (length kts) \<le> INT_MAX"
    and g: "grows s0 s" and wf: "wf_rt s" and n: "i + n = length kts"
  shows "case mapping_print_loop prKey prVal m n (int i) s of Inl e \<Rightarrow> e = OutOfMemory | Inr (out, s1) \<Rightarrow> grows s s1"
  using g wf n
proof (induction n arbitrary: i s)
  case (Suc n)
  have i: "i < length kts" "int i < INT_MAX" using Suc.prems(3) sh by simp_all
  define f where "f = arr_list (mo_fArray m) ! i"
  note r0 = map_rep_grows [OF rep Suc.prems(1)]
  have bg: "block_get (arr_members (mo_fArray m)) (int i) = Inr f"
    unfolding f_def using block_get_arr_list [OF map_repD(1) [OF r0], of "int i"] map_repD(9) [OF r0] i by simp
  have key: "str_rep s (mf_key f) (fst (kts ! i))"
    using map_repD(3) [OF r0] i map_repD(8) [OF r0] by (simp add: f_def list_all2_conv_all_nth)
  have val: "mf_value f = snd (kts ! i)" using map_repD(4) [OF r0] map_repD(8) [OF r0] i by (metis f_def nth_map)
  obtain outKey where k: "prKey (mf_key f) s = Inr (outKey, s)" using prKey [OF key] by blast
  have c: "case prVal (mf_value f) s of Inl e \<Rightarrow> e = OutOfMemory | Inr (out, s2) \<Rightarrow> grows s s2"
    using i(1) ok val by (intro endsD [OF prVal Suc.prems(1,2), of "Inl (snd (kts ! i))"]) simp_all
  show ?case
  proof (cases "prVal (mf_value f) s")
    case (Inl e)
    then show ?thesis using c bg k by simp
  next
    case (Inr r2)
    obtain out s2 where r2: "prVal (mf_value f) s = Inr (out, s2)" using Inr by (cases r2) auto
    have g2: "grows s s2" using c r2 by simp
    have w2: "grows s0 s2" "wf_rt s2" "Suc i + n = length kts" using Suc.prems g2 by (auto intro: grows_trans grows_wf)
    show ?thesis using Suc.IH [OF w2] bg k r2 int_inc_ok [OF i(2)] grows_trans [OF g2] by (auto split: sum.splits)
  qed
qed simp

text \<open>One structure of a graph: it is on the stack, or its members are printed.\<close>

lemma print_list_ends:
  assumes rec: "t \<notin> set stack \<Longrightarrow> ends s0 U (\<lambda>v. printTaggedInner d lib v STYLE_INFORMAL (t # stack))"
    and v: "list_view s0 t xs" "\<forall>x \<in> set xs. view_ok s0 U x" and sh: "int (length xs) \<le> INT_MAX" and g: "grows s0 s" "wf_rt s"
  shows "case printTaggedInner (Suc d) lib t style stack s of Inl e \<Rightarrow> e = OutOfMemory | Inr (out, s1) \<Rightarrow> grows s s1"
proof -
  have tag: "utTag t = TAG_LIST" using list_view_getTag [OF v(1)] utTag_getTag [of t] by simp
  obtain lp where l: "list_at t s = Inr lp" "array_length (lo_array lp) = int (length xs)" using list_view_length [OF v(1) g(1)] by blast
  have n: "0 + nat (int (length xs)) = length xs" by simp
  show ?thesis
  proof (cases "t \<in> set stack")
    case False
    from list_print_loop_ends [OF rec [OF False] v sh g n, of True] show ?thesis using False tag l by (auto split: sum.splits)
  qed (use tag in simp)
qed

lemma print_mapping_ends:
  assumes rec: "t \<notin> set stack \<Longrightarrow> ends s0 U (\<lambda>v. printTaggedInner d lib v STYLE_INFORMAL (t # stack)) \<and> 0 < d"
    and v: "map_view s0 t kts" "\<forall>kt \<in> set kts. view_ok s0 U (Inl (snd kt))" and sh: "int (length kts) \<le> INT_MAX" and g: "grows s0 s" "wf_rt s"
  shows "case printTaggedInner (Suc d) lib t style stack s of Inl e \<Rightarrow> e = OutOfMemory | Inr (out, s1) \<Rightarrow> grows s s1"
proof -
  have tag: "utTag t = TAG_MAPPING" using map_view_getTag [OF v(1)] utTag_getTag [of t] by simp
  obtain m where m: "heap s0 (taggedToPtr t) = Some (ObjMapping m)" "map_rep s0 m kts" using v(1) by (auto simp: map_view_def)
  have at: "mapping_at t s = Inr m" using grows_heap [OF g(1) m(1)] by (simp add: mapping_at_def)
  have al: "arr_length (mo_fArray m) = int (length kts)" using map_repD(9) [OF m(2)] .
  have n: "0 + nat (int (length kts)) = length kts" by simp
  show ?thesis
  proof (cases "t \<in> set stack")
    case False
    then obtain d' where d': "d = Suc d'" using rec by (cases d) auto
    have key: "\<exists>out. printTaggedInner d lib k STYLE_INFORMAL [] s' = Inr (out, s')" if "str_rep s' k bs" for s' k bs
      unfolding d' using printTaggedInner_leaf [OF denotes.str [OF that]] by (simp add: leaf_def del: printTaggedInner.simps)
    have "case mapping_print_loop (\<lambda>k. printTaggedInner d lib k STYLE_INFORMAL []) (\<lambda>v. printTaggedInner d lib v STYLE_INFORMAL (t # stack))
        m (nat (int (length kts))) (int 0) s of Inl e \<Rightarrow> e = OutOfMemory | Inr (out, s1) \<Rightarrow> grows s s1"
      by (rule mapping_print_loop_ends [OF _ _ m(2) v(2) sh g n]) (use key rec False in blast)+
    then show ?thesis using tag at al False by (auto split: sum.splits)
  qed (use tag in simp)
qed

lemma printTaggedInner_ends:
  assumes U: "value_graph s0 U" "graph_short s0 U" and c: "card (U - set stack) < d"
  shows "ends s0 U (\<lambda>t. printTaggedInner d lib t style stack)"
  using c
proof (induction d arbitrary: stack style)
  case (Suc d)
  have fin: "finite U" using U(1) by (simp add: value_graph_def)
  have rec: "ends s0 U (\<lambda>v. printTaggedInner d lib v STYLE_INFORMAL (t # stack)) \<and> 0 < d" if "t \<in> U" "t \<notin> set stack" for t
  proof -
    have "card (U - set (t # stack)) < card (U - set stack)" using that fin by (intro psubset_card_mono) auto
    then show ?thesis using Suc.IH [of "t # stack"] Suc.prems by simp
  qed
  show ?case unfolding ends_def
  proof (intro allI impI)
    fix s x t
    assume g: "grows s0 s" "wf_rt s" and x: "view_ok s0 U x" and r: "reads s x t"
    from U(1) x show "case printTaggedInner (Suc d) lib t style stack s of Inl e \<Rightarrow> e = OutOfMemory | Inr (out, s1) \<Rightarrow> grows s s1"
    proof (cases rule: view_ok_cases)
      case (list u xs)
      have t: "u = t" using list(1) r by simp
      have "int (length xs) \<le> INT_MAX" using U(2) list(2,3) by (auto simp: graph_short_def)
      then show ?thesis using rec list(2,3) t by (intro print_list_ends [OF _ _ list(4) _ g]) auto
    next
      case (mapping u kts)
      have t: "u = t" using mapping(1) r by simp
      have "int (length kts) \<le> INT_MAX" using U(2) mapping(2,3) by (auto simp: graph_short_def)
      then show ?thesis using rec mapping(2,3) t by (intro print_mapping_ends [OF _ _ mapping(4) _ g]) auto
    next
      case (leaf v)
      have "denotes s t v" "Rt_Equality_Props.leaf v" using reads_leaf [OF leaf r g(1)] leaf by (auto, cases x, auto)
      then show ?thesis using printTaggedInner_leaf by (simp del: printTaggedInner.simps)
    qed
  qed
qed simp

section \<open>String literals\<close>

text \<open>Reading a string literal back, as the language defines its escapes: the content and the rest.\<close>

fun unescape :: "string \<Rightarrow> (string \<times> string) option" where
  "unescape [] = None"
| "unescape (c # cs) =
     (if c = CHR 0x22 then Some ([], cs)
      else if c = CHR 0x5C
      then (case cs of
              [] \<Rightarrow> None
            | e # ds \<Rightarrow>
                (case (if e = CHR ''n'' then Some (CHR 0x0A) else if e = CHR ''r'' then Some (CHR 0x0D)
                       else if e = CHR ''t'' then Some (CHR 0x09)
                       else if e = CHR 0x22 \<or> e = CHR 0x5C then Some e else None) of
                   None \<Rightarrow> None
                 | Some x \<Rightarrow> map_option (\<lambda>(t, rest). (x # t, rest)) (unescape ds)))
      else map_option (\<lambda>(t, rest). (c # t, rest)) (unescape cs))"

lemma unescape_quote: "unescape (tl (quote cs) @ rest) = Some (cs, rest)"
proof -
  have "unescape (concat (map printStringLiteralChar cs) @ CHR 0x22 # rest) = Some (cs, rest)"
    by (induction cs) (auto simp: printStringLiteralChar_def)
  then show ?thesis by (simp add: quote_def)
qed

end
