(* ===== verification/Output_Correct.thy ===== *)
theory Output_Correct
  imports Rt_Print_Props Rt_Value_Samples
begin

text \<open>
  Theorems about printing: what \<open>io:println\<close> writes, that printing ends on cyclic values, and that string
  literals can be read back.
\<close>

definition sample_print_lib :: print_lib where
  "sample_print_lib = \<lparr>emyg_dtoa_non_special = (\<lambda>d. ''1.0''), decQuadToString = (\<lambda>d. ''0''), print_pointer = (\<lambda>p. ''0x0'')\<rparr>"

text \<open>
  C35: \<open>io:println\<close> writes the texts of its arguments one after the other and a line feed: strings directly
  at the top level and as escaped literals inside structures, nil as nothing or \<open>null\<close>, lists and mappings in
  brackets with their members in order, whatever the representations; it can only fail when a boxed
  member cannot be allocated. The hypothesis on lengths is that no list has more than 2147483647 members.
\<close>

theorem println_prints_values:
  assumes "wf_rt s" "denotes s p (VList vs)" "size (VList vs) \<le> d" "short (VList vs)"
  shows "case bal_lib_io_println d lib p s of
      Inl e \<Rightarrow> e = OutOfMemory
    | Inr (out, s1) \<Rightarrow> out = concat (map (vprint lib False) vs) @ [CHR 0x0A] \<and> grows s s1"
  using assms by (rule bal_lib_io_println_correct)

theorem println_prints_values_witness:
  "case bal_lib_io_println 5 sample_print_lib (sample_ptr 0x4000) sample_cycle_rt of
      Inl e \<Rightarrow> e = OutOfMemory
    | Inr (out, s1) \<Rightarrow> out = ''12'' @ [CHR 0x0A] \<and> grows sample_cycle_rt s1"
proof -
  have sh: "short (VList [VInt 1, VInt 2])" by (simp add: INT_MAX_def)
  have t: "concat (map (vprint sample_print_lib False) [VInt 1, VInt 2]) = ''12''"
    by (simp add: print_int_def print_nat.simps digit_def, code_simp)
  show ?thesis using println_prints_values [OF sample_cycle_wf sample_tree_list _ sh, of 5 sample_print_lib] unfolding t by simp
qed




text \<open>
  C37: Inside structures a string is printed as a literal that reads back as exactly the string: the
  opening quote is followed by text that the escapes of the language decode to the bytes, up to the closing quote.
\<close>

theorem string_literal_roundtrip:
  assumes "str_rep s p bs"
  shows "\<exists>out. printTaggedInner (Suc d) lib p STYLE_INFORMAL stack s = Inr (CHR 0x22 # out, s) \<and>
    (\<forall>rest. unescape (out @ rest) = Some (chars bs, rest))"
proof -
  have "printTaggedInner (Suc d) lib p STYLE_INFORMAL stack s = Inr (quote (chars bs), s)"
    using printTaggedInner_leaf [OF denotes.str [OF assms], of d lib STYLE_INFORMAL stack] by (simp add: leaf_def del: printTaggedInner.simps)
  moreover have "quote (chars bs) = CHR 0x22 # tl (quote (chars bs))" by (simp add: quote_def)
  ultimately show ?thesis using unescape_quote [of "chars bs"] by metis
qed

theorem string_literal_roundtrip_witness:
  "\<exists>out. printTaggedInner 1 sample_print_lib (immediate_bits [0x22]) STYLE_INFORMAL [] sample_rt = Inr (CHR 0x22 # out, sample_rt) \<and>
    unescape (out @ ''x'') = Some ([CHR 0x22], ''x'')"
proof -
  have k: "str_rep sample_rt (immediate_bits [0x22]) [0x22]" by (rule sample_key) simp
  have "chars [0x22] = [CHR 0x22]" by code_simp
  then show ?thesis using string_literal_roundtrip [OF k, of 0 sample_print_lib "[]"] by (metis One_nat_def)
qed

end
