(* ===== verification/Rt_Decimal.thy ===== *)
theory Rt_Decimal
  imports Rt_Print
begin

text \<open>
  Numbers: the arithmetic of decimals (\<open>decimal.c\<close>), the conversions between the numeric types
  (\<open>convert.c\<close>, \<open>decimal.c\<close>, \<open>float_ll_inline.ll\<close>), \<open>int:toHexString\<close> (\<open>int.c\<close>), and the allocation of closures
  (\<open>function.c\<close>). The library decNumber, with the conversions of strings to doubles and back, is a
  parameter: each operation returns its result and the status flags it raises.
\<close>

section \<open>The library decNumber\<close>

record dec_lib = print_lib +
  decQuadAdd :: "decQuad \<Rightarrow> decQuad \<Rightarrow> decQuad \<times> u32"
  decQuadSubtract :: "decQuad \<Rightarrow> decQuad \<Rightarrow> decQuad \<times> u32"
  decQuadMultiply :: "decQuad \<Rightarrow> decQuad \<Rightarrow> decQuad \<times> u32"
  decQuadDivide :: "decQuad \<Rightarrow> decQuad \<Rightarrow> decQuad \<times> u32"
  decQuadRemainder :: "decQuad \<Rightarrow> decQuad \<Rightarrow> decQuad \<times> u32"
  decQuadQuantize :: "decQuad \<Rightarrow> decQuad \<Rightarrow> decQuad \<times> u32"
  decQuadReduce :: "decQuad \<Rightarrow> decQuad"
  decQuadCopyNegate :: "decQuad \<Rightarrow> decQuad"
  decQuadClass :: "decQuad \<Rightarrow> decClass"
  decQuadZero :: decQuad
  decQuadFromInt32 :: "int \<Rightarrow> decQuad"
  decQuadFromString :: "string \<Rightarrow> decQuad"
  strtod :: "string \<Rightarrow> u64"

text \<open>The status flags of \<open>decContext.h\<close>.\<close>

definition DEC_Division_by_zero :: u32 where "DEC_Division_by_zero = 0x2"
definition DEC_Invalid_operation :: u32 where "DEC_Invalid_operation = 0x80"
definition DEC_Overflow :: u32 where "DEC_Overflow = 0x200"
definition DEC_Underflow :: u32 where "DEC_Underflow = 0x2000"

text \<open>
  \<open>DEC_IEEE_754_Invalid_operation\<close>: conversion syntax, division impossible, division undefined,
  insufficient storage, invalid context, invalid operation.
\<close>

definition DEC_IEEE_754_Invalid_operation :: u32 where
  "DEC_IEEE_754_Invalid_operation = 0x1 OR 0x4 OR 0x8 OR 0x10 OR 0x40 OR DEC_Invalid_operation"

definition DECIMAL_STATUS_FAIL :: u32 where
  "DECIMAL_STATUS_FAIL = DEC_Division_by_zero OR DEC_IEEE_754_Invalid_operation OR DEC_Overflow OR DEC_Underflow"

section \<open>Arithmetic (decimal.c)\<close>

text \<open>\<open>TaggedPtrPanicCode\<close>: the panic code, and the pointer where it is set.\<close>

type_synonym tagged_panic_code = "nat \<times> tagged option"

definition panic_code_of :: "nat \<Rightarrow> rt \<Rightarrow> fault + tagged_panic_code \<times> rt" where
  "panic_code_of code s = Inr ((code, None), s)"

definition decimal_result :: "decQuad \<Rightarrow> rt \<Rightarrow> fault + tagged_panic_code \<times> rt" where
  "decimal_result dq s = bindR (createDecimal dq s) (\<lambda>(p, s1). Inr ((0, Some p), s1))"

definition finish :: "dec_lib \<Rightarrow> decQuad \<times> u32 \<Rightarrow> rt \<Rightarrow> fault + tagged_panic_code \<times> rt" where
  "finish lib r s =
     (let (dq, status) = r; cls = decQuadClass lib dq
      in if cls = DEC_CLASS_POS_ZERO \<or> cls = DEC_CLASS_NEG_ZERO \<or> cls = DEC_CLASS_POS_SUBNORMAL \<or> cls = DEC_CLASS_NEG_SUBNORMAL
         then decimal_result (decQuadZero lib) s
         else if status AND DECIMAL_STATUS_FAIL \<noteq> 0
         then (if status AND DEC_Division_by_zero \<noteq> 0 then panic_code_of PANIC_DIVIDE_BY_ZERO s
               else if status AND DEC_Overflow \<noteq> 0 then panic_code_of PANIC_ARITHMETIC_OVERFLOW s
               else if status AND DEC_Underflow \<noteq> 0 then decimal_result (decQuadZero lib) s
               else panic_code_of PANIC_INVALID_DECIMAL s)
         else decimal_result dq s)"

definition decimal_binary ::
  "dec_lib \<Rightarrow> (decQuad \<Rightarrow> decQuad \<Rightarrow> decQuad \<times> u32) \<Rightarrow> tagged \<Rightarrow> tagged \<Rightarrow> rt \<Rightarrow> fault + tagged_panic_code \<times> rt" where
  "decimal_binary lib op1 tp1 tp2 s =
     bindR (taggedToDecQuad tp1 s) (\<lambda>d1. bindR (taggedToDecQuad tp2 s) (\<lambda>d2. finish lib (op1 d1 d2) s))"

definition bal_decimal_add :: "dec_lib \<Rightarrow> tagged \<Rightarrow> tagged \<Rightarrow> rt \<Rightarrow> fault + tagged_panic_code \<times> rt" where
  "bal_decimal_add lib tp1 tp2 s = decimal_binary lib (decQuadAdd lib) tp1 tp2 s"

definition bal_decimal_sub :: "dec_lib \<Rightarrow> tagged \<Rightarrow> tagged \<Rightarrow> rt \<Rightarrow> fault + tagged_panic_code \<times> rt" where
  "bal_decimal_sub lib tp1 tp2 s = decimal_binary lib (decQuadSubtract lib) tp1 tp2 s"

definition bal_decimal_mul :: "dec_lib \<Rightarrow> tagged \<Rightarrow> tagged \<Rightarrow> rt \<Rightarrow> fault + tagged_panic_code \<times> rt" where
  "bal_decimal_mul lib tp1 tp2 s = decimal_binary lib (decQuadMultiply lib) tp1 tp2 s"

definition bal_decimal_div :: "dec_lib \<Rightarrow> tagged \<Rightarrow> tagged \<Rightarrow> rt \<Rightarrow> fault + tagged_panic_code \<times> rt" where
  "bal_decimal_div lib tp1 tp2 s = decimal_binary lib (decQuadDivide lib) tp1 tp2 s"

definition bal_decimal_rem :: "dec_lib \<Rightarrow> tagged \<Rightarrow> tagged \<Rightarrow> rt \<Rightarrow> fault + tagged_panic_code \<times> rt" where
  "bal_decimal_rem lib tp1 tp2 s = decimal_binary lib (decQuadRemainder lib) tp1 tp2 s"

definition bal_decimal_neg :: "dec_lib \<Rightarrow> tagged \<Rightarrow> rt \<Rightarrow> fault + tagged \<times> rt" where
  "bal_decimal_neg lib tp s =
     bindR (taggedToDecQuad tp s) (\<lambda>dq.
       if decQuadClass lib dq = DEC_CLASS_POS_ZERO then Inr (tp, s)
       else createDecimal (decQuadCopyNegate lib dq) s)"

section \<open>Doubles as numbers\<close>

text \<open>Sign, significand and exponent: a double stands for its significand times a power of two.\<close>

definition dbl_biased :: "u64 \<Rightarrow> nat" where
  "dbl_biased d = unat (drop_bit 52 d AND 0x7FF)"

definition dbl_fraction :: "u64 \<Rightarrow> nat" where
  "dbl_fraction d = unat (d AND 0xFFFFFFFFFFFFF)"

definition dbl_significand :: "u64 \<Rightarrow> nat" where
  "dbl_significand d = (if dbl_biased d = 0 then dbl_fraction d else dbl_fraction d + 2 ^ 52)"

definition dbl_exponent :: "u64 \<Rightarrow> int" where
  "dbl_exponent d = int (max 1 (dbl_biased d)) - 1075"

text \<open>Division by a power of two, rounded to the nearest, a tie to the even number.\<close>

definition round_shift :: "nat \<Rightarrow> nat \<Rightarrow> nat" where
  "round_shift m k =
     (let q = m div 2 ^ k; r = m mod 2 ^ k
      in if 2 * r < 2 ^ k then q else if 2 * r > 2 ^ k then q + 1 else if even q then q else q + 1)"

text \<open>\<open>llvm.lrint\<close> in the default rounding mode\<close>

definition dbl_lrint :: "u64 \<Rightarrow> int" where
  "dbl_lrint d =
     (let m = dbl_significand d; e = dbl_exponent d;
          n = (if e \<ge> 0 then m * 2 ^ nat e else round_shift m (nat (- e)))
      in if bit d 63 then - int n else int n)"

text \<open>The conversion of an \<open>int64_t\<close> to \<open>double\<close>\<close>

fun bit_length :: "nat \<Rightarrow> nat" where
  "bit_length m = (if m = 0 then 0 else Suc (bit_length (m div 2)))"

declare bit_length.simps [simp del]

definition int_to_dbl :: "int \<Rightarrow> u64" where
  "int_to_dbl n =
     (let m = nat \<bar>n\<bar>; e = bit_length m - 1;
          r = (if e \<le> 52 then m * 2 ^ (52 - e) else round_shift m (e - 52))
      in if m = 0 then 0
         else word_of_nat ((if n < 0 then 2 ^ 63 else 0) + (e + 1022) * 2 ^ 52 + r))"

section \<open>Conversions\<close>

text \<open>\<open>IntWithOverflow\<close> and \<open>TaggedWithOverflow\<close>: nothing on overflow.\<close>

definition bal_float_to_int :: "u64 \<Rightarrow> int option" where
  "bal_float_to_int d =
     (if dbl_isnan d \<or> dbl_lt d 0xC3E0000000000000 \<or> dbl_lt 0x43DFFFFFFFFFFFFF d then None else Some (dbl_lrint d))"

definition bal_decimal_to_float :: "dec_lib \<Rightarrow> tagged \<Rightarrow> rt \<Rightarrow> fault + u64" where
  "bal_decimal_to_float lib tp s = bindR (taggedToDecQuad tp s) (\<lambda>dq. Inr (strtod lib (decQuadToString lib dq)))"

definition bal_decimal_from_int :: "dec_lib \<Rightarrow> int \<Rightarrow> rt \<Rightarrow> fault + tagged \<times> rt" where
  "bal_decimal_from_int lib val s =
     createDecimal (if - (2 ^ 31) \<le> val \<and> val \<le> 2 ^ 31 - 1 then decQuadFromInt32 lib val
                    else decQuadFromString lib (print_int val)) s"

definition bal_decimal_from_float :: "dec_lib \<Rightarrow> u64 \<Rightarrow> rt \<Rightarrow> fault + tagged_panic_code \<times> rt" where
  "bal_decimal_from_float lib val s =
     (if dbl_isnan val then panic_code_of PANIC_INVALID_DECIMAL s
      else if dbl_isinf val then panic_code_of PANIC_ARITHMETIC_OVERFLOW s
      else if dbl_eq val 0 then decimal_result (decQuadZero lib) s
      else decimal_result (decQuadReduce lib (decQuadFromString lib (emyg_dtoa_non_special lib val))) s)"

text \<open>
  \<open>strtol(str, NULL, 0)\<close>: white space, a sign, and digits in the base that the prefix selects; nothing
  if the number is out of range (\<open>ERANGE\<close>).
\<close>

definition digit_in :: "nat \<Rightarrow> char \<Rightarrow> bool" where
  "digit_in base c \<longleftrightarrow>
     (is_digit c \<and> digit_value c < base) \<or> (base = 16 \<and> (of_char c :: nat) \<in> {65..70} \<union> {97..102})"

definition hex_value :: "char \<Rightarrow> nat" where
  "hex_value c = (if is_digit c then digit_value c else if (of_char c :: nat) \<ge> 97 then of_char c - 87 else of_char c - 55)"

definition digits_value :: "nat \<Rightarrow> string \<Rightarrow> int" where
  "digits_value base p = int (foldl (\<lambda>n c. base * n + hex_value c) 0 (takeWhile (digit_in base) p))"

definition strtol_digits :: "string \<Rightarrow> int" where
  "strtol_digits p =
     (case p of
        c # d # q \<Rightarrow> if c = CHR ''0'' \<and> (d = CHR ''x'' \<or> d = CHR ''X'') \<and> q \<noteq> [] \<and> digit_in 16 (hd q) then digits_value 16 q
                     else if c = CHR ''0'' then digits_value 8 p else digits_value 10 p
      | _ \<Rightarrow> digits_value 10 p)"

definition strtol0 :: "string \<Rightarrow> int option" where
  "strtol0 p =
     (let q = dropWhile is_space p;
          n = (if char_at q = CHR ''-'' then - strtol_digits (tl q)
               else if char_at q = CHR ''+'' then strtol_digits (tl q) else strtol_digits q)
      in if i64 n then Some n else None)"

definition bal_decimal_to_int :: "dec_lib \<Rightarrow> tagged \<Rightarrow> rt \<Rightarrow> fault + int option" where
  "bal_decimal_to_int lib tp s =
     bindR (taggedToDecQuad tp s) (\<lambda>dq.
       let (dQuantize, status) = decQuadQuantize lib dq (decQuadZero lib)
       in if status AND DEC_Invalid_operation \<noteq> 0 then Inr None
          else Inr (strtol0 (decQuadToString lib dQuantize)))"

definition bal_convert_to_float :: "dec_lib \<Rightarrow> tagged \<Rightarrow> rt \<Rightarrow> fault + tagged \<times> rt" where
  "bal_convert_to_float lib tp s =
     (let tag = utTag tp
      in if tag = TAG_INT then bindR (taggedToInt tp s) (\<lambda>n. floatToTagged (int_to_dbl n) s)
         else if tag = TAG_DECIMAL then bindR (bal_decimal_to_float lib tp s) (\<lambda>d. floatToTagged d s)
         else Inr (tp, s))"

definition bal_convert_to_int :: "dec_lib \<Rightarrow> tagged \<Rightarrow> rt \<Rightarrow> fault + tagged option \<times> rt" where
  "bal_convert_to_int lib tp s =
     (let tag = utTag tp
      in if tag = TAG_FLOAT \<or> tag = TAG_DECIMAL
         then bindR (if tag = TAG_FLOAT then bindR (taggedToFloat tp s) (\<lambda>d. Inr (bal_float_to_int d))
                     else bal_decimal_to_int lib tp s) (\<lambda>intRes.
                case intRes of
                  None \<Rightarrow> Inr (None, s)
                | Some n \<Rightarrow> bindR (intToTagged n s) (\<lambda>(p, s1). Inr (Some p, s1)))
         else Inr (Some tp, s))"

definition bal_convert_to_decimal :: "dec_lib \<Rightarrow> tagged \<Rightarrow> rt \<Rightarrow> fault + tagged_panic_code \<times> rt" where
  "bal_convert_to_decimal lib tp s =
     (let tag = utTag tp
      in if tag = TAG_INT
         then bindR (taggedToInt tp s) (\<lambda>n. bindR (bal_decimal_from_int lib n s) (\<lambda>(p, s1). Inr ((0, Some p), s1)))
         else if tag = TAG_FLOAT then bindR (taggedToFloat tp s) (\<lambda>d. bal_decimal_from_float lib d s)
         else Inr ((0, Some tp), s))"

section \<open>Hexadecimal strings (int.c)\<close>

definition hex_digit :: "nat \<Rightarrow> char" where
  "hex_digit n = char_of (if n mod 16 < 10 then 48 + n mod 16 else 87 + n mod 16)"

fun print_hex :: "nat \<Rightarrow> string" where
  "print_hex n = (if n < 16 then [hex_digit n] else print_hex (n div 16) @ [hex_digit n])"

declare print_hex.simps [simp del]

definition bal_lang_int_toHexString :: "int \<Rightarrow> rt \<Rightarrow> fault + tagged \<times> rt" where
  "bal_lang_int_toHexString i s =
     (let buf = (if i < 0 then CHR ''-'' # print_hex (unat (- (word_of_int i :: u64)))
                 else print_hex (unat (word_of_int i :: u64)));
          len = int (length buf)
      in bindR (bal_string_alloc len len s) (\<lambda>(result, s1). string_memcpy 0 (ascii buf) result s1))"

section \<open>Closures (function.c)\<close>

definition bal_function_alloc_closure_val :: "nat \<Rightarrow> rt \<Rightarrow> fault + u64 \<times> rt" where
  "bal_function_alloc_closure_val nValues s = bal_alloc (24 + 8 * int nValues) s"

definition bal_function_alloc_heap_capture :: "rt \<Rightarrow> fault + u64 \<times> rt" where
  "bal_function_alloc_heap_capture s = bal_alloc 8 s"

end
