(* ===== verification/Rt_Decimal_Props.thy ===== *)
theory Rt_Decimal_Props
  imports Rt_Decimal Rt_Value_Props Rt_Backtrace_Props Complex_Main
begin

text \<open>
  Properties of the numeric conversions: doubles as real numbers, rounding to the nearest integer, the
  text of integers, and the results of decimal operations.
\<close>

section \<open>The fields of a double\<close>

lemma unat_and_mask: "unat (w AND mask n :: 'a :: len word) = unat w mod 2 ^ n"
  by (simp flip: take_bit_eq_mask take_bit_eq_mod add: unsigned_take_bit_eq)

lemma masks: "(0x7FF :: u64) = mask 11" "(0xFFFFFFFFFFFFF :: u64) = mask 52" "(0x7FFFFFFFFFFFFFFF :: u64) = mask 63"
  by (simp_all add: mask_eq_exp_minus_1)

definition dbl_magnitude :: "u64 \<Rightarrow> nat" where
  "dbl_magnitude d = unat d mod 2 ^ 63"

lemma mod_mult_div: "0 < a \<Longrightarrow> (x mod (a * b)) div a = (x div a) mod (b :: nat)"
  by (simp add: mod_mult2_eq)

lemma dbl_fields: "dbl_biased d = dbl_magnitude d div 2 ^ 52" "dbl_fraction d = dbl_magnitude d mod 2 ^ 52"
proof -
  have "dbl_biased d = (unat d div 2 ^ 52) mod 2 ^ 11"
    unfolding dbl_biased_def masks unat_and_mask by (simp add: unat_div drop_bit_eq_div)
  also have "\<dots> = (unat d mod (2 ^ 52 * 2 ^ 11)) div 2 ^ 52" by (rule mod_mult_div [symmetric]) simp
  finally show "dbl_biased d = dbl_magnitude d div 2 ^ 52" by (simp add: dbl_magnitude_def)
  have "dbl_fraction d = unat d mod 2 ^ 52" unfolding dbl_fraction_def masks unat_and_mask ..
  also have "\<dots> = (unat d mod (2 ^ 52 * 2 ^ 11)) mod 2 ^ 52" by (rule mod_mod_cancel [symmetric]) simp
  finally show "dbl_fraction d = dbl_magnitude d mod 2 ^ 52" by (simp add: dbl_magnitude_def)
qed

lemma dbl_key_magnitude: "dbl_key d = (if bit d 63 then - int (dbl_magnitude d) else int (dbl_magnitude d))"
proof -
  have "uint (d AND 0x7FFFFFFFFFFFFFFF) = int (dbl_magnitude d)"
    unfolding masks dbl_magnitude_def uint_nat unat_and_mask ..
  then show ?thesis by (simp add: dbl_key_def)
qed

lemma dbl_isnan_magnitude: "dbl_isnan d \<longleftrightarrow> 0x7FF0000000000000 < dbl_magnitude d"
  unfolding dbl_isnan_def masks word_less_nat_alt unat_and_mask by (simp add: dbl_magnitude_def)

lemma dbl_magnitude_split: "dbl_magnitude d = dbl_biased d * 2 ^ 52 + dbl_fraction d" "dbl_fraction d < 2 ^ 52"
  unfolding dbl_fields by (rule div_mult_mod_eq [symmetric]) simp

lemma dbl_significand_less: "dbl_significand d < 2 ^ 53"
  using dbl_magnitude_split(2) [of d] by (auto simp: dbl_significand_def)

text \<open>A double with given fields.\<close>

lemma dbl_of_fields:
  fixes neg :: bool and b f :: nat
  assumes "b < 2048" "f < 2 ^ 52"
  defines "d \<equiv> word_of_nat ((if neg then 2 ^ 63 else 0) + b * 2 ^ 52 + f) :: u64"
  shows "dbl_biased d = b" "dbl_fraction d = f" "bit d 63 \<longleftrightarrow> neg"
proof -
  let ?W = "(if neg then 2 ^ 63 else 0) + b * 2 ^ 52 + f :: nat"
  have bf: "b * 2 ^ 52 + f < 2 ^ 63" using assms(1,2) by simp
  then have W: "?W < 2 ^ LENGTH(64)" by simp
  then have u: "unat d = ?W" unfolding d_def by (simp only: unsigned_of_nat take_bit_nat_eq_self of_nat_id)
  have m: "dbl_magnitude d = b * 2 ^ 52 + f" using bf unfolding dbl_magnitude_def u add.assoc by (cases neg) simp_all
  show "dbl_biased d = b" "dbl_fraction d = f" unfolding dbl_fields m using assms(2) by simp_all
  have "bit d 63 \<longleftrightarrow> bit (unat d) 63" by (simp add: bit_unsigned_iff)
  also have "\<dots> \<longleftrightarrow> odd (?W div 2 ^ 63)" unfolding u bit_iff_odd ..
  also have "?W div 2 ^ 63 = (if neg then 1 else 0)" using bf unfolding add.assoc by (cases neg) simp_all
  finally show "bit d 63 \<longleftrightarrow> neg" by simp
qed

section \<open>Rounding\<close>

lemma round_shift_near:
  shows "\<bar>real m / 2 ^ k - real (round_shift m k)\<bar> \<le> 1 / 2"
    and "\<bar>real m / 2 ^ k - real (round_shift m k)\<bar> = 1 / 2 \<Longrightarrow> even (round_shift m k)"
proof -
  define q r where "q = m div 2 ^ k" and "r = m mod 2 ^ k"
  have r: "r < 2 ^ k" by (simp add: r_def)
  have m: "m = q * 2 ^ k + r" unfolding q_def r_def by (rule div_mult_mod_eq [symmetric])
  have v: "real m / 2 ^ k - real q = real r / 2 ^ k" unfolding m by (simp add: field_simps)
  consider "2 * r < 2 ^ k" | "2 * r > 2 ^ k" | "2 * r = 2 ^ k" by linarith
  then have "\<bar>real m / 2 ^ k - real (round_shift m k)\<bar> \<le> 1 / 2 \<and>
    (\<bar>real m / 2 ^ k - real (round_shift m k)\<bar> = 1 / 2 \<longrightarrow> even (round_shift m k))"
  proof cases
    case 1
    then have "real (2 * r) < real (2 ^ k)" unfolding of_nat_less_iff .
    then have "real r / 2 ^ k < 1 / 2" by (simp add: field_simps)
    moreover have "round_shift m k = q" using 1 by (simp add: round_shift_def q_def r_def)
    ultimately show ?thesis using v by simp
  next
    case 2
    then have "real (2 ^ k) < real (2 * r)" unfolding of_nat_less_iff .
    then have a: "real r / 2 ^ k > 1 / 2" by (simp add: field_simps)
    have "real r < real (2 ^ k)" using r unfolding of_nat_less_iff .
    then have b: "real r / 2 ^ k < 1" by simp
    have "round_shift m k = q + 1" using 2 by (simp add: round_shift_def q_def r_def)
    then have "real m / 2 ^ k - real (round_shift m k) = real r / 2 ^ k - 1" using v by simp
    then have "\<bar>real m / 2 ^ k - real (round_shift m k)\<bar> < 1 / 2" using a b unfolding abs_less_iff by linarith
    then show ?thesis by simp
  next
    case 3
    then have "real (2 * r) = real (2 ^ k)" unfolding of_nat_eq_iff .
    then have a: "real r / 2 ^ k = 1 / 2" by (simp add: field_simps)
    have "round_shift m k = (if even q then q else q + 1)" using 3 by (simp add: round_shift_def q_def r_def)
    then show ?thesis using v a by auto
  qed
  then show "\<bar>real m / 2 ^ k - real (round_shift m k)\<bar> \<le> 1 / 2"
    "\<bar>real m / 2 ^ k - real (round_shift m k)\<bar> = 1 / 2 \<Longrightarrow> even (round_shift m k)" by simp_all
qed

lemma round_shift_exact: "round_shift (m * 2 ^ k) k = m"
  by (simp add: round_shift_def)

lemma round_shift_le: "round_shift m k \<le> m div 2 ^ k + 1"
  by (simp add: round_shift_def Let_def)

section \<open>Doubles as real numbers\<close>

definition dbl_value :: "u64 \<Rightarrow> real" where
  "dbl_value d = (if bit d 63 then - 1 else 1) * real (dbl_significand d) * 2 powi dbl_exponent d"

lemma dbl_lrint_near:
  shows "\<bar>dbl_value d - real_of_int (dbl_lrint d)\<bar> \<le> 1 / 2"
    and "\<bar>dbl_value d - real_of_int (dbl_lrint d)\<bar> = 1 / 2 \<Longrightarrow> even (dbl_lrint d)"
proof -
  define m e where "m = dbl_significand d" and "e = dbl_exponent d"
  define n where "n = (if e \<ge> 0 then m * 2 ^ nat e else round_shift m (nat (- e)))"
  have l: "dbl_lrint d = (if bit d 63 then - int n else int n)" by (simp add: dbl_lrint_def m_def e_def n_def Let_def)
  have v: "dbl_value d = (if bit d 63 then - 1 else 1) * (real m * 2 powi e)" by (simp add: dbl_value_def m_def e_def)
  have n: "\<bar>real m * 2 powi e - real n\<bar> \<le> 1 / 2 \<and> (\<bar>real m * 2 powi e - real n\<bar> = 1 / 2 \<longrightarrow> even n)"
  proof (cases "e \<ge> 0")
    case True
    then show ?thesis by (simp add: n_def power_int_def)
  next
    case False
    then have "real m * 2 powi e = real m / 2 ^ nat (- e)" by (simp add: power_int_def field_simps)
    then show ?thesis using False round_shift_near [of m "nat (- e)"] by (simp add: n_def)
  qed
  have "\<bar>dbl_value d - real_of_int (dbl_lrint d)\<bar> = \<bar>real m * 2 powi e - real n\<bar>" unfolding l v by (auto simp: abs_minus_commute)
  then show "\<bar>dbl_value d - real_of_int (dbl_lrint d)\<bar> \<le> 1 / 2"
    "\<bar>dbl_value d - real_of_int (dbl_lrint d)\<bar> = 1 / 2 \<Longrightarrow> even (dbl_lrint d)" using n unfolding l by auto
qed

text \<open>The two thresholds of \<open>_bal_float_to_int\<close>: \<open>2\<^sup>6\<^sup>3\<close> is the double with exponent 0x43E and no fraction.\<close>

lemma threshold_keys: "dbl_key 0xC3E0000000000000 = - 0x43E0000000000000" "dbl_key 0x43DFFFFFFFFFFFFF = 0x43DFFFFFFFFFFFFF"
  "\<not> dbl_isnan 0xC3E0000000000000" "\<not> dbl_isnan 0x43DFFFFFFFFFFFFF"
  by code_simp+

lemma bal_float_to_int_cases:
  "bal_float_to_int d = (if dbl_isnan d \<or> (if bit d 63 then 0x43E0000000000000 < dbl_magnitude d else 0x43E0000000000000 \<le> dbl_magnitude d)
     then None else Some (dbl_lrint d))"
  using threshold_keys(3,4) unfolding bal_float_to_int_def dbl_lt_def threshold_keys(1,2) dbl_key_magnitude [of d] by auto

lemma large_exponent: "0x43E0000000000000 \<le> dbl_magnitude d \<Longrightarrow> 0x43E \<le> dbl_biased d"
  using div_le_mono [of "0x43E0000000000000" "dbl_magnitude d" "2 ^ 52"] unfolding dbl_fields by simp

lemma small_exponent: "dbl_magnitude d < 0x43E0000000000000 \<Longrightarrow> dbl_biased d \<le> 0x43D"
  unfolding dbl_fields by (simp add: less_mult_imp_div_less less_Suc_eq_le [symmetric])

lemma significand_large: "0x43E \<le> dbl_biased d \<Longrightarrow> dbl_significand d = dbl_fraction d + 2 ^ 52"
  by (simp add: dbl_significand_def)

lemma value_large: "0x43E \<le> dbl_biased d \<Longrightarrow> real (dbl_significand d) * 2 powi dbl_exponent d = real (dbl_significand d) * 2 ^ (dbl_biased d - 1075)"
proof -
  assume a: "0x43E \<le> dbl_biased d"
  then have "dbl_exponent d = int (dbl_biased d - 1075)" by (simp add: dbl_exponent_def max_def)
  then show ?thesis by simp
qed

lemma value_ge:
  assumes "0x43E \<le> dbl_biased d"
  shows "2 ^ 63 \<le> real (dbl_significand d) * 2 powi dbl_exponent d"
proof -
  have "(2 :: nat) ^ 11 \<le> 2 ^ (dbl_biased d - 1075)" using assms by (intro power_increasing) simp_all
  then have "2 ^ 52 * 2 ^ 11 \<le> dbl_significand d * 2 ^ (dbl_biased d - 1075)"
    using significand_large [OF assms] by (intro mult_le_mono) simp_all
  then have "real (2 ^ 52 * 2 ^ 11) \<le> real (dbl_significand d * 2 ^ (dbl_biased d - 1075))" unfolding of_nat_le_iff .
  then show ?thesis unfolding value_large [OF assms] by simp
qed

lemma value_less:
  assumes "dbl_biased d \<le> 0x43D"
  shows "real (dbl_significand d) * 2 powi dbl_exponent d < 2 ^ 63"
proof -
  have "dbl_exponent d \<le> 10" using assms by (simp add: dbl_exponent_def max_def)
  then have "(2 :: real) powi dbl_exponent d \<le> 2 powi 10" by (intro power_int_increasing) simp_all
  then have "real (dbl_significand d) * 2 powi dbl_exponent d \<le> real (dbl_significand d) * 2 ^ 10" by (intro mult_left_mono) (simp_all add: power_int_def)
  also have "\<dots> < 2 ^ 53 * 2 ^ 10"
  proof -
    have "real (dbl_significand d) < real (2 ^ 53)" using dbl_significand_less [of d] unfolding of_nat_less_iff .
    then show ?thesis by (intro mult_strict_right_mono) simp_all
  qed
  finally show ?thesis by simp
qed

text \<open>The one negative double on the boundary.\<close>

lemma magnitude_boundary:
  assumes "dbl_magnitude d = 0x43E0000000000000"
  shows "real (dbl_significand d) * 2 powi dbl_exponent d = 2 ^ 63"
proof -
  have "dbl_biased d = 0x43E" "dbl_fraction d = 0" unfolding dbl_fields assms by simp_all
  then show ?thesis using value_large [of d] by (simp add: dbl_significand_def)
qed

lemma value_gt:
  assumes "0x43E0000000000000 < dbl_magnitude d"
  shows "2 ^ 63 < real (dbl_significand d) * 2 powi dbl_exponent d"
proof -
  have b: "0x43E \<le> dbl_biased d" using assms by (intro large_exponent) simp
  have s: "dbl_magnitude d = dbl_biased d * 2 ^ 52 + dbl_fraction d" by (rule dbl_magnitude_split)
  have "2 ^ 63 < dbl_significand d * 2 ^ (dbl_biased d - 1075)"
  proof (cases "dbl_biased d = 0x43E")
    case True
    then have "0 < dbl_fraction d" using assms s by simp
    then show ?thesis using True significand_large [OF b] by simp
  next
    case False
    then have "(2 :: nat) ^ 12 \<le> 2 ^ (dbl_biased d - 1075)" using b by (intro power_increasing) simp_all
    then have "2 ^ 52 * 2 ^ 12 \<le> dbl_significand d * 2 ^ (dbl_biased d - 1075)"
      using significand_large [OF b] by (intro mult_le_mono) simp_all
    then show ?thesis by simp
  qed
  then have "real (2 ^ 63) < real (dbl_significand d * 2 ^ (dbl_biased d - 1075))" unfolding of_nat_less_iff .
  then show ?thesis unfolding value_large [OF b] by simp
qed

lemma float_to_int_none:
  assumes "bal_float_to_int d = None" "\<not> dbl_isnan d"
  shows "dbl_value d < - (2 ^ 63) \<or> 2 ^ 63 \<le> dbl_value d"
  using assms value_gt [of d] value_ge [OF large_exponent, of d]
  by (cases "bit d 63") (auto simp: bal_float_to_int_cases dbl_value_def split: if_splits)

lemma float_to_int_range:
  assumes "bal_float_to_int d = Some n"
  shows "- (2 ^ 63) \<le> dbl_value d \<and> dbl_value d < 2 ^ 63"
proof -
  have nn: "\<not> dbl_isnan d" "if bit d 63 then dbl_magnitude d \<le> 0x43E0000000000000 else dbl_magnitude d < 0x43E0000000000000"
    using assms by (auto simp: bal_float_to_int_cases split: if_splits)
  have pos: "0 \<le> real (dbl_significand d) * 2 powi dbl_exponent d" by simp
  show ?thesis
  proof (cases "dbl_magnitude d = 0x43E0000000000000")
    case True
    then show ?thesis using nn(2) magnitude_boundary [OF True] by (auto simp: dbl_value_def split: if_splits)
  next
    case False
    then have "dbl_magnitude d < 0x43E0000000000000" using nn(2) by (auto split: if_splits)
    then have "real (dbl_significand d) * 2 powi dbl_exponent d < 2 ^ 63" by (intro value_less small_exponent)
    moreover have "dbl_value d = real (dbl_significand d) * 2 powi dbl_exponent d \<or> dbl_value d = - (real (dbl_significand d) * 2 powi dbl_exponent d)"
      by (simp add: dbl_value_def)
    ultimately show ?thesis using pos by linarith
  qed
qed

lemma lrint_range:
  assumes "bal_float_to_int d = Some n"
  shows "i64 n"
proof -
  have n: "n = dbl_lrint d" using assms by (auto simp: bal_float_to_int_cases split: if_splits)
  define m e where "m = dbl_significand d" and "e = dbl_exponent d"
  have m: "m < 2 ^ 53" unfolding m_def by (rule dbl_significand_less)
  note v = float_to_int_range [OF assms]
  show ?thesis
  proof (cases "e \<ge> 0")
    case True
    then have "real_of_int (dbl_lrint d) = dbl_value d" by (simp add: dbl_lrint_def dbl_value_def m_def e_def Let_def power_int_def)
    then have "real_of_int (- (2 ^ 63)) \<le> real_of_int n" "real_of_int n < real_of_int (2 ^ 63)" using v n by simp_all
    then have "- (2 ^ 63) \<le> n" "n < 2 ^ 63" unfolding of_int_le_iff of_int_less_iff .
    then show ?thesis by (simp add: i64_def)
  next
    case False
    have "round_shift m (nat (- e)) \<le> m div 2 ^ nat (- e) + 1" by (rule round_shift_le)
    also have "\<dots> \<le> m + 1" by simp
    also have "\<dots> \<le> 2 ^ 53" using m by simp
    finally have "int (round_shift m (nat (- e))) \<le> 2 ^ 53" by simp
    then show ?thesis using False n by (simp add: dbl_lrint_def m_def e_def Let_def i64_def)
  qed
qed

section \<open>Integers as doubles\<close>

lemma bit_length_bounds: "0 < m \<Longrightarrow> 2 ^ (bit_length m - 1) \<le> m \<and> m < 2 ^ bit_length m \<and> 0 < bit_length m"
proof (induction m rule: bit_length.induct)
  case (1 m)
  show ?case
  proof (cases "m div 2 = 0")
    case True
    then have "m = 1" using 1(2) by simp
    then show ?thesis by (simp add: bit_length.simps)
  next
    case False
    then have h: "2 ^ (bit_length (m div 2) - 1) \<le> m div 2" "m div 2 < 2 ^ bit_length (m div 2)" "0 < bit_length (m div 2)" using 1 by auto
    have l: "bit_length m = Suc (bit_length (m div 2))" using 1(2) by (subst bit_length.simps) simp
    obtain k where k: "bit_length (m div 2) = Suc k" using h(3) by (cases "bit_length (m div 2)") auto
    show ?thesis using h unfolding l k by auto
  qed
qed

text \<open>A normal double built from an exponent and a significand.\<close>

lemma dbl_normal:
  fixes neg :: bool and e r :: nat and d :: u64
  assumes e: "e \<le> 53" and r: "2 ^ 52 \<le> r" "r < 2 ^ 53"
  defines "d \<equiv> word_of_nat ((if neg then 2 ^ 63 else 0) + (e + 1022) * 2 ^ 52 + r) :: u64"
  shows "dbl_significand d = r" "dbl_exponent d = int e - 52" "bit d 63 \<longleftrightarrow> neg" "dbl_magnitude d < 0x43E0000000000000"
proof -
  have "(if neg then 2 ^ 63 else 0) + (e + 1022) * 2 ^ 52 + r = (if neg then 2 ^ 63 else 0) + (e + 1023) * 2 ^ 52 + (r - 2 ^ 52)"
    using r(1) by simp
  then have d: "d = word_of_nat ((if neg then 2 ^ 63 else 0) + (e + 1023) * 2 ^ 52 + (r - 2 ^ 52))" unfolding d_def by simp
  have b: "e + 1023 < 2048" "r - 2 ^ 52 < 2 ^ 52" using e r by simp_all
  note f = dbl_of_fields [OF b, of neg, folded d]
  show "dbl_significand d = r" using f(1,2) r(1) by (simp add: dbl_significand_def)
  show "dbl_exponent d = int e - 52" using f(1) by (simp add: dbl_exponent_def max_def)
  show "bit d 63 \<longleftrightarrow> neg" by (rule f(3))
  have "dbl_magnitude d = (e + 1023) * 2 ^ 52 + (r - 2 ^ 52)" using dbl_magnitude_split(1) [of d] f by simp
  also have "\<dots> < 0x43E0000000000000" using e r by simp
  finally show "dbl_magnitude d < 0x43E0000000000000" .
qed

text \<open>An integer of at most 53 bits is converted exactly, and converts back.\<close>

lemma int_to_dbl_exact:
  assumes "\<bar>n\<bar> \<le> 2 ^ 53"
  shows "bal_float_to_int (int_to_dbl n) = Some n"
proof (cases "n = 0")
  case True
  have "dbl_magnitude 0 = 0" by (simp add: dbl_magnitude_def)
  then have "bal_float_to_int 0 = Some (dbl_lrint 0)" by (simp add: bal_float_to_int_cases dbl_isnan_magnitude)
  moreover have "dbl_lrint 0 = 0" by (simp add: dbl_lrint_def dbl_significand_def dbl_biased_def dbl_fraction_def round_shift_def Let_def)
  ultimately show ?thesis using True by (simp add: int_to_dbl_def)
next
  case False
  define m where "m = nat \<bar>n\<bar>"
  define e where "e = bit_length m - 1"
  define r where "r = (if e \<le> 52 then m * 2 ^ (52 - e) else round_shift m (e - 52))"
  have m: "0 < m" "m \<le> 2 ^ 53" using assms False by (simp_all add: m_def)
  have n: "n = (if n < 0 then - int m else int m)" by (simp add: m_def)
  have b: "2 ^ e \<le> m" "m < 2 ^ Suc e" using bit_length_bounds [OF m(1)] by (auto simp: e_def)
  have "(2 :: nat) ^ e \<le> 2 ^ 53" using b(1) m(2) by linarith
  then have e: "e \<le> 53" by (rule power_le_imp_le_exp [rotated]) simp
  have dd: "int_to_dbl n = word_of_nat ((if n < 0 then 2 ^ 63 else 0) + (e + 1022) * 2 ^ 52 + r)"
    using m(1) unfolding int_to_dbl_def r_def e_def m_def Let_def by - (rule if_not_P, simp)
  have r: "2 ^ 52 \<le> r \<and> r < 2 ^ 53 \<and> (if int e - 52 \<ge> 0 then r * 2 ^ nat (int e - 52) else round_shift r (nat (- (int e - 52)))) = m"
  proof (cases "e \<le> 52")
    case True
    have "2 ^ e * 2 ^ (52 - e) \<le> r" unfolding r_def using b(1) True by simp
    moreover have "r < 2 ^ Suc e * 2 ^ (52 - e)" unfolding r_def using b(2) True by simp
    moreover have "e + (52 - e) = 52" "Suc e + (52 - e) = 53" using True by simp_all
    ultimately have "2 ^ 52 \<le> r" "r < 2 ^ 53" by (simp_all only: power_add [symmetric])
    moreover have "nat (- (int e - 52)) = 52 - e" by simp
    ultimately show ?thesis using True round_shift_exact [of m "52 - e"] by (auto simp: r_def)
  next
    case False
    then have "e = 53" using e by simp
    then have "m = 2 ^ 53" using b(1) m(2) by simp
    then show ?thesis using \<open>e = 53\<close> round_shift_exact [of "2 ^ 52" 1] by (simp add: r_def)
  qed
  have r12: "2 ^ 52 \<le> r" "r < 2 ^ 53" using r by simp_all
  note f = dbl_normal [OF e r12, of "n < 0", folded dd]
  have "dbl_lrint (int_to_dbl n) = (if n < 0 then - int m else int m)"
    unfolding dbl_lrint_def Let_def f(1,2,3) using r by simp
  then show ?thesis using n f(4) unfolding bal_float_to_int_cases dbl_isnan_magnitude by simp
qed

end
