(* ===== verification/Rt_Number_Props.thy ===== *)
theory Rt_Number_Props
  imports Rt_Decimal_Props
begin

text \<open>
  Properties of decimals and of the texts of numbers: the invariant of decimal values and that every
  decimal operation keeps it, integers converted to decimals and back, and hexadecimal texts.
\<close>

section \<open>Boxed decimals\<close>

lemma createDecimal_rep:
  assumes "wf_rt s"
  shows "case createDecimal x s of Inl e \<Rightarrow> e = OutOfMemory | Inr (p, s1) \<Rightarrow> denotes s1 p (VDec x) \<and> grows s s1"
  using createDecimal_new [OF assms, of x] by (auto intro: denotes.dec split: sum.splits)

section \<open>The decimal values of the language\<close>

text \<open>A decimal value is zero, with a positive sign, or a normal number: never infinite, \<open>NaN\<close>, negative zero or subnormal.\<close>

definition decimal_value :: "dec_lib \<Rightarrow> decQuad \<Rightarrow> bool" where
  "decimal_value lib x \<longleftrightarrow> decQuadClass lib x \<in> {DEC_CLASS_POS_ZERO, DEC_CLASS_POS_NORMAL, DEC_CLASS_NEG_NORMAL}"

text \<open>
  What decNumber documents of an operation: a result that is infinite or \<open>NaN\<close>, for finite operands, comes
  with a flag of \<open>DEC_Errors\<close>; and zero is zero.
\<close>

definition signals :: "dec_lib \<Rightarrow> (decQuad \<Rightarrow> decQuad \<Rightarrow> decQuad \<times> u32) \<Rightarrow> bool" where
  "signals lib f \<longleftrightarrow>
     (\<forall>x y. decimal_value lib x \<and> decimal_value lib y \<and> snd (f x y) AND DECIMAL_STATUS_FAIL = 0 \<longrightarrow>
        decQuadClass lib (fst (f x y)) \<notin>
          {DEC_CLASS_SNAN, DEC_CLASS_QNAN, DEC_CLASS_POS_INF, DEC_CLASS_NEG_INF})"

definition zero_class :: "dec_lib \<Rightarrow> bool" where
  "zero_class lib \<longleftrightarrow> decQuadClass lib (decQuadZero lib) = DEC_CLASS_POS_ZERO"

definition tiny :: "decClass \<Rightarrow> bool" where
  "tiny c \<longleftrightarrow> c \<in> {DEC_CLASS_POS_ZERO, DEC_CLASS_NEG_ZERO, DEC_CLASS_POS_SUBNORMAL, DEC_CLASS_NEG_SUBNORMAL}"

text \<open>The outcome that the language prescribes: a panic code, or the decimal.\<close>

definition decimal_outcome :: "dec_lib \<Rightarrow> decQuad \<times> u32 \<Rightarrow> nat + decQuad" where
  "decimal_outcome lib r =
     (if tiny (decQuadClass lib (fst r)) then Inr (decQuadZero lib)
      else if snd r AND DECIMAL_STATUS_FAIL = 0 then Inr (fst r)
      else if snd r AND DEC_Division_by_zero \<noteq> 0 then Inl PANIC_DIVIDE_BY_ZERO
      else if snd r AND DEC_Overflow \<noteq> 0 then Inl PANIC_ARITHMETIC_OVERFLOW
      else if snd r AND DEC_Underflow \<noteq> 0 then Inr (decQuadZero lib)
      else Inl PANIC_INVALID_DECIMAL)"

definition has_outcome :: "rt \<Rightarrow> nat + decQuad \<Rightarrow> fault + tagged_panic_code \<times> rt \<Rightarrow> bool" where
  "has_outcome s o1 r \<longleftrightarrow>
     (case o1 of
        Inl c \<Rightarrow> r = Inr ((c, None), s)
      | Inr x \<Rightarrow> (case r of
            Inl e \<Rightarrow> e = OutOfMemory
          | Inr ((c, q), s1) \<Rightarrow> c = 0 \<and> (\<exists>p. q = Some p \<and> denotes s1 p (VDec x)) \<and> grows s s1))"

lemma decimal_result_outcome: "wf_rt s \<Longrightarrow> has_outcome s (Inr x) (decimal_result x s)"
  using createDecimal_rep [of s x] by (auto simp: has_outcome_def decimal_result_def split: sum.splits prod.splits)

lemma finish_outcome: "wf_rt s \<Longrightarrow> has_outcome s (decimal_outcome lib r) (finish lib r s)"
  using decimal_result_outcome
  by (cases r) (auto simp: finish_def decimal_outcome_def tiny_def panic_code_of_def has_outcome_def Let_def)

lemma decimal_binary_outcome:
  assumes "wf_rt s" "denotes s p1 (VDec x)" "denotes s p2 (VDec y)"
  shows "has_outcome s (decimal_outcome lib (f x y)) (decimal_binary lib f p1 p2 s)"
  using finish_outcome [OF assms(1)] by (simp add: decimal_binary_def taggedToDecQuad_denotes [OF assms(2)] taggedToDecQuad_denotes [OF assms(3)])

lemma decClass_normal: "\<not> tiny c \<Longrightarrow> c \<notin> {DEC_CLASS_SNAN, DEC_CLASS_QNAN, DEC_CLASS_POS_INF, DEC_CLASS_NEG_INF} \<Longrightarrow>
    c \<in> {DEC_CLASS_POS_ZERO, DEC_CLASS_POS_NORMAL, DEC_CLASS_NEG_NORMAL}"
  by (cases c) (simp_all add: tiny_def)

lemma decimal_outcome_value:
  assumes "zero_class lib" "signals lib f" "decimal_value lib x" "decimal_value lib y" "decimal_outcome lib (f x y) = Inr z"
  shows "decimal_value lib z"
proof -
  have z: "decimal_value lib (decQuadZero lib)" using assms(1) by (simp add: zero_class_def decimal_value_def)
  have n: "decimal_value lib (fst (f x y))" if "\<not> tiny (decQuadClass lib (fst (f x y)))" "snd (f x y) AND DECIMAL_STATUS_FAIL = 0"
    using assms(2-4) that decClass_normal [OF that(1)] unfolding signals_def decimal_value_def [of lib "fst (f x y)"] by blast
  show ?thesis using assms(5) z n unfolding decimal_outcome_def by (auto split: if_splits)
qed

section \<open>The text of an integer, read by strtol\<close>

lemma digit_in_10: "digit_in 10 c \<longleftrightarrow> is_digit c"
  by (auto simp: digit_in_def is_digit_def digit_value_def)

lemma hex_value_digit: "is_digit c \<Longrightarrow> hex_value c = digit_value c"
  by (simp add: hex_value_def)

lemma foldl_hex_value: "list_all is_digit ds \<Longrightarrow> foldl (\<lambda>n c. 10 * n + hex_value c) k ds = foldl (\<lambda>n c. 10 * n + digit_value c) k ds"
  by (induction ds arbitrary: k) (simp_all add: hex_value_digit)

lemma digits_value_all: "list_all (digit_in b) ds \<Longrightarrow> digits_value b ds = int (foldl (\<lambda>n c. b * n + hex_value c) 0 ds)"
  by (simp add: digits_value_def list_all_iff takeWhile_eq_all_conv [THEN iffD2])

lemma digits_value_print_nat: "digits_value 10 (print_nat n) = int n"
proof -
  have "list_all (digit_in 10) (print_nat n)" using print_nat_digits(2) [of n] by (simp add: digit_in_10 list_all_iff)
  then show ?thesis using foldl_hex_value [OF print_nat_digits(2), of 0 n] foldl_print_nat [of n] by (simp add: digits_value_all)
qed

lemma strtol_digits_print_nat: "strtol_digits (print_nat n) = int n"
proof (cases "n = 0")
  case True
  then show ?thesis using digits_value_print_nat [of 0] by (simp add: print_nat_zero strtol_digits_def)
next
  case False
  then have "hd (print_nat n) \<noteq> CHR ''0''" by (intro print_nat_leading) simp
  then show ?thesis using digits_value_print_nat [of n] by (auto simp: strtol_digits_def split: list.splits)
qed

lemma strtol0_print_int: "strtol0 (print_int n) = (if i64 n then Some n else None)"
proof -
  obtain c q where c: "print_nat (nat \<bar>n\<bar>) = c # q" "is_digit c" using print_nat_digits [of "nat \<bar>n\<bar>"] by (cases "print_nat (nat \<bar>n\<bar>)") auto
  have d: "\<not> is_space c" "c \<noteq> CHR ''-''" "c \<noteq> CHR ''+''" "\<not> is_space (CHR ''-'')" using c(2) by (auto simp: is_digit_def is_space_def)
  show ?thesis
  proof (cases "n < 0")
    case True
    then have "nat (- n) = nat \<bar>n\<bar>" by simp
    then show ?thesis using True d strtol_digits_print_nat [of "nat (- n)"] by (simp add: strtol0_def print_int_def char_at_def Let_def)
  next
    case False
    then have "nat n = nat \<bar>n\<bar>" by simp
    then show ?thesis using False c d strtol_digits_print_nat [of "nat n"] by (simp add: strtol0_def print_int_def char_at_def Let_def)
  qed
qed

section \<open>Hexadecimal texts\<close>

lemma hex_digit_props: "digit_in 16 (hex_digit n)" "hex_value (hex_digit n) = n mod 16" "(of_char (hex_digit n) :: nat) < 128"
proof -
  have m: "n mod 16 < 16" by simp
  show "digit_in 16 (hex_digit n)" "hex_value (hex_digit n) = n mod 16" "(of_char (hex_digit n) :: nat) < 128"
    using m by (auto simp: hex_digit_def digit_in_def hex_value_def is_digit_def digit_value_def take_bit_eq_mod)
qed

lemma print_hex_digits: "list_all (digit_in 16) (print_hex n)" "list_all (\<lambda>c. (of_char c :: nat) < 128) (print_hex n)" "print_hex n \<noteq> []"
  by (induction n rule: print_hex.induct) (subst print_hex.simps, simp add: hex_digit_props; fail)+

lemma foldl_print_hex: "foldl (\<lambda>m c. 16 * m + hex_value c) 0 (print_hex n) = n"
proof (induction n rule: print_hex.induct)
  case (1 n)
  then show ?case by (subst print_hex.simps) (simp add: hex_digit_props)
qed

lemma digits_value_print_hex: "digits_value 16 (print_hex n) = int n"
  using print_hex_digits(1) [of n] foldl_print_hex [of n] by (simp add: digits_value_all)

lemma print_hex_length: "n < 16 ^ Suc k \<Longrightarrow> length (print_hex n) \<le> Suc k"
proof (induction k arbitrary: n)
  case 0
  then show ?case by (simp add: print_hex.simps)
next
  case (Suc k)
  then have "n div 16 < 16 ^ Suc k" by (simp add: less_mult_imp_div_less mult.commute)
  then show ?case using Suc.IH [of "n div 16"] by (subst print_hex.simps) simp
qed

lemma print_hex_leading: "0 < n \<Longrightarrow> hd (print_hex n) \<noteq> CHR ''0''"
proof (induction n rule: print_hex.induct)
  case (1 n)
  have d: "hex_digit n \<noteq> CHR ''0''" if "n < 16" using that 1(2) hex_digit_props(2) [of n] by (auto simp: hex_value_def digit_value_def is_digit_def)
  show ?case using 1 d print_hex_digits(3) [of "n div 16"] by (subst print_hex.simps) (auto simp: hd_append)
qed

lemma print_hex_zero: "print_hex 0 = ''0''"
  by code_simp

text \<open>The text of an integer in base 16.\<close>

definition hex_text :: "int \<Rightarrow> string" where
  "hex_text i = (if i < 0 then CHR ''-'' # print_hex (nat (- i)) else print_hex (nat i))"

lemma unat_u64_of_int: "0 \<le> i \<Longrightarrow> i < 2 ^ 64 \<Longrightarrow> unat (word_of_int i :: u64) = nat i"
  by (simp add: unsigned_of_int take_bit_int_eq_self)

lemma hex_magnitude: "i64 i \<Longrightarrow> i < 0 \<Longrightarrow> unat (- (word_of_int i :: u64)) = nat (- i)"
  unfolding of_int_minus [symmetric] by (rule unat_u64_of_int) (simp_all add: i64_def)

lemma toHexString_make:
  assumes "i64 i"
  shows "bal_lang_int_toHexString i s = make_string (ascii (hex_text i)) s"
proof -
  have b: "(if i < 0 then CHR ''-'' # print_hex (unat (- (word_of_int i :: u64))) else print_hex (unat (word_of_int i :: u64))) = hex_text i"
    using assms hex_magnitude [OF assms] unat_u64_of_int [of i] by (auto simp: hex_text_def i64_def)
  have a: "list_all (\<lambda>c. (of_char c :: nat) < 128) (hex_text i)" using print_hex_digits(2) by (simp add: hex_text_def)
  have l: "length (ascii (hex_text i)) = length (hex_text i)" by (simp add: ascii_def)
  show ?thesis
    unfolding bal_lang_int_toHexString_def make_string_def b Let_def l code_points_ascii [OF ascii_less [OF a]] by (rule refl)
qed

lemma hex_text_length: "i64 i \<Longrightarrow> length (hex_text i) \<le> 17"
  using print_hex_length [of "nat i" 15] print_hex_length [of "nat (- i)" 15] by (cases "i < 0") (simp_all add: hex_text_def i64_def nat_less_iff)

lemma toHexString_rep:
  assumes "wf_rt s" "i64 i"
  shows "case bal_lang_int_toHexString i s of
      Inl e \<Rightarrow> e = OutOfMemory
    | Inr (p, s1) \<Rightarrow> denotes s1 p (VStr (ascii (hex_text i))) \<and> heap s \<subseteq>\<^sub>m heap s1"
proof -
  have a: "list_all (\<lambda>c. (of_char c :: nat) < 128) (hex_text i)" using print_hex_digits(2) by (simp add: hex_text_def)
  have "length (ascii (hex_text i)) < 2 ^ 62" using hex_text_length [OF assms(2)] by (simp add: ascii_def)
  from make_string_rep [OF assms(1) utf8_of_ascii [OF ascii_less [OF a]] this]
  show ?thesis unfolding toHexString_make [OF assms(2)] by (auto intro: denotes.str split: sum.splits)
qed

section \<open>Integers as decimals\<close>

text \<open>
  What decNumber documents of integers, where \<open>iv\<close> gives the integer that a decimal is equal to: 34 digits
  are exact, an integer can be quantized to exponent 0, and the text of an integer with exponent 0 is
  its decimal digits.
\<close>

definition exact_integers :: "dec_lib \<Rightarrow> (decQuad \<Rightarrow> int option) \<Rightarrow> bool" where
  "exact_integers lib iv \<longleftrightarrow>
     (\<forall>n. - (2 ^ 31) \<le> n \<and> n < 2 ^ 31 \<longrightarrow> iv (decQuadFromInt32 lib n) = Some n) \<and>
     (\<forall>n. \<bar>n\<bar> < 10 ^ 34 \<longrightarrow> iv (decQuadFromString lib (print_int n)) = Some n) \<and>
     (\<forall>x n. iv x = Some n \<and> \<bar>n\<bar> < 10 ^ 34 \<longrightarrow>
        snd (decQuadQuantize lib x (decQuadZero lib)) AND DEC_Invalid_operation = 0 \<and>
        decQuadToString lib (fst (decQuadQuantize lib x (decQuadZero lib))) = print_int n)"

lemma decimal_from_int_rep:
  assumes "exact_integers lib iv" "wf_rt s" "i64 n"
  shows "case bal_decimal_from_int lib n s of
      Inl e \<Rightarrow> e = OutOfMemory
    | Inr (p, s1) \<Rightarrow> (\<exists>x. iv x = Some n \<and> denotes s1 p (VDec x)) \<and> grows s s1"
proof -
  let ?x = "if - (2 ^ 31) \<le> n \<and> n \<le> 2 ^ 31 - 1 then decQuadFromInt32 lib n else decQuadFromString lib (print_int n)"
  have "\<bar>n\<bar> < 10 ^ 34" using assms(3) by (auto simp: i64_def)
  then have "iv ?x = Some n" using assms(1) unfolding exact_integers_def by auto
  then show ?thesis using createDecimal_rep [OF assms(2), of ?x] unfolding bal_decimal_from_int_def by (auto split: sum.splits)
qed

lemma decimal_to_int_exact:
  assumes "exact_integers lib iv" "denotes s p (VDec x)" "iv x = Some n" "\<bar>n\<bar> < 10 ^ 34"
  shows "bal_decimal_to_int lib p s = Inr (if i64 n then Some n else None)"
proof -
  have q: "snd (decQuadQuantize lib x (decQuadZero lib)) AND DEC_Invalid_operation = 0"
    "decQuadToString lib (fst (decQuadQuantize lib x (decQuadZero lib))) = print_int n"
    using assms(1,3,4) unfolding exact_integers_def by blast+
  then show ?thesis
    using strtol0_print_int [of n] unfolding bal_decimal_to_int_def taggedToDecQuad_denotes [OF assms(2)]
    by (simp add: case_prod_unfold Let_def)
qed

section \<open>Conversions of values\<close>

lemma convert_decimal_int:
  assumes "exact_integers lib iv" "wf_rt s" "denotes s p (VInt n)" "i64 n"
  shows "case bal_convert_to_decimal lib p s of
      Inl e \<Rightarrow> e = OutOfMemory
    | Inr ((c, q), s1) \<Rightarrow> c = 0 \<and> grows s s1 \<and> (\<exists>t x. q = Some t \<and> denotes s1 t (VDec x) \<and> iv x = Some n)"
  using decimal_from_int_rep [OF assms(1,2,4)] denotes_utTag [OF assms(3)]
  by (auto simp: bal_convert_to_decimal_def taggedToInt_denotes [OF assms(3)] split: sum.splits prod.splits)

lemma intToTagged_denotes:
  "wf_rt s \<Longrightarrow> case intToTagged n s of Inl e \<Rightarrow> e = OutOfMemory | Inr (p, s1) \<Rightarrow> denotes s1 p (VInt n) \<and> grows s s1"
  using intToTagged_rep [of s n] by (auto intro: denotes.int split: sum.splits)

text \<open>The outcome of a conversion to an integer.\<close>

definition int_outcome :: "rt \<Rightarrow> int option \<Rightarrow> fault + tagged option \<times> rt \<Rightarrow> bool" where
  "int_outcome s o1 r \<longleftrightarrow>
     (case o1 of
        None \<Rightarrow> r = Inr (None, s)
      | Some n \<Rightarrow> (case r of
            Inl e \<Rightarrow> e = OutOfMemory
          | Inr (q, s1) \<Rightarrow> (\<exists>t. q = Some t \<and> denotes s1 t (VInt n)) \<and> grows s s1))"

lemma int_outcomeI:
  assumes "wf_rt s"
  shows "int_outcome s o1 (case o1 of None \<Rightarrow> Inr (None, s) | Some n \<Rightarrow> bindR (intToTagged n s) (\<lambda>(p, s1). Inr (Some p, s1)))"
proof (cases o1)
  case (Some n)
  then show ?thesis using intToTagged_denotes [OF assms, of n] by (auto simp: int_outcome_def split: sum.splits)
qed (simp add: int_outcome_def)

lemma convert_int_decimal:
  assumes "exact_integers lib iv" "wf_rt s" "denotes s p (VDec x)" "iv x = Some n" "\<bar>n\<bar> < 10 ^ 34"
  shows "int_outcome s (if i64 n then Some n else None) (bal_convert_to_int lib p s)"
  using int_outcomeI [OF assms(2), of "if i64 n then Some n else None"] denotes_utTag [OF assms(3)]
  by (simp add: bal_convert_to_int_def decimal_to_int_exact [OF assms(1,3-5)])

lemma convert_int_float:
  assumes "wf_rt s" "denotes s p (VFloat x)"
  shows "int_outcome s (bal_float_to_int x) (bal_convert_to_int lib p s)"
  using int_outcomeI [OF assms(1), of "bal_float_to_int x"] denotes_utTag [OF assms(2)]
  by (simp add: bal_convert_to_int_def taggedToFloat_denotes [OF assms(2)])

lemma convert_float_int:
  assumes "wf_rt s" "denotes s p (VInt n)"
  shows "case bal_convert_to_float lib p s of
      Inl e \<Rightarrow> e = OutOfMemory
    | Inr (q, s1) \<Rightarrow> denotes s1 q (VFloat (int_to_dbl n)) \<and> grows s s1"
  using floatToTagged_rep [OF assms(1), of "int_to_dbl n"] denotes_utTag [OF assms(2)]
  by (auto simp: bal_convert_to_float_def taggedToInt_denotes [OF assms(2)] intro: denotes.float split: sum.splits)

end
