(* ===== verification/Numbers_Correct.thy ===== *)
theory Numbers_Correct
  imports Rt_Number_Props Rt_Value_Samples
begin

text \<open>
  Theorems about numbers: conversion between the numeric types, arithmetic of decimals, and
  hexadecimal texts.
\<close>

section \<open>A decimal library for the examples\<close>

text \<open>
  Integers of 128 bits, the least of which stands for \<open>NaN\<close>; an operation that yields it raises the
  overflow flag, and division by zero its own.
\<close>

definition sample_nan :: decQuad where
  "sample_nan = 0x80000000000000000000000000000000"

definition sample_class :: "decQuad \<Rightarrow> decClass" where
  "sample_class x =
     (if x = sample_nan then DEC_CLASS_QNAN else if x = 0 then DEC_CLASS_POS_ZERO
      else if bit x 127 then DEC_CLASS_NEG_NORMAL else DEC_CLASS_POS_NORMAL)"

definition sample_op :: "(decQuad \<Rightarrow> decQuad \<Rightarrow> decQuad) \<Rightarrow> decQuad \<Rightarrow> decQuad \<Rightarrow> decQuad \<times> u32" where
  "sample_op f x y = (f x y, if f x y = sample_nan then DEC_Overflow else 0)"

definition sample_div :: "(decQuad \<Rightarrow> decQuad \<Rightarrow> decQuad) \<Rightarrow> decQuad \<Rightarrow> decQuad \<Rightarrow> decQuad \<times> u32" where
  "sample_div f x y = (if y = 0 then (sample_nan, DEC_Division_by_zero) else sample_op f x y)"

definition sample_dec_lib :: dec_lib where
  "sample_dec_lib =
     \<lparr>emyg_dtoa_non_special = (\<lambda>d. ''1.0''), decQuadToString = (\<lambda>x. print_int (sint x)), print_pointer = (\<lambda>p. ''0x0''),
      decQuadAdd = sample_op (+), decQuadSubtract = sample_op (-), decQuadMultiply = sample_op (*),
      decQuadDivide = sample_div (div), decQuadRemainder = sample_div (mod),
      decQuadQuantize = (\<lambda>x y. (x, 0)), decQuadReduce = (\<lambda>x. x), decQuadCopyNegate = uminus,
      decQuadClass = sample_class, decQuadZero = 0, decQuadFromInt32 = word_of_int,
      decQuadFromString = (\<lambda>t. case sscanf_ld t of None \<Rightarrow> sample_nan | Some (n, _) \<Rightarrow> word_of_int n),
      strtod = (\<lambda>t. 0)\<rparr>"

text \<open>A one at 0x6000, a zero at 0x7000.\<close>

definition sample_dec_rt :: rt where
  "sample_dec_rt = sample_rt\<lparr>pool := [0x1000, 0x2000], heap := [0x6000 \<mapsto> ObjDecimal 1, 0x7000 \<mapsto> ObjDecimal 0]\<rparr>"

definition sample_dec :: "u64 \<Rightarrow> tagged" where
  "sample_dec a = ptrAddFlags a (shifted_tag TAG_DECIMAL)"

lemma sample_dec_wf: "wf_rt sample_dec_rt"
  by (simp add: wf_rt_def sample_dec_rt_def heap_addr_def POINTER_MASK_def ALIGN_MASK_def HEAP_ALIGNMENT_def)

lemma sample_dec_denotes:
  "denotes sample_dec_rt (sample_dec 0x6000) (VDec 1)" "denotes sample_dec_rt (sample_dec 0x7000) (VDec 0)"
  by (rule denotes.dec, force simp: boxed_def sample_dec_rt_def sample_dec_def heap_addr_def POINTER_MASK_def ALIGN_MASK_def HEAP_ALIGNMENT_def)+

lemma sample_int_denotes: "IMMEDIATE_INT_MIN \<le> n \<Longrightarrow> n \<le> IMMEDIATE_INT_MAX \<Longrightarrow> denotes s (sample_int n) (VInt n)"
  by (rule denotes.int) (simp add: int_rep_def sample_int_def)

section \<open>Floats and integers\<close>

text \<open>
  C38: The conversion of a float to an integer reports overflow exactly for \<open>NaN\<close> and for values below
  \<open>-2\<^sup>6\<^sup>3\<close> or from \<open>2\<^sup>6\<^sup>3\<close> up, infinities among them; every other float becomes the nearest integer, a tie the
  even one, and that integer has 64 bits.
\<close>

theorem float_to_int_correct:
  "case bal_float_to_int d of
      None \<Rightarrow> dbl_isnan d \<or> dbl_value d < - (2 ^ 63) \<or> 2 ^ 63 \<le> dbl_value d
    | Some n \<Rightarrow> \<not> dbl_isnan d \<and> - (2 ^ 63) \<le> dbl_value d \<and> dbl_value d < 2 ^ 63 \<and> i64 n \<and>
        (\<bar>dbl_value d - real_of_int n\<bar> < 1 / 2 \<or> \<bar>dbl_value d - real_of_int n\<bar> = 1 / 2 \<and> even n)"
proof (cases "bal_float_to_int d")
  case None
  then show ?thesis using float_to_int_none by auto
next
  case (Some n)
  then have "\<not> dbl_isnan d" "n = dbl_lrint d" by (auto simp: bal_float_to_int_def split: if_splits)
  then show ?thesis
    using Some float_to_int_range [OF Some] lrint_range [OF Some] dbl_lrint_near [of d] by (simp add: less_le)
qed

text \<open>
  An integer of at most 53 bits converted to a float and back is the same integer: the conversion to
  float is exact there, and only exhausted memory can stop the round trip.
\<close>

lemma int_float_roundtrip:
  assumes "wf_rt s" "denotes s p (VInt n)" "\<bar>n\<bar> \<le> 2 ^ 53"
  shows "case bal_convert_to_float lib p s of
      Inl e \<Rightarrow> e = OutOfMemory
    | Inr (q, s1) \<Rightarrow> denotes s1 q (VFloat (int_to_dbl n)) \<and> int_outcome s1 (Some n) (bal_convert_to_int lib q s1)"
  using convert_float_int [OF assms(1,2), of lib] convert_int_float [of _ _ "int_to_dbl n" lib] grows_wf assms(1)
  by (auto simp: int_to_dbl_exact [OF assms(3)] split: sum.splits)

lemma int_float_example:
  "case bal_convert_to_float sample_dec_lib (sample_int (- 7)) sample_rt of
      Inl e \<Rightarrow> e = OutOfMemory
    | Inr (q, s1) \<Rightarrow> denotes s1 q (VFloat (int_to_dbl (- 7))) \<and> int_outcome s1 (Some (- 7)) (bal_convert_to_int sample_dec_lib q s1)"
  using int_float_roundtrip [OF sample_wf sample_int_denotes, of "- 7" sample_dec_lib]
  by (simp add: IMMEDIATE_INT_MIN_def IMMEDIATE_INT_MAX_def)

section \<open>Decimals\<close>

text \<open>
  C39: Every \<open>int\<close> converted to a decimal, by \<open>decQuadFromInt32\<close> or through its decimal text, and back through
  \<open>decQuadQuantize\<close> and \<open>strtol\<close> is the same \<open>int\<close>, without overflow.
\<close>

theorem int_decimal_roundtrip:
  assumes "exact_integers lib iv" "wf_rt s" "denotes s p (VInt n)" "i64 n"
  shows "case bal_convert_to_decimal lib p s of
      Inl e \<Rightarrow> e = OutOfMemory
    | Inr ((c, q), s1) \<Rightarrow> c = 0 \<and> (\<exists>t x. q = Some t \<and> denotes s1 t (VDec x) \<and> iv x = Some n \<and>
        int_outcome s1 (Some n) (bal_convert_to_int lib t s1))"
proof (cases "bal_convert_to_decimal lib p s")
  case (Inl e)
  then show ?thesis using convert_decimal_int [OF assms] by simp
next
  case (Inr r)
  obtain c q s1 where r: "r = ((c, q), s1)" by (metis surj_pair)
  then obtain t x where t: "c = 0" "grows s s1" "q = Some t" "denotes s1 t (VDec x)" "iv x = Some n"
    using convert_decimal_int [OF assms] Inr by auto
  have "\<bar>n\<bar> < 10 ^ 34" using assms(4) by (auto simp: i64_def)
  then have "int_outcome s1 (Some n) (bal_convert_to_int lib t s1)"
    using convert_int_decimal [OF assms(1) grows_wf [OF t(2) assms(2)] t(4,5)] assms(4) by simp
  then show ?thesis using Inr r t by auto
qed

definition sample_iv :: "decQuad \<Rightarrow> int option" where
  "sample_iv x = (if x = sample_nan then None else Some (sint x))"

lemma sscanf_print_int: "sscanf_ld (print_int n) = Some (n, [])"
proof (cases "n < 0")
  case True
  have "scan_digits (print_nat (nat (- n))) = Some (- n, [])" using scan_print_nat [of "[]" "nat (- n)"] True by simp
  then show ?thesis using True by (simp add: print_int_def sscanf_ld_def is_space_def)
next
  case False
  then show ?thesis using sscanf_print_nat [of "[]" "nat n"] by (simp add: print_int_def)
qed

lemma sample_exact: "exact_integers sample_dec_lib sample_iv"
proof -
  have s: "sint (word_of_int n :: decQuad) = n" if "\<bar>n\<bar> < 10 ^ 34" for n
    using that by (simp add: signed_of_int signed_take_bit_int_eq_self)
  have n: "(word_of_int n :: decQuad) \<noteq> sample_nan" if "\<bar>n\<bar> < 10 ^ 34" for n
  proof
    assume "(word_of_int n :: decQuad) = sample_nan"
    then have "n = sint sample_nan" using s [OF that] by simp
    then show False using that by (simp add: sample_nan_def)
  qed
  show ?thesis unfolding exact_integers_def using s n
    by (auto simp: sample_dec_lib_def sample_iv_def sscanf_print_int split: if_splits)
qed

theorem int_decimal_roundtrip_witness:
  "case bal_convert_to_decimal sample_dec_lib (sample_int (2 ^ 40)) sample_rt of
      Inl e \<Rightarrow> e = OutOfMemory
    | Inr ((c, q), s1) \<Rightarrow> c = 0 \<and> (\<exists>t x. q = Some t \<and> denotes s1 t (VDec x) \<and> sample_iv x = Some (2 ^ 40) \<and>
        int_outcome s1 (Some (2 ^ 40)) (bal_convert_to_int sample_dec_lib t s1))"
  using int_decimal_roundtrip [OF sample_exact sample_wf sample_int_denotes, of "2 ^ 40"]
  by (simp add: IMMEDIATE_INT_MIN_def IMMEDIATE_INT_MAX_def i64_def)

text \<open>
  C40: Addition, subtraction, multiplication, division and remainder of decimals: a zero or subnormal result, and
  one that was subnormal before rounding, is the positive zero; division by zero, overflow and
  invalid operations give the panic code of the language and no value; anything else is the result of
  the library. The decimals returned are always values of the language: finite, and neither a negative zero nor
  subnormal. The hypotheses are that the library flags infinite and \<open>NaN\<close> results, as decNumber documents.
\<close>

theorem decimal_arithmetic_correct:
  assumes "wf_rt s" "denotes s p1 (VDec x)" "denotes s p2 (VDec y)" "decimal_value lib x" "decimal_value lib y" "zero_class lib"
    and "(f, g) \<in> {(bal_decimal_add, decQuadAdd), (bal_decimal_sub, decQuadSubtract), (bal_decimal_mul, decQuadMultiply),
      (bal_decimal_div, decQuadDivide), (bal_decimal_rem, decQuadRemainder)}" "signals lib (g lib)"
  shows "has_outcome s (decimal_outcome lib (g lib x y)) (f lib p1 p2 s) \<and>
    (\<forall>z. decimal_outcome lib (g lib x y) = Inr z \<longrightarrow> decimal_value lib z)"
proof -
  have "f lib p1 p2 s = decimal_binary lib (g lib) p1 p2 s"
    using assms(7) by (auto simp: bal_decimal_add_def bal_decimal_sub_def bal_decimal_mul_def bal_decimal_div_def bal_decimal_rem_def)
  then show ?thesis
    using decimal_binary_outcome [OF assms(1-3), of lib "g lib"] decimal_outcome_value [OF assms(6,8,4,5)] by simp
qed

lemma sample_signals: "signals sample_dec_lib (sample_div f)" "zero_class sample_dec_lib"
  "decimal_value sample_dec_lib 1" "decimal_value sample_dec_lib 0"
  by (auto simp: signals_def sample_div_def sample_op_def sample_dec_lib_def sample_class_def zero_class_def decimal_value_def sample_nan_def
      DECIMAL_STATUS_FAIL_def DEC_Overflow_def DEC_Division_by_zero_def DEC_IEEE_754_Invalid_operation_def DEC_Underflow_def DEC_Invalid_operation_def)

theorem decimal_arithmetic_correct_witness:
  "bal_decimal_div sample_dec_lib (sample_dec 0x6000) (sample_dec 0x7000) sample_dec_rt = Inr ((PANIC_DIVIDE_BY_ZERO, None), sample_dec_rt)"
proof -
  have o1: "decimal_outcome sample_dec_lib (decQuadDivide sample_dec_lib 1 0) = Inl PANIC_DIVIDE_BY_ZERO"
    by (simp add: decimal_outcome_def sample_dec_lib_def sample_div_def sample_class_def tiny_def
        DECIMAL_STATUS_FAIL_def DEC_Overflow_def DEC_Division_by_zero_def DEC_IEEE_754_Invalid_operation_def DEC_Underflow_def DEC_Invalid_operation_def)
  have sg: "signals sample_dec_lib (decQuadDivide sample_dec_lib)" using sample_signals(1) by (simp add: sample_dec_lib_def)
  show ?thesis
    using decimal_arithmetic_correct [OF sample_dec_wf sample_dec_denotes sample_signals(3,4,2), of bal_decimal_div decQuadDivide] sg
    by (simp add: o1 has_outcome_def)
qed

section \<open>Hexadecimal texts\<close>

text \<open>The integer that a hexadecimal text with an optional sign stands for.\<close>

definition read_hex :: "string \<Rightarrow> int" where
  "read_hex t = (if t \<noteq> [] \<and> hd t = CHR ''-'' then - digits_value 16 (tl t) else digits_value 16 t)"

lemma read_hex_text: "read_hex (hex_text i) = i"
proof (cases "i < 0")
  case True
  then show ?thesis using digits_value_print_hex [of "nat (- i)"] by (simp add: read_hex_def hex_text_def)
next
  case False
  have "digit_in 16 (hd (print_hex (nat i)))" using print_hex_digits(1,3) [of "nat i"] by (auto simp: list_all_iff)
  then have "hd (print_hex (nat i)) \<noteq> CHR ''-''" by (auto simp: digit_in_def is_digit_def)
  then show ?thesis using False digits_value_print_hex [of "nat i"] by (simp add: read_hex_def hex_text_def)
qed

text \<open>
  \<open>int:toHexString\<close> of any \<open>int\<close>, the least one among them, is a string that reads back as that \<open>int\<close>, has no more
  than the 17 characters for which its buffer has room, and no leading zeros.
\<close>

lemma to_hex_string_roundtrip:
  assumes "wf_rt s" "i64 i"
  shows "case bal_lang_int_toHexString i s of
      Inl e \<Rightarrow> e = OutOfMemory
    | Inr (p, s1) \<Rightarrow> \<exists>t. denotes s1 p (VStr (ascii t)) \<and> read_hex t = i \<and> length t \<le> 17 \<and> (hd t = CHR ''0'' \<longleftrightarrow> i = 0)"
proof -
  have z: "hd (hex_text i) = CHR ''0'' \<longleftrightarrow> i = 0"
    using print_hex_leading [of "nat i"] by (cases "i = 0") (auto simp: hex_text_def print_hex_zero)
  show ?thesis using toHexString_rep [OF assms] read_hex_text [of i] hex_text_length [OF assms(2)] z by (auto split: sum.splits)
qed

lemma to_hex_string_roundtrip_example:
  "case bal_lang_int_toHexString (- (2 ^ 63)) sample_rt of
      Inl e \<Rightarrow> e = OutOfMemory
    | Inr (p, s1) \<Rightarrow> \<exists>t. denotes s1 p (VStr (ascii t)) \<and> read_hex t = - (2 ^ 63) \<and> length t \<le> 17 \<and> (hd t = CHR ''0'' \<longleftrightarrow> - (2 ^ 63) = (0 :: int))"
  using to_hex_string_roundtrip [OF sample_wf, of "- (2 ^ 63)"] by (simp add: i64_def)

end
