(* ===== verification/Rt_Tagged_Experiment.thy ===== *)
theory Rt_Tagged_Experiment
  imports Rt_Tagged
begin

text \<open>
  The tagged-pointer experiment under \<open>src/experiment/taggedptr\<close>, the forerunner of the layout of
  \<open>balrt.h\<close>: the operations of \<open>union.c\<close>, written in C, and those of \<open>taggedptr.ll\<close>, written in LLVM IR, which
  are meant to be the same. The tag and the pointer are taken apart as in the runtime
  (\<open>getTag\<close>, \<open>POINTER_MASK\<close>); the two versions agree except for \<open>extractInt\<close>, where the C version has
  the wrong mask.
\<close>

section \<open>union.c and taggedptr.h\<close>

definition TAG_MASK_HI :: u64 where "TAG_MASK_HI = 0xFF00000000000000"

definition unpackTag :: "u64 \<Rightarrow> u64" where
  "unpackTag ptr = ptr AND TAG_MASK_HI"

definition unpackPtr :: "u64 \<Rightarrow> u64" where
  "unpackPtr ptr = ptr AND NOT TAG_MASK_HI"

definition pack :: "u64 \<Rightarrow> u64 \<Rightarrow> u64" where
  "pack ptr tag = ptr + tag"

text \<open>
  The left shift of a signed value is undefined in C when the value is negative or the result does not
  fit; the right shift is arithmetic.
\<close>

definition extractInt :: "u64 \<Rightarrow> fault + int" where
  "extractInt ptr =
     (let n = sint (ptr AND TAG_MASK_HI)
      in if n < 0 \<or> INT64_MAX < n * 2 ^ 16 then Inl IntOverflow
         else Inr (n * 2 ^ 16 div 2 ^ 16))"

definition packInt :: "u64 \<Rightarrow> int \<Rightarrow> u64" where
  "packInt ptr n = word_of_int n AND (push_bit 48 1 - 1)"

section \<open>taggedptr.ll\<close>

definition ll_pack :: "u64 \<Rightarrow> u64 \<Rightarrow> u64" where
  "ll_pack p tag = p + tag"

definition ll_unpackPtr :: "u64 \<Rightarrow> u64" where
  "ll_unpackPtr p = ptr_mask p 72057594037927935"

definition ll_unpackTag :: "u64 \<Rightarrow> u64" where
  "ll_unpackTag p = p AND (- 72057594037927936)"

definition ll_extractInt :: "u64 \<Rightarrow> int" where
  "ll_extractInt p = sint (ucast p :: 48 word)"

section \<open>Agreement with the runtime and with each other\<close>

lemma TAG_MASK_HI_mask: "TAG_MASK_HI = NOT (mask 56)"
  by (simp add: TAG_MASK_HI_def mask_eq_exp_minus_1)

lemma bit_TAG_MASK_HI [simp]: "bit TAG_MASK_HI n \<longleftrightarrow> 56 \<le> n \<and> n < 64"
  by (auto simp: TAG_MASK_HI_mask bit_simps)

lemma unpackTag_getTag: "unpackTag p = shifted_tag (getTag p)"
  by (rule bit_word_eqI) (auto simp: unpackTag_def bit_shifted_tag bit_getTag bit_simps)

lemma unpackPtr_POINTER_MASK: "unpackPtr p = p AND POINTER_MASK"
  by (rule bit_word_eqI) (auto simp: unpackPtr_def bit_simps)

lemma taggedToPtr_unpackPtr: "taggedToPtr p = unpackPtr p AND ALIGN_MASK"
  by (rule bit_word_eqI) (auto simp: unpackPtr_def bit_simps)

lemma untagged_bit:
  assumes "p AND TAG_MASK_HI = 0" "bit p n"
  shows "n < 56"
  using arg_cong [OF assms(1), of "\<lambda>w. bit w n"] assms(2) bit_u64_ge [of p n]
  by (auto simp: bit_simps)

text \<open>Packing adds: for a pointer below \<open>2 ^ 56\<close> this is the same as setting the bits of the tag.\<close>

lemma pack_disjoint:
  assumes "p AND TAG_MASK_HI = 0"
  shows "pack p (shifted_tag t) = p OR shifted_tag t"
proof -
  have "\<not> bit p n \<or> \<not> bit (shifted_tag t) n" for n
    using untagged_bit [OF assms, of n] by (auto simp: bit_shifted_tag)
  then show ?thesis by (simp add: pack_def disjunctive_add)
qed

lemma unpack_pack:
  assumes "p AND TAG_MASK_HI = 0"
  shows "unpackPtr (pack p (shifted_tag t)) = p" "unpackTag (pack p (shifted_tag t)) = shifted_tag t"
  unfolding pack_disjoint [OF assms]
  by (rule bit_word_eqI,
      auto simp: unpackPtr_def unpackTag_def bit_simps bit_shifted_tag dest: untagged_bit [OF assms])+

lemma ll_agrees:
  "ll_pack p t = pack p t" "ll_unpackPtr p = unpackPtr p" "ll_unpackTag p = unpackTag p"
proof -
  show "ll_pack p t = pack p t" by (simp add: ll_pack_def pack_def)
  have "(72057594037927935 :: u64) = NOT TAG_MASK_HI" by (simp add: TAG_MASK_HI_def)
  then show "ll_unpackPtr p = unpackPtr p" by (simp only: ll_unpackPtr_def unpackPtr_def ptr_mask_def)
  have "(- 72057594037927936 :: u64) = TAG_MASK_HI" by (simp add: TAG_MASK_HI_def)
  then show "ll_unpackTag p = unpackTag p" by (simp only: ll_unpackTag_def unpackTag_def)
qed

section \<open>Integers in the low 48 bits\<close>

lemma packInt_mask: "packInt p n = take_bit 48 (word_of_int n)"
  by (simp add: packInt_def take_bit_eq_mask mask_eq_exp_minus_1 push_bit_eq_mult)

lemma packInt_untagged: "unpackTag (packInt p n) = 0"
  by (rule bit_word_eqI) (auto simp: unpackTag_def packInt_mask bit_simps)

lemma ll_extract_packInt:
  assumes "- (2 ^ 47) \<le> n" "n < 2 ^ 47"
  shows "ll_extractInt (packInt p n) = n"
proof -
  have "(ucast (packInt p n) :: 48 word) = word_of_int n"
    by (rule bit_word_eqI) (auto simp: packInt_mask bit_simps)
  then show ?thesis
    using assms by (simp add: ll_extractInt_def signed_of_int signed_take_bit_int_eq_self)
qed

text \<open>
  The C version keeps the tag and drops the integer: it yields 0 for a word without a tag and shifts a
  signed value out of range for any other.
\<close>

lemma extractInt_cases:
  "extractInt p = (if unpackTag p = 0 then Inr 0 else Inl IntOverflow)"
proof (cases "unpackTag p = 0")
  case True
  then show ?thesis by (simp add: extractInt_def unpackTag_def)
next
  case False
  let ?n = "sint (unpackTag p)"
  have "take_bit 56 ?n = 0"
    by (rule bit_eqI) (auto simp: unpackTag_def bit_simps)
  then have "2 ^ 56 dvd ?n" by (simp add: take_bit_eq_mod mod_eq_0_iff_dvd)
  moreover have "?n \<noteq> 0" using False signed_word_eqI [of "unpackTag p" 0] by auto
  ultimately have "2 ^ 56 \<le> ?n" if "0 \<le> ?n" using that by (intro zdvd_imp_le) auto
  then have "?n < 0 \<or> INT64_MAX < ?n * 2 ^ 16" by fastforce
  then show ?thesis using False by (auto simp: extractInt_def Let_def simp flip: unpackTag_def)
qed

lemma extract_packInt_zero: "extractInt (packInt p n) = Inr 0"
  by (simp add: extractInt_cases packInt_untagged)

end
