(* ===== verification/Spec2Isabelle.thy ===== *)
theory Spec2Isabelle
  imports Values_Correct Strings_Correct Types_Correct Lists_Correct Mappings_Correct Equality_Correct
    Errors_Correct Output_Correct Numbers_Correct Rt_Tagged_Experiment
begin

text \<open>
  Verification of the runtime of nBallerina, the C code under \<open>src/runtime\<close> that programs compiled
  to native code by the nBallerina compiler are linked with.

  \<^bold>\<open>The program.\<close> A compiled program passes 64-bit tagged pointers around. The runtime gives them their
  meaning: how values are packed (\<open>tag.h\<close>, \<open>balrt.h\<close>, \<open>tagged_inline.c\<close>), strings (\<open>string.c\<close>, \<open>string_inline.c\<close>)
  and their hash (\<open>hash.h\<close>), lists (\<open>list.c\<close>), mappings (\<open>mapping.c\<close>: a hash table over an array of fields in
  insertion order), fillers, the default values of types (\<open>structure.c\<close> and the \<open>_filler_create\<close> functions), tests
  of values against types (the \<open>_subtype_contains\<close> functions), equality and comparison (\<open>balrt.h\<close>, \<open>eq_inline.c\<close>,
  \<open>list.c\<close>, \<open>mapping.c\<close>), numbers (\<open>int.c\<close>, \<open>float.c\<close>, \<open>float_ll_inline.ll\<close>, \<open>decimal.c\<close>, \<open>convert.c\<close>), uniform function
  calls and closures (\<open>function.c\<close>), printing (\<open>print.c\<close>), and errors and panics with their backtraces (\<open>error.c\<close>,
  \<open>panic.c\<close>). Mappings hash and compare the strings that are their keys; stores into lists and mappings ask
  the type tests; a store beyond the end of a list creates fillers, which may be lists and
  mappings; equality, comparison and printing walk over lists and mappings; panics build errors, whose
  backtraces demangle the names that the compiler made (\<open>src/compiler/modules/nback/symbol.bal\<close>).

  \<^bold>\<open>The state.\<close> \<open>Rt_Objects\<close> holds the record \<open>rt\<close>: the \<open>heap\<close> maps addresses to objects (\<open>obj\<close>: boxed numbers,
  the words of a string, lists, mappings, functions, errors), \<open>pool\<close> is the list of the addresses
  that the coming calls of \<open>malloc\<close> return (0 for a failure, and at the end memory is exhausted), \<open>junk\<close> is
  what fresh memory contains, and \<open>img\<close> is the image of the program: the descriptors and types that the
  compiler emits as constants, and the hash key. An object holds its arrays: a \<open>c_array\<close> has length,
  capacity and a block of members that may be uninitialised. An operation takes the state
  and returns \<open>fault + result \<times> rt\<close>. \<open>fault\<close> (\<open>Rt_Prelude\<close>) has the ways in which a call does not return: exhausted
  memory, an abort, undefined behaviour of C (\<open>OutOfBounds\<close>, \<open>BadPointer\<close>, \<open>IntOverflow\<close>), and a recursion deeper
  than the bound of the model. Panic codes are results, as in the source. \<open>uint64_t\<close> and \<open>uint32_t\<close> are machine
  words; \<open>int64_t\<close> and \<open>int\<close> are integers with their casts and overflows written out. A \<open>double\<close> is its
  64 bits. The runtime has one thread.

  \<^bold>\<open>The theories and the code.\<close>
  \<^item> \<open>Rt_Prelude\<close>, \<open>Rt_Words\<close>, \<open>Rt_Utf8\<close>, \<open>Rt_Search\<close>: results and faults, bytes of words, UTF-8, and the contract of
    the binary searches (locale \<open>binary_search\<close>, interpreted for the searches in type ids, floats, decimals
    and strings).
  \<^item> \<open>Rt_Tagged\<close>, \<open>Rt_Objects\<close>: tags, flags, boxing, descriptors, objects and allocation (\<open>balrt.h\<close>, \<open>tag.h\<close>, \<open>alloc.c\<close>,
    \<open>tagged_inline.c\<close>, \<open>structure_inline.c\<close>). \<open>Values_Correct\<close>: round trips of tagged values, exactness.
  \<^item> \<open>Rt_Strings\<close>; \<open>Rt_String_Props\<close> and \<open>Rt_String_Hash\<close> relate a string, in each of its three representations, to the
    bytes it denotes (\<open>str_rep\<close>). \<open>Strings_Correct\<close>: construction, concatenation, observers, order, hash.
  \<^item> \<open>Rt_Types\<close>, \<open>Rt_Type_Props\<close>: the \<open>contains\<close> functions and member types; the call through the function pointer
    \<open>contains\<close> is a case distinction on the kind of subtype. \<open>Types_Correct\<close>: what each test decides.
  \<^item> \<open>Rt_Arrays\<close>, \<open>Rt_Lists\<close>: growth, and the four families of lists with their function pointers as one
    dispatch. \<open>Rt_List_Props\<close> (locale \<open>plain_list\<close>, interpreted for \<open>int[]\<close>, \<open>float[]\<close> and \<open>byte[]\<close>), \<open>Rt_Fillers\<close>,
    \<open>Rt_Generic_Lists\<close> and \<open>Rt_List_Types\<close> lead to \<open>Lists_Correct\<close>: the stores refine a store into the list of
    members, the filling read, and conformance of the members to the type along every run.
  \<^item> \<open>Rt_Type_Frame\<close>: a type test reads only what stores never change, so no value changes its type.
    \<open>Rt_List_Types\<close> and \<open>Rt_Mapping_Types\<close> use it for the types of the members of structures over time.
  \<^item> \<open>Rt_Table\<close>, \<open>Rt_Mappings\<close>: the hash table and the fields. \<open>Rt_Table_Props\<close>, \<open>Rt_Mapping_Props\<close> (locale \<open>hashed_keys\<close>,
    interpreted for strings) and \<open>Rt_Mapping_Ops\<close> (locale \<open>map_store\<close>, interpreted for mappings) show that a
    mapping refines an association list (\<open>map_rep\<close>); \<open>Rt_Mapping_Limits\<close> has the two limits at which it does
    not. \<open>Mappings_Correct\<close>: lookup, store, constructor, runs of stores.
  \<^item> \<open>Rt_Compare\<close>: equality, exact equality and comparison. \<open>Rt_Denote\<close> relates a tagged pointer to the tree of values
    it denotes (\<open>denotes\<close>); \<open>Rt_Value_Props\<close>, \<open>Rt_Equality_Props\<close> treat trees, \<open>Rt_Equality_Graph\<close> graphs with cycles and
    sharing, where equality is bisimilarity. \<open>Equality_Correct\<close> has the theorems.
  \<^item> \<open>Rt_Demangle\<close>, \<open>Rt_Backtrace\<close>, \<open>Rt_Backtrace_Props\<close>, \<open>Errors_Correct\<close>: \<open>error.c\<close>, \<open>panic.c\<close> and the mangling functions
    of the compiler. Callbacks of libbacktrace are functions folded over the events it reports.
  \<^item> \<open>Rt_Print\<close>, \<open>Rt_Print_Props\<close>, \<open>Output_Correct\<close>: \<open>print.c\<close>; output is the string of the characters written.
  \<^item> \<open>Rt_Decimal\<close>, \<open>Rt_Decimal_Props\<close>, \<open>Rt_Number_Props\<close>, \<open>Numbers_Correct\<close>: arithmetic of decimals, conversions,
    hexadecimal texts, and the argument lists and closures of \<open>function.c\<close>.
  \<^item> \<open>Rt_Tagged_Experiment\<close>: the experiment under \<open>src/experiment/taggedptr\<close> with the layout that the runtime
    took over, in C and in LLVM IR, and where the two differ.
  \<^item> This theory: a field is found under a key that is concatenated at run time (strings and
    mappings), and a refused store is reported as a panic with its reason (lists, types, panics, backtraces).
  \<^item> \<open>Rt_Samples\<close>, \<open>Rt_Value_Samples\<close>: concrete images and states at which the hypotheses of the theorems hold.

  \<^bold>\<open>Bounds.\<close> Recursion through members, in equality, comparison, printing and the creation of nested
  fillers, has a depth argument; at depth 0 the result is \<open>TooDeep\<close>. The theorems say which depth is enough: for
  trees their height, for equality and printing of graphs a number computed from the nodes (the
  stack of pairs, or of structures, cannot repeat one), for fillers the nesting of their
  descriptors (\<open>filler_ok\<close>). The demangler's loop over modules has fuel, the length of the symbol, which each
  iteration shortens. Comparison of a cyclic list does not end in the source either, and has no such
  theorem. A probe of the hash table is shown to end within the table. Arrays are bounded by
  \<open>ARRAY_LENGTH_MAX\<close>, and the theorems about mappings are for fewer than \<open>2 ^ 29\<close> fields, where the source computes
  the size of the table in \<open>int\<close>; the theorems about printing bound the nesting by the range of \<open>int\<close>,
  as the source counts in it.

  \<^bold>\<open>Parameters.\<close> Code outside \<open>src/runtime\<close> is an argument of the definitions that use it: decNumber
  (\<open>dec_lib\<close>, and \<open>decQuadCompareClass\<close> in the image), the conversion of doubles to text and back (\<open>print_lib\<close>, \<open>strtod\<close>),
  libbacktrace, and \<open>malloc\<close>. What the theorems need of them is stated as named predicates, and each is shown to hold for a
  concrete function in a witness. In particular \<open>compares_values\<close> says that \<open>decQuadCompare\<close> orders \<open>numbers\<close>, the decimals that
  are not NaN, by value; the theorems that use it are about values whose decimals are numbers.

  \<^bold>\<open>Not modelled.\<close> \<open>main.c\<close> sets the guard of the stack from the address of a frame and calls generated code: there
  is no logic in it that does not depend on machine addresses. The libraries under \<open>src/runtime/third-party\<close> are
  parameters. Of the compiler under \<open>src/compiler\<close>, written in Ballerina, only the mangling functions are
  modelled. The generated binding of the LLVM interface, the test driver of the experiment with tagged pointers, the
  samples of address spaces (\<open>src/experiment/addrspace\<close>, no C code) and the tests are no part of the runtime. In \<open>list.c\<close> the code inside \<open>#if 0\<close> is left out. Memory is never freed: the
  runtime has no collector. The warnings that a few readers of lists print on \<open>stderr\<close> are left out. The theorems about
  mappings that grow exclude a field array of capacity 1, at which the growth of the source overruns
  the array; those about symbol names are for names in ASCII, because the compiler counts code points where the
  demangler counts bytes.
\<close>

section \<open>Properties of several components\<close>

subsection \<open>Strings made at run time as keys\<close>

lemma concat_keeps_mapping:
  assumes "mapping_ok s p kvs" "heap s \<subseteq>\<^sub>m heap s1" "img s1 = img s"
  shows "mapping_ok s1 p kvs"
proof -
  obtain desc mdp m where d: "mapping_desc_at desc s = Inr mdp" "md_nFields mdp \<le> int (length (md_fieldTypes mdp))"
    and m: "heap s (taggedToPtr p) = Some (ObjMapping m)" "map_rep s m kvs" "mo_desc m = desc" "arr_capacity (mo_fArray m) \<noteq> 1"
    using assms(1) by (auto simp: mapping_ok_def map_at_def)
  have "map_rep s1 m kvs" using m(2) assms(3) by (rule map_rep_mono) (rule str_rep_mono [OF _ assms(2)])
  moreover have "heap s1 (taggedToPtr p) = Some (ObjMapping m)" using m(1) assms(2) by (auto simp: map_le_def dom_def)
  moreover have "mapping_desc_at desc s1 = Inr mdp" using d(1) assms(3) by (simp add: mapping_desc_at_def)
  ultimately show ?thesis using m(3,4) d(2) unfolding mapping_ok_def map_at_def by blast
qed

lemma sample_empty_rep: "str_rep s TAGGED_STRING_EMPTY []"
proof -
  have "TAGGED_STRING_EMPTY = immediate_bits []" "utf8 []" "immediate_rep []" by code_simp+
  then show ?thesis using str_rep_immediateI by metis
qed

text \<open>
  C13: A field is found under any key with the same characters. After a field was stored, a lookup with a key
  that is concatenated at run time, in whatever representations the pieces and the result have, yields the stored
  value when the bytes of the two keys are the same, and otherwise what the mapping held for
  those bytes before the store. The field array of the mapping does not have capacity 1.
\<close>

theorem built_key_lookup:
  assumes "wf_rt s" "mapping_ok s p kvs" "str_rep s key k" "length kvs + 1 < 2 ^ 29" "bal_mapping_set p key v s = Inr (0, s1)"
    "str_rep s tp1 as" "str_rep s tp2 bs" "length as + length bs < 2 ^ 62"
  shows "case bal_string_concat tp1 tp2 s1 of
      Inl e \<Rightarrow> e = OutOfMemory
    | Inr (key', s2) \<Rightarrow> bal_mapping_get p key' s2 =
        Inr (if as @ bs = k then v else case map_of kvs (as @ bs) of None \<Rightarrow> 0 | Some w \<Rightarrow> w)"
proof -
  have s1: "mapping_ok s1 p (AList.update k v kvs)" "str_rep s1 tp1 as" "str_rep s1 tp2 bs"
    using mapping.put_law [OF assms(2-5)] mapping.key_law [OF assms(2-5)] assms(6,7) by blast+
  have "wf_rt s1" using assms(1-5) bal_mapping_set_success(2) by (fastforce simp: mapping_ok_def changes_only_def)
  from bal_string_concat_rep [OF this s1(2,3) assms(8)] show ?thesis
    using concat_keeps_mapping [OF s1(1)] mapping.get_law [of _ p "AList.update k v kvs" _ "as @ bs"]
    by (auto simp: update_conv' split: sum.splits)
qed

theorem built_key_lookup_witness:
  "\<exists>p s s1. bal_mapping_set p key_a TAGGED_INT_ZERO s = Inr (0, s1) \<and>
     (case bal_string_concat TAGGED_STRING_EMPTY key_a s1 of
        Inl e \<Rightarrow> e = OutOfMemory
      | Inr (key', s2) \<Rightarrow> bal_mapping_get p key' s2 = Inr TAGGED_INT_ZERO)"
proof -
  obtain p s s1 where r: "empty_mapping = Inr (p, s)" "bal_mapping_set p key_a TAGGED_INT_ZERO s = Inr (0, s1)"
    "map_at s p 0x200 []" "img s = sample_image" by (rule one_setE)
  have w: "wf_rt s" using empty_mapping_at r(1) by (metis Inr_inject Pair_inject)
  have n: "length ([] :: (byte list \<times> tagged) list) + 1 < 2 ^ 29" "length ([] :: byte list) + length [0x61 :: byte] < 2 ^ 62" by simp_all
  from built_key_lookup [OF w empty_mapping_ok [OF r(3,4)] sample_keys(1) n(1) r(2) sample_empty_rep sample_keys(1) n(2)]
  have "case bal_string_concat TAGGED_STRING_EMPTY key_a s1 of
      Inl e \<Rightarrow> e = OutOfMemory | Inr (key', s2) \<Rightarrow> bal_mapping_get p key' s2 = Inr TAGGED_INT_ZERO"
    by (auto split: sum.splits)
  with r(2) show ?thesis by blast
qed

subsection \<open>Refused stores as panics\<close>

text \<open>The message for a refused store.\<close>

definition store_message :: "bool \<Rightarrow> bool \<Rightarrow> tagged \<Rightarrow> tagged list \<Rightarrow> int \<Rightarrow> string" where
  "store_message ok noFiller p xs index =
     (if \<not> ok then if is_exact p then ''internal error'' else ''bad list store''
      else if index < 0 then ''index out of bounds''
      else if int (length xs) < index \<and> noFiller then ''no filler value'' else ''list too long'')"

lemma store_code_message:
  assumes "generic_store_code ok noFiller p xs index \<noteq> 0"
  shows "generic_store_code ok noFiller p xs index \<le> 12"
    "panicMessages ! (generic_store_code ok noFiller p xs index - 1) = store_message ok noFiller p xs index"
  using assms
  by (auto simp: generic_store_code_def store_message_def storePanicCode_eq panic_codes panicMessages_def split: if_splits)

lemma updates_messages:
  assumes "updates (taggedToPtr p) s s1" "holds TpArray s p desc xs" "panicMessageStrings statics s"
  shows "panicMessageStrings statics s1"
proof -
  have "heap s1 (statics code) = heap s (statics code)" if "code \<in> {1..12}" for code
  proof -
    have "heap s (statics code) \<noteq> heap s (taggedToPtr p)" "heap s (statics code) \<noteq> None"
      using assms(2,3) that by (auto simp: holds_def panicMessageStrings_def)
    then show ?thesis using assms(1) unfolding updates_def by metis
  qed
  then show ?thesis using assms(3) by (simp add: panicMessageStrings_def)
qed

text \<open>
  C11: A refused store ends the program with a report that says why. When a store into a generic list is refused and
  its code is raised as a panic with the line of the statement, the report has the message for the
  first of the conditions that the store violates, then the frames of the stack, starting with that line. The
  store leaves the static strings of the messages intact. The organizations and modules in the
  frames are in ASCII, as for the demangler.
\<close>

theorem refused_store_reported:
  assumes "wf_rt s" "holds TpArray s p desc xs" "list_desc_at desc s = Inr ldp" "i64 index"
    "listDescAllowsTaggedAt ldp index val s = Inr ok"
    "ld_fillerDesc ldp = 0 \<or> filler_ok depth (img s) (ld_fillerDesc ldp)"
    "panicMessageStrings statics s" "created \<or> bt_create_error lib = None"
    "bt_simple lib = map BtFrame (pc # pcs)" "list_all2 (described lib) pcs (c # cs)" "length pcs < 256"
    "0 < line" "line < 2 ^ 56"
  shows "case bal_list_generic_set_tagged depth p index val s of
      Inl e \<Rightarrow> e = OutOfMemory
    | Inr (code, s1) \<Rightarrow> code \<noteq> 0 \<and> memory 10 s1 \<longrightarrow>
        bindR (bal_panic_construct lib statics created (word_of_nat (code + 256 * line)) s1) (\<lambda>(error, _, s2). bal_panic lib error s2) =
        Inr (''panic: '' @ store_message ok (ld_fillerDesc ldp = 0) p xs index @ [CHR 0x0A] @
          site_line (int line) c @ concat (map (\<lambda>c. site_line (cs_line c) c) cs))"
proof (cases "bal_list_generic_set_tagged depth p index val s")
  case (Inl e)
  then show ?thesis using generic_set_correct [OF assms(1-6)] by (simp add: store_outcome_def)
next
  case (Inr r)
  obtain code s1 where r: "r = (code, s1)" by (cases r)
  have o: "code = generic_store_code ok (ld_fillerDesc ldp = 0) p xs index" "updates (taggedToPtr p) s s1"
    using generic_set_correct [OF assms(1-6)] Inr r by (auto simp: store_outcome_def)
  have w: "wf_rt s1" "panicMessageStrings statics s1" using o(2) updates_messages [OF o(2) assms(2,7)] by (auto simp: updates_def)
  show ?thesis unfolding Inr r
    using panic_prints [OF w(1) _ w(2) assms(8-11) _ _ assms(12,13), of code]
      store_code_message [of ok "ld_fillerDesc ldp = 0" p xs index] o(1) by auto
qed

text \<open>The sample of the panics with an empty \<open>int[][]\<close>; the store of a nil is refused.\<close>

definition sample_store_rt :: rt where
  "sample_store_rt = store 0x200000
     (ObjList \<lparr>lo_desc = 0x120, lo_array = TpArray \<lparr>arr_length = 0, arr_capacity = 0, arr_members = []\<rparr>\<rparr>) sample_panic_rt"

lemma sample_store_free: "0x200000 \<notin> set (pool sample_panic_rt)" "heap_addr 0x200000" "\<forall>code \<in> {1..12}. sample_statics code \<noteq> 0x200000"
proof -
  show "0x200000 \<notin> set (pool sample_panic_rt)" unfolding sample_panic_pool by simp
  show "heap_addr 0x200000" by code_simp
  have "list_all (\<lambda>code. sample_statics code \<noteq> 0x200000) [1..<13]" by code_simp
  then show "\<forall>code \<in> {1..12}. sample_statics code \<noteq> 0x200000" unfolding list_all_iff set_upt by auto
qed

lemma sample_store_ptr: "taggedToPtr (sample_ptr 0x200000) = 0x200000" "\<not> is_exact (sample_ptr 0x200000)"
  by code_simp+

lemma sample_store:
  "wf_rt sample_store_rt" "holds TpArray sample_store_rt (sample_ptr 0x200000) 0x120 []" "panicMessageStrings sample_statics sample_store_rt"
  "img sample_store_rt = sample_image" "list_desc_at 0x120 sample_store_rt = Inr (sample_list_desc GenericList 0x1000 0x308)"
proof -
  show "wf_rt sample_store_rt" unfolding sample_store_rt_def
    using sample_panic_wf sample_store_free(2,1) by (rule store_wf)
  show "holds TpArray sample_store_rt (sample_ptr 0x200000) 0x120 []"
    by (auto simp: holds_def sample_store_rt_def sample_store_ptr arr_inv_def arr_list_def ARRAY_LENGTH_MAX_eq)
  show "panicMessageStrings sample_statics sample_store_rt"
    using sample_panic_strings sample_store_free(3) by (simp add: panicMessageStrings_def sample_store_rt_def)
  show i: "img sample_store_rt = sample_image" by (simp add: sample_store_rt_def sample_panic_rt_def)
  show "list_desc_at 0x120 sample_store_rt = Inr (sample_list_desc GenericList 0x1000 0x308)" by (simp add: list_desc_at_def i sample_image_def)
qed

theorem refused_store_reported_witness:
  "bindR (bal_list_generic_set_tagged 1 (sample_ptr 0x200000) 0 NIL sample_store_rt)
     (\<lambda>(code, s1). bindR (bal_panic_construct sample_lib sample_statics False (word_of_nat (code + 256 * 7)) s1)
        (\<lambda>(error, _, s2). bal_panic sample_lib error s2)) =
   Inr (''panic: bad list store'' @ [CHR 0x0A] @ ''    f (acme/app) m.bal:7'' @ [CHR 0x0A] @ ''    main (acme/app) m.bal:9'' @ [CHR 0x0A])"
proof -
  have i: "i64 0" by (simp add: i64_def)
  have ok: "listDescAllowsTaggedAt (sample_list_desc GenericList 0x1000 0x308) 0 NIL sample_store_rt = Inr False"
    unfolding sample_nested_type by code_simp
  have fo: "ld_fillerDesc (sample_list_desc GenericList 0x1000 0x308) = 0 \<or>
      filler_ok 1 (img sample_store_rt) (ld_fillerDesc (sample_list_desc GenericList 0x1000 0x308))"
    using sample_nested_filler(1) by (simp add: sample_list_desc_def sample_store(4))
  have l: "False \<or> bt_create_error sample_lib = None" "bt_simple sample_lib = map BtFrame (16 # [32, 48])" by (simp_all add: sample_lib_def)
  have n: "length [32 :: u64, 48] < 256" "0 < (7 :: nat)" "(7 :: nat) < 2 ^ 56" by simp_all
  have t: "''panic: '' @ store_message False (ld_fillerDesc (sample_list_desc GenericList 0x1000 0x308) = 0) (sample_ptr 0x200000) [] 0 @
        [CHR 0x0A] @ site_line (int 7) (sample_site ''f'' 3) @ concat (map (\<lambda>c. site_line (cs_line c) c) [sample_site ''main'' 9]) =
      ''panic: bad list store'' @ [CHR 0x0A] @ ''    f (acme/app) m.bal:7'' @ [CHR 0x0A] @ ''    main (acme/app) m.bal:9'' @ [CHR 0x0A]"
    by code_simp
  have m: "memory 10 sample_store_rt" unfolding memory_def sample_store_rt_def by (simp add: sample_panic_pool)
  have r: "bal_list_generic_set_tagged 1 (sample_ptr 0x200000) 0 NIL sample_store_rt = Inr (PANIC_LIST_STORE, sample_store_rt)"
    using ok sample_store_ptr sample_store(5)
    by (simp add: bal_list_generic_set_tagged_def sample_store_rt_def list_at_def storePanicCode_eq)
  have c: "PANIC_LIST_STORE \<noteq> 0" by (simp add: panic_codes)
  from refused_store_reported [OF sample_store(1,2,5) i ok fo sample_store(3) l sample_described n, unfolded t r sum.case prod.case] m c
  show ?thesis unfolding r bindR_simps prod.case by blast
qed

end
